(* ===== verification/Circuit_Breaker.thy ===== *)
theory Circuit_Breaker
  imports Gateway_Prelude
begin

text \<open>
  The circuit breaker of \<^verbatim>\<open>core/src/upstream/circuit_breaker.rs\<close>, one record per
  \<open>CircuitBreaker\<close>.  The atomics become fields; every operation takes the reading of
  \<open>now_ms()\<close> it makes as an argument (one reading per call; the source reads the monotonic
  clock again within a call, a difference of nanoseconds).  The counters keep their width: \<open>fetch_add\<close> wraps.
  What an operation publishes to the metrics recorder is appended to the field \<open>published\<close>,
  oldest first; tracing output is left out.

  Operations run one at a time here; \<open>Breaker_Threads\<close> interleaves them.
  \<open>Circuit_Breaker_Spec\<close> states the contract of the breaker (an automaton with a failure count, an
  opening time and a success count) and proves that the operations refine it in every reachable state.
\<close>

section \<open>Data\<close>

record breaker_config =
  failure_threshold :: u32
  success_threshold :: u32
  timeout_duration :: nat  \<comment> \<open>milliseconds\<close>
  window_duration :: nat   \<comment> \<open>milliseconds\<close>

definition default_breaker_config :: breaker_config where
  "default_breaker_config =
     \<lparr>failure_threshold = 5, success_threshold = 2,
      timeout_duration = 30000, window_duration = 60000\<rparr>"

definition STATE_CLOSED :: u8 where "STATE_CLOSED = 0"
definition STATE_OPEN :: u8 where "STATE_OPEN = 1"
definition STATE_HALF_OPEN :: u8 where "STATE_HALF_OPEN = 2"

lemmas state_consts = STATE_CLOSED_def STATE_OPEN_def STATE_HALF_OPEN_def

datatype circuit_state = Closed | Open | HalfOpen

fun state_as_str :: "circuit_state \<Rightarrow> string" where
  "state_as_str Closed = ''closed''"
| "state_as_str Open = ''open''"
| "state_as_str HalfOpen = ''half_open''"

fun state_to_int :: "circuit_state \<Rightarrow> u8" where
  "state_to_int Closed = STATE_CLOSED"
| "state_to_int Open = STATE_OPEN"
| "state_to_int HalfOpen = STATE_HALF_OPEN"

definition state_from_int :: "u8 \<Rightarrow> circuit_state" where
  "state_from_int v =
     (if v = STATE_CLOSED then Closed
      else if v = STATE_OPEN then Open
      else if v = STATE_HALF_OPEN then HalfOpen
      else Closed)"

lemma state_from_to_int [simp]: "state_from_int (state_to_int s) = s"
  by (cases s) (simp_all add: state_from_int_def state_consts)

lemma state_to_int_inject [simp]: "state_to_int s = state_to_int t \<longleftrightarrow> s = t"
  by (metis state_from_to_int)

datatype breaker_metric =
    CbState string u8
  | CbTransition string string string
  | CbFailures string u32
  | CbSuccesses string u32

record breaker =
  cb_state :: u8
  consecutive_failures :: u32
  consecutive_successes :: u32
  total_failures :: u64
  total_successes :: u64
  last_failure_time_ms :: nat
  last_state_change_ms :: nat
  config :: breaker_config
  metric_label :: string
  published :: "breaker_metric list"

record breaker_stats =
  st_state :: circuit_state
  st_consecutive_failures :: u32
  st_consecutive_successes :: u32
  st_total_failures :: u64
  st_total_successes :: u64
  st_time_since_last_failure :: "nat option"
  st_time_since_last_state_change :: nat

section \<open>Operations\<close>

definition with_config_and_label :: "nat \<Rightarrow> breaker_config \<Rightarrow> string \<Rightarrow> breaker" where
  "with_config_and_label now cfg label =
     \<lparr>cb_state = STATE_CLOSED, consecutive_failures = 0, consecutive_successes = 0,
      total_failures = 0, total_successes = 0, last_failure_time_ms = 0,
      last_state_change_ms = now, config = cfg, metric_label = label,
      published = [CbState label (state_to_int Closed)]\<rparr>"

definition breaker_new :: "nat \<Rightarrow> breaker" where
  "breaker_new now = with_config_and_label now default_breaker_config ''''"

definition publish_gauge_metrics :: "breaker \<Rightarrow> breaker" where
  "publish_gauge_metrics b =
     b\<lparr>published := published b @
         [CbFailures (metric_label b) (consecutive_failures b),
          CbSuccesses (metric_label b) (consecutive_successes b)]\<rparr>"

text \<open>
  \<open>compare_exchange\<close> on the state: \<open>Inr\<close> is success with the new content, \<open>Inl\<close> failure.
\<close>

definition cas_state :: "u8 \<Rightarrow> u8 \<Rightarrow> breaker \<Rightarrow> breaker + breaker" where
  "cas_state expected new b =
     (if cb_state b = expected then Inr (b\<lparr>cb_state := new\<rparr>) else Inl b)"

definition check_and_update_state :: "nat \<Rightarrow> breaker \<Rightarrow> circuit_state \<times> breaker" where
  "check_and_update_state now b =
     (let current_state = state_from_int (cb_state b) in
      if current_state = Open then
        (let elapsed_ms = now - last_state_change_ms b;
             timeout_ms = timeout_duration (config b) in
         if timeout_ms \<le> elapsed_ms then
           (case cas_state STATE_OPEN STATE_HALF_OPEN b of
              Inr b1 \<Rightarrow>
                (let b2 = b1\<lparr>last_state_change_ms := now, consecutive_failures := 0,
                             consecutive_successes := 0\<rparr>;
                     b3 = b2\<lparr>published := published b2 @
                               [CbTransition (metric_label b2) ''open'' ''half_open'',
                                CbState (metric_label b2) STATE_HALF_OPEN]\<rparr>
                 in (HalfOpen, publish_gauge_metrics b3))
            | Inl b1 \<Rightarrow> (state_from_int (cb_state b1), b1))
         else (current_state, b))
      else (current_state, b))"

definition breaker_state :: "nat \<Rightarrow> breaker \<Rightarrow> circuit_state \<times> breaker" where
  "breaker_state now b = check_and_update_state now b"

definition can_execute :: "nat \<Rightarrow> breaker \<Rightarrow> bool \<times> breaker" where
  "can_execute now b =
     (case breaker_state now b of
        (Closed, b') \<Rightarrow> (True, b')
      | (Open, b') \<Rightarrow> (False, b')
      | (HalfOpen, b') \<Rightarrow> (True, b'))"

definition transition_to :: "nat \<Rightarrow> circuit_state \<Rightarrow> breaker \<Rightarrow> breaker" where
  "transition_to now new_state b =
     (let old_state = state_from_int (cb_state b);
          b1 = b\<lparr>cb_state := state_to_int new_state\<rparr> in
      if old_state \<noteq> new_state then
        (let b2 = b1\<lparr>last_state_change_ms := now\<rparr>;
             b3 = (case new_state of
                     Closed \<Rightarrow> b2\<lparr>consecutive_failures := 0, consecutive_successes := 0\<rparr>
                   | Open \<Rightarrow> b2\<lparr>consecutive_successes := 0\<rparr>
                   | HalfOpen \<Rightarrow> b2\<lparr>consecutive_failures := 0, consecutive_successes := 0\<rparr>);
             b4 = b3\<lparr>published := published b3 @
                       [CbTransition (metric_label b3) (state_as_str old_state) (state_as_str new_state),
                        CbState (metric_label b3) (state_to_int new_state)]\<rparr>
         in publish_gauge_metrics b4)
      else b1)"

definition record_success :: "nat \<Rightarrow> breaker \<Rightarrow> breaker" where
  "record_success now b =
     (let b1 = b\<lparr>total_successes := total_successes b + 1, consecutive_failures := 0\<rparr>;
          successes = consecutive_successes b1 + 1;
          b2 = b1\<lparr>consecutive_successes := successes\<rparr> in
      case state_from_int (cb_state b2) of
        HalfOpen \<Rightarrow> (if success_threshold (config b2) \<le> successes
                     then transition_to now Closed b2 else b2)
      | Closed \<Rightarrow> b2
      | Open \<Rightarrow> b2)"

definition record_failure :: "nat \<Rightarrow> breaker \<Rightarrow> breaker" where
  "record_failure now b =
     (let b1 = b\<lparr>total_failures := total_failures b + 1, consecutive_successes := 0\<rparr>;
          failures = consecutive_failures b1 + 1;
          b2 = b1\<lparr>consecutive_failures := failures, last_failure_time_ms := now\<rparr> in
      case state_from_int (cb_state b2) of
        Closed \<Rightarrow> (if failure_threshold (config b2) \<le> failures
                   then transition_to now Open b2 else b2)
      | HalfOpen \<Rightarrow> transition_to now Open b2
      | Open \<Rightarrow> b2)"

definition record_outcome :: "nat \<Rightarrow> bool \<Rightarrow> breaker \<Rightarrow> breaker" where
  "record_outcome now success b =
     publish_gauge_metrics (if success then record_success now b else record_failure now b)"

definition time_since_last_failure :: "nat \<Rightarrow> breaker \<Rightarrow> nat option" where
  "time_since_last_failure now b =
     (if last_failure_time_ms b = 0 then None else Some (now - last_failure_time_ms b))"

definition time_since_last_state_change :: "nat \<Rightarrow> breaker \<Rightarrow> nat" where
  "time_since_last_state_change now b = now - last_state_change_ms b"

definition is_half_open :: "nat \<Rightarrow> breaker \<Rightarrow> bool \<times> breaker" where
  "is_half_open now b = (case breaker_state now b of (s, b') \<Rightarrow> (s = HalfOpen, b'))"

definition record_test_success :: "nat \<Rightarrow> breaker \<Rightarrow> breaker" where
  "record_test_success now b =
     (case is_half_open now b of (h, b') \<Rightarrow> if h then record_success now b' else b')"

definition record_test_failure :: "nat \<Rightarrow> breaker \<Rightarrow> breaker" where
  "record_test_failure now b =
     (case is_half_open now b of (h, b') \<Rightarrow> if h then record_failure now b' else b')"

definition breaker_reset :: "nat \<Rightarrow> breaker \<Rightarrow> breaker" where
  "breaker_reset now b =
     publish_gauge_metrics
       ((transition_to now Closed b)\<lparr>consecutive_failures := 0, consecutive_successes := 0\<rparr>)"

definition force_open :: "nat \<Rightarrow> breaker \<Rightarrow> breaker" where
  "force_open now b = transition_to now Open b"

definition breaker_stats_of :: "nat \<Rightarrow> breaker \<Rightarrow> breaker_stats \<times> breaker" where
  "breaker_stats_of now b =
     (case breaker_state now b of (s, b') \<Rightarrow>
        (\<lparr>st_state = s,
          st_consecutive_failures = consecutive_failures b',
          st_consecutive_successes = consecutive_successes b',
          st_total_failures = total_failures b',
          st_total_successes = total_successes b',
          st_time_since_last_failure = time_since_last_failure now b',
          st_time_since_last_state_change = time_since_last_state_change now b'\<rparr>, b'))"

text \<open>\<open>Clone\<close> copies the values; nothing is published for the copy.\<close>

definition breaker_clone :: "breaker \<Rightarrow> breaker" where
  "breaker_clone b =
     \<lparr>cb_state = cb_state b, consecutive_failures = consecutive_failures b,
      consecutive_successes = consecutive_successes b, total_failures = total_failures b,
      total_successes = total_successes b, last_failure_time_ms = last_failure_time_ms b,
      last_state_change_ms = last_state_change_ms b, config = config b,
      metric_label = metric_label b, published = []\<rparr>"

section \<open>Sequences of calls\<close>

datatype breaker_call =
    Can_Execute | Get_Stats
  | Record_Success | Record_Failure | Record_Outcome bool
  | Record_Test_Success | Record_Test_Failure
  | Reset | Force_Open

fun breaker_exec :: "nat \<Rightarrow> breaker_call \<Rightarrow> breaker \<Rightarrow> breaker" where
  "breaker_exec now Can_Execute b = snd (can_execute now b)"
| "breaker_exec now Get_Stats b = snd (breaker_stats_of now b)"
| "breaker_exec now Record_Success b = record_success now b"
| "breaker_exec now Record_Failure b = record_failure now b"
| "breaker_exec now (Record_Outcome ok) b = record_outcome now ok b"
| "breaker_exec now Record_Test_Success b = record_test_success now b"
| "breaker_exec now Record_Test_Failure b = record_test_failure now b"
| "breaker_exec now Reset b = breaker_reset now b"
| "breaker_exec now Force_Open b = force_open now b"

text \<open>The breakers that calls at non-decreasing clock readings can produce.\<close>

inductive breaker_reachable :: "breaker_config \<Rightarrow> string \<Rightarrow> nat \<Rightarrow> breaker \<Rightarrow> bool"
  for cfg :: breaker_config and label :: string where
  created: "breaker_reachable cfg label now (with_config_and_label now cfg label)"
| called: "breaker_reachable cfg label t b \<Longrightarrow> t \<le> now \<Longrightarrow>
     breaker_reachable cfg label now (breaker_exec now c b)"

lemmas breaker_defs =
  check_and_update_state_def breaker_state_def can_execute_def transition_to_def
  record_success_def record_failure_def record_outcome_def publish_gauge_metrics_def
  is_half_open_def record_test_success_def record_test_failure_def breaker_reset_def
  force_open_def breaker_stats_of_def cas_state_def with_config_and_label_def

lemma cb_state_cases:
  obtains "cb_state b = STATE_CLOSED" "state_from_int (cb_state b) = Closed"
  | "cb_state b = STATE_OPEN" "state_from_int (cb_state b) = Open"
  | "cb_state b = STATE_HALF_OPEN" "state_from_int (cb_state b) = HalfOpen"
  | "cb_state b \<notin> {STATE_CLOSED, STATE_OPEN, STATE_HALF_OPEN}" "state_from_int (cb_state b) = Closed"
  by (cases "cb_state b = STATE_CLOSED"; cases "cb_state b = STATE_OPEN";
      cases "cb_state b = STATE_HALF_OPEN") (auto simp: state_from_int_def)

lemma state_from_int_Open_iff: "state_from_int v = Open \<longleftrightarrow> v = STATE_OPEN"
  by (auto simp: state_from_int_def state_consts)

lemma state_from_int_HalfOpen_iff: "state_from_int v = HalfOpen \<longleftrightarrow> v = STATE_HALF_OPEN"
  by (auto simp: state_from_int_def state_consts)

lemma state_from_int_consts [simp]:
  "state_from_int STATE_CLOSED = Closed"
  "state_from_int STATE_OPEN = Open"
  "state_from_int STATE_HALF_OPEN = HalfOpen"
  by (simp_all add: state_from_int_def state_consts)

text \<open>
  In the sequential model the compare-and-swap of the open branch always succeeds, because the
  state was just read as open.
\<close>

lemma check_and_update_state_eq:
  "check_and_update_state now b =
     (if state_from_int (cb_state b) = Open
         \<and> timeout_duration (config b) \<le> now - last_state_change_ms b
      then (HalfOpen,
            b\<lparr>cb_state := STATE_HALF_OPEN, last_state_change_ms := now,
              consecutive_failures := 0, consecutive_successes := 0,
              published := published b @
                [CbTransition (metric_label b) ''open'' ''half_open'',
                 CbState (metric_label b) STATE_HALF_OPEN,
                 CbFailures (metric_label b) 0, CbSuccesses (metric_label b) 0]\<rparr>)
      else (state_from_int (cb_state b), b))"
  by (auto simp: check_and_update_state_def cas_state_def Let_def publish_gauge_metrics_def
      state_from_int_Open_iff)

section \<open>Frame properties\<close>

lemma publish_frame [frame_simps, simp]:
  "cb_state (publish_gauge_metrics b) = cb_state b"
  "consecutive_failures (publish_gauge_metrics b) = consecutive_failures b"
  "consecutive_successes (publish_gauge_metrics b) = consecutive_successes b"
  "total_failures (publish_gauge_metrics b) = total_failures b"
  "total_successes (publish_gauge_metrics b) = total_successes b"
  "last_failure_time_ms (publish_gauge_metrics b) = last_failure_time_ms b"
  "last_state_change_ms (publish_gauge_metrics b) = last_state_change_ms b"
  "config (publish_gauge_metrics b) = config b"
  "metric_label (publish_gauge_metrics b) = metric_label b"
  by (simp_all add: publish_gauge_metrics_def)

lemma transition_to_frame [frame_simps, simp]:
  "config (transition_to now s b) = config b"
  "metric_label (transition_to now s b) = metric_label b"
  "total_failures (transition_to now s b) = total_failures b"
  "total_successes (transition_to now s b) = total_successes b"
  "last_failure_time_ms (transition_to now s b) = last_failure_time_ms b"
  "cb_state (transition_to now s b) = state_to_int s"
  by (simp_all add: transition_to_def Let_def split: circuit_state.split)

lemma record_frame [frame_simps, simp]:
  "config (record_success now b) = config b"
  "metric_label (record_success now b) = metric_label b"
  "config (record_failure now b) = config b"
  "metric_label (record_failure now b) = metric_label b"
  "total_failures (record_success now b) = total_failures b"
  "total_successes (record_success now b) = total_successes b + 1"
  "total_failures (record_failure now b) = total_failures b + 1"
  "total_successes (record_failure now b) = total_successes b"
  by (simp_all add: record_success_def record_failure_def Let_def split: circuit_state.split)

lemma check_frame [frame_simps, simp]:
  "config (snd (check_and_update_state now b)) = config b"
  "metric_label (snd (check_and_update_state now b)) = metric_label b"
  "total_failures (snd (check_and_update_state now b)) = total_failures b"
  "total_successes (snd (check_and_update_state now b)) = total_successes b"
  by (simp_all add: check_and_update_state_eq)

text \<open>Reading the state is the only effect of the operations that report it.\<close>

lemma state_reports:
  "snd (can_execute now b) = snd (check_and_update_state now b)"
  "snd (is_half_open now b) = snd (check_and_update_state now b)"
  "snd (breaker_stats_of now b) = snd (check_and_update_state now b)"
  by (auto simp: can_execute_def is_half_open_def breaker_stats_of_def breaker_state_def
      split: prod.split circuit_state.split)

lemma can_execute_fst: "fst (can_execute now b) \<longleftrightarrow> fst (check_and_update_state now b) \<noteq> Open"
  by (auto simp: can_execute_def breaker_state_def split: prod.split circuit_state.split)

lemma is_half_open_fst: "fst (is_half_open now b) \<longleftrightarrow> fst (check_and_update_state now b) = HalfOpen"
  by (auto simp: is_half_open_def breaker_state_def split: prod.split)

lemma record_test_eq:
  "record_test_success now b =
     (if fst (check_and_update_state now b) = HalfOpen
      then record_success now (snd (check_and_update_state now b))
      else snd (check_and_update_state now b))"
  "record_test_failure now b =
     (if fst (check_and_update_state now b) = HalfOpen
      then record_failure now (snd (check_and_update_state now b))
      else snd (check_and_update_state now b))"
  by (auto simp: record_test_success_def record_test_failure_def is_half_open_def breaker_state_def
      split: prod.split)

lemma breaker_exec_frame [frame_simps, simp]:
  "config (breaker_exec now c b) = config b"
  "metric_label (breaker_exec now c b) = metric_label b"
  by (cases c; simp add: state_reports record_outcome_def record_test_eq breaker_reset_def force_open_def)+

end
