(* ===== verification/Circuit_Breaker_Spec.thy ===== *)
theory Circuit_Breaker_Spec
  imports Circuit_Breaker
begin

text \<open>
  The contract of the circuit breaker and the proof that \<open>Circuit_Breaker\<close> keeps it.  The
  abstract breaker is an automaton with three phases: closed with a number of consecutive
  failures, open since some time, half open with a number of consecutive successes.  Every
  reachable breaker satisfies \<open>breaker_inv\<close>, and on breakers with the invariant every call
  refines one step of the automaton (no counter that the automaton reads ever wraps).
\<close>

section \<open>Invariant\<close>

text \<open>The value that the last write left in the state gauge.\<close>

fun state_gauge :: "breaker_metric list \<Rightarrow> u8 option" where
  "state_gauge [] = None"
| "state_gauge (CbState l v # ms) = (case state_gauge ms of None \<Rightarrow> Some v | Some w \<Rightarrow> Some w)"
| "state_gauge (CbTransition l x y # ms) = state_gauge ms"
| "state_gauge (CbFailures l n # ms) = state_gauge ms"
| "state_gauge (CbSuccesses l n # ms) = state_gauge ms"

lemma state_gauge_append:
  "state_gauge (ms @ ns) = (case state_gauge ns of None \<Rightarrow> state_gauge ms | Some v \<Rightarrow> Some v)"
  by (induction ms rule: state_gauge.induct) (auto split: option.split)

text \<open>A counter that is still under its threshold (a threshold of 0 acts as 1).\<close>

definition below_threshold :: "u32 \<Rightarrow> u32 \<Rightarrow> bool" where
  "below_threshold n t \<longleftrightarrow> n = 0 \<or> n < t"

definition breaker_inv :: "breaker \<Rightarrow> bool" where
  "breaker_inv b \<longleftrightarrow>
     cb_state b \<in> {STATE_CLOSED, STATE_OPEN, STATE_HALF_OPEN}
   \<and> (cb_state b = STATE_CLOSED \<longrightarrow>
        below_threshold (consecutive_failures b) (failure_threshold (config b)))
   \<and> (cb_state b = STATE_HALF_OPEN \<longrightarrow>
        consecutive_failures b = 0
      \<and> below_threshold (consecutive_successes b) (success_threshold (config b)))
   \<and> state_gauge (published b) = Some (cb_state b)"

lemma state_consts_distinct [simp]:
  "STATE_CLOSED \<noteq> STATE_OPEN" "STATE_OPEN \<noteq> STATE_CLOSED"
  "STATE_CLOSED \<noteq> STATE_HALF_OPEN" "STATE_HALF_OPEN \<noteq> STATE_CLOSED"
  "STATE_OPEN \<noteq> STATE_HALF_OPEN" "STATE_HALF_OPEN \<noteq> STATE_OPEN"
  by (simp_all add: state_consts)

lemma breaker_inv_cases:
  assumes "breaker_inv b"
  obtains "cb_state b = STATE_CLOSED" | "cb_state b = STATE_OPEN" | "cb_state b = STATE_HALF_OPEN"
  using assms by (auto simp: breaker_inv_def)

lemma below_threshold_zero [simp]: "below_threshold 0 t"
  by (simp add: below_threshold_def)

lemma below_threshold_no_wrap:
  "below_threshold n t \<Longrightarrow> \<not> t \<le> n + 1 \<Longrightarrow> unat (n + 1) = Suc (unat n)"
  by (auto simp: below_threshold_def unat_plus_one_less)

lemma below_threshold_next: "\<not> t \<le> n + 1 \<Longrightarrow> below_threshold (n + 1) t"
  by (simp add: below_threshold_def not_le)

lemma threshold_le_iff:
  "below_threshold n t \<Longrightarrow> t \<le> n + 1 \<longleftrightarrow> unat t \<le> Suc (unat n)"
  by (auto simp: below_threshold_def word_le_nat_alt word_less_nat_alt unat_plus_one_less)

lemma inv_created [inv_intros]: "breaker_inv (with_config_and_label now cfg label)"
  by (simp add: breaker_inv_def with_config_and_label_def)

lemma inv_check [inv_intros]:
  "breaker_inv b \<Longrightarrow> breaker_inv (snd (check_and_update_state now b))"
  by (auto simp: breaker_inv_def check_and_update_state_eq state_gauge_append)

lemma state_gauge_publish [simp]:
  "state_gauge (published (publish_gauge_metrics b)) = state_gauge (published b)"
  by (simp add: publish_gauge_metrics_def state_gauge_append)

lemma inv_publish [simp]: "breaker_inv (publish_gauge_metrics b) = breaker_inv b"
  by (simp add: breaker_inv_def)

lemma transition_to_same:
  "cb_state b = state_to_int s \<Longrightarrow> transition_to now s b = b"
  by (simp add: transition_to_def Let_def)

lemma transition_to_fields:
  assumes "state_from_int (cb_state b) \<noteq> s"
  shows "last_state_change_ms (transition_to now s b) = now"
    and "consecutive_successes (transition_to now s b) = 0"
    and "consecutive_failures (transition_to now s b) = (if s = Open then consecutive_failures b else 0)"
    and "state_gauge (published (transition_to now s b)) = Some (state_to_int s)"
  using assms
  by (simp_all add: transition_to_def Let_def state_gauge_append split: circuit_state.split)

lemma inv_transition_to [inv_intros]:
  assumes "state_from_int (cb_state b) \<noteq> s"
  shows "breaker_inv (transition_to now s b)"
  using transition_to_fields [OF assms] by (cases s) (simp_all add: breaker_inv_def)

lemma inv_record_success [inv_intros]:
  assumes "breaker_inv b"
  shows "breaker_inv (record_success now b)"
  using assms
proof (cases rule: breaker_inv_cases)
  case 3
  show ?thesis
  proof (cases "success_threshold (config b) \<le> consecutive_successes b + 1")
    case True
    with 3 show ?thesis by (auto simp: record_success_def Let_def intro: inv_transition_to)
  next
    case False
    with 3 assms show ?thesis
      by (auto simp: record_success_def Let_def breaker_inv_def intro: below_threshold_next)
  qed
qed (use assms in \<open>auto simp: record_success_def Let_def breaker_inv_def\<close>)

lemma inv_record_failure [inv_intros]:
  assumes "breaker_inv b"
  shows "breaker_inv (record_failure now b)"
  using assms
proof (cases rule: breaker_inv_cases)
  case 1
  show ?thesis
  proof (cases "failure_threshold (config b) \<le> consecutive_failures b + 1")
    case True
    with 1 show ?thesis by (auto simp: record_failure_def Let_def intro: inv_transition_to)
  next
    case False
    with 1 assms show ?thesis
      by (auto simp: record_failure_def Let_def breaker_inv_def intro: below_threshold_next)
  qed
next
  case 2
  with assms show ?thesis by (simp add: record_failure_def Let_def breaker_inv_def)
next
  case 3
  then show ?thesis by (auto simp: record_failure_def Let_def intro: inv_transition_to)
qed

lemma transition_to_inv_any:
  assumes "breaker_inv b"
  shows "breaker_inv (transition_to now s b)"
proof (cases "state_from_int (cb_state b) = s")
  case True
  with assms have "cb_state b = state_to_int s" by (auto simp: breaker_inv_def)
  with assms show ?thesis by (simp add: transition_to_same)
qed (rule inv_transition_to)

lemma inv_exec [inv_intros]: "breaker_inv b \<Longrightarrow> breaker_inv (breaker_exec now c b)"
proof (cases c)
  case Reset
  assume "breaker_inv b"
  then have "breaker_inv (transition_to now Closed b)" by (rule transition_to_inv_any)
  with Reset show ?thesis by (simp add: breaker_reset_def breaker_inv_def)
qed (auto simp: state_reports record_outcome_def record_test_eq force_open_def
      intro: inv_intros transition_to_inv_any)

section \<open>The abstract breaker\<close>

datatype breaker_phase = AClosed nat | AOpen nat | AHalf nat

fun phase_tick :: "nat \<Rightarrow> nat \<Rightarrow> breaker_phase \<Rightarrow> breaker_phase" where
  "phase_tick timeout now (AOpen since) = (if timeout \<le> now - since then AHalf 0 else AOpen since)"
| "phase_tick timeout now p = p"

fun phase_success :: "nat \<Rightarrow> breaker_phase \<Rightarrow> breaker_phase" where
  "phase_success st (AClosed n) = AClosed 0"
| "phase_success st (AHalf n) = (if st \<le> Suc n then AClosed 0 else AHalf (Suc n))"
| "phase_success st (AOpen t) = AOpen t"

fun phase_failure :: "nat \<Rightarrow> nat \<Rightarrow> breaker_phase \<Rightarrow> breaker_phase" where
  "phase_failure ft now (AClosed n) = (if ft \<le> Suc n then AOpen now else AClosed (Suc n))"
| "phase_failure ft now (AHalf n) = AOpen now"
| "phase_failure ft now (AOpen t) = AOpen t"

fun is_half :: "breaker_phase \<Rightarrow> bool" where
  "is_half (AHalf n) = True" | "is_half p = False"

fun phase_step :: "breaker_config \<Rightarrow> nat \<Rightarrow> breaker_call \<Rightarrow> breaker_phase \<Rightarrow> breaker_phase" where
  "phase_step cfg now Can_Execute p = phase_tick (timeout_duration cfg) now p"
| "phase_step cfg now Get_Stats p = phase_tick (timeout_duration cfg) now p"
| "phase_step cfg now Record_Success p = phase_success (unat (success_threshold cfg)) p"
| "phase_step cfg now Record_Failure p = phase_failure (unat (failure_threshold cfg)) now p"
| "phase_step cfg now (Record_Outcome ok) p =
     (if ok then phase_success (unat (success_threshold cfg)) p
      else phase_failure (unat (failure_threshold cfg)) now p)"
| "phase_step cfg now Record_Test_Success p =
     (let q = phase_tick (timeout_duration cfg) now p in
      if is_half q then phase_success (unat (success_threshold cfg)) q else q)"
| "phase_step cfg now Record_Test_Failure p =
     (let q = phase_tick (timeout_duration cfg) now p in
      if is_half q then phase_failure (unat (failure_threshold cfg)) now q else q)"
| "phase_step cfg now Reset p = AClosed 0"
| "phase_step cfg now Force_Open p = (case p of AOpen t \<Rightarrow> AOpen t | _ \<Rightarrow> AOpen now)"

definition breaker_abs :: "breaker \<Rightarrow> breaker_phase" where
  "breaker_abs b =
     (case state_from_int (cb_state b) of
        Closed \<Rightarrow> AClosed (unat (consecutive_failures b))
      | Open \<Rightarrow> AOpen (last_state_change_ms b)
      | HalfOpen \<Rightarrow> AHalf (unat (consecutive_successes b)))"

lemma breaker_abs_transition:
  "state_from_int (cb_state b) \<noteq> s \<Longrightarrow>
     breaker_abs (transition_to now s b) =
       (case s of Closed \<Rightarrow> AClosed 0 | Open \<Rightarrow> AOpen now | HalfOpen \<Rightarrow> AHalf 0)"
  by (cases s) (simp_all add: breaker_abs_def transition_to_fields)

lemma breaker_abs_publish [simp]: "breaker_abs (publish_gauge_metrics b) = breaker_abs b"
  by (simp add: breaker_abs_def split: circuit_state.split)

lemma abs_check:
  "breaker_abs (snd (check_and_update_state now b))
     = phase_tick (timeout_duration (config b)) now (breaker_abs b)"
  by (simp add: check_and_update_state_eq breaker_abs_def split: circuit_state.split)

lemma check_fst_half:
  "fst (check_and_update_state now b) = HalfOpen \<longleftrightarrow>
     is_half (phase_tick (timeout_duration (config b)) now (breaker_abs b))"
  by (simp add: check_and_update_state_eq breaker_abs_def split: circuit_state.split)

lemma abs_record_success:
  assumes "breaker_inv b"
  shows "breaker_abs (record_success now b)
           = phase_success (unat (success_threshold (config b))) (breaker_abs b)"
  using assms
proof (cases rule: breaker_inv_cases)
  case 3
  with assms have lt: "below_threshold (consecutive_successes b) (success_threshold (config b))"
    by (simp add: breaker_inv_def)
  show ?thesis
    using 3 threshold_le_iff [OF lt] below_threshold_no_wrap [OF lt]
    by (auto simp: record_success_def Let_def breaker_abs_transition) (auto simp: breaker_abs_def)
qed (auto simp: record_success_def Let_def breaker_abs_def)

lemma abs_record_failure:
  assumes "breaker_inv b"
  shows "breaker_abs (record_failure now b)
           = phase_failure (unat (failure_threshold (config b))) now (breaker_abs b)"
  using assms
proof (cases rule: breaker_inv_cases)
  case 1
  with assms have lt: "below_threshold (consecutive_failures b) (failure_threshold (config b))"
    by (simp add: breaker_inv_def)
  show ?thesis
    using 1 threshold_le_iff [OF lt] below_threshold_no_wrap [OF lt]
    by (auto simp: record_failure_def Let_def breaker_abs_transition) (auto simp: breaker_abs_def)
next
  case 2
  then show ?thesis by (simp add: record_failure_def Let_def breaker_abs_def)
next
  case 3
  then show ?thesis
    by (auto simp: record_failure_def Let_def breaker_abs_transition) (auto simp: breaker_abs_def)
qed

lemma abs_force_open:
  assumes "breaker_inv b"
  shows "breaker_abs (force_open now b) = (case breaker_abs b of AOpen t \<Rightarrow> AOpen t | _ \<Rightarrow> AOpen now)"
  using assms
  by (cases rule: breaker_inv_cases)
    (auto simp: force_open_def transition_to_same breaker_abs_transition, auto simp: breaker_abs_def)

lemma abs_exec:
  assumes "breaker_inv b"
  shows "breaker_abs (breaker_exec now c b) = phase_step (config b) now c (breaker_abs b)"
proof (cases c)
  case Reset
  then show ?thesis by (simp add: breaker_reset_def breaker_abs_def)
qed (use assms inv_check [OF assms, of now] in
      \<open>auto simp: state_reports record_outcome_def record_test_eq Let_def abs_check
        abs_record_success abs_record_failure abs_force_open check_fst_half\<close>)

section \<open>Reachable breakers\<close>

lemma reachable_inv: "breaker_reachable cfg label t b \<Longrightarrow> breaker_inv b"
  by (induction rule: breaker_reachable.induct) (auto intro: inv_intros)

lemma reachable_config:
  "breaker_reachable cfg label t b \<Longrightarrow> config b = cfg \<and> metric_label b = label"
  by (induction rule: breaker_reachable.induct) (simp_all add: with_config_and_label_def)

lemma record_change_time:
  "last_state_change_ms (record_success now b) \<in> {last_state_change_ms b, now}"
  "last_state_change_ms (record_failure now b) \<in> {last_state_change_ms b, now}"
  "last_state_change_ms (transition_to now s' b) \<in> {last_state_change_ms b, now}"
  by (auto simp: record_success_def record_failure_def transition_to_def Let_def
      split: circuit_state.split)

lemma check_change_time:
  "last_state_change_ms (snd (check_and_update_state now b)) \<in> {last_state_change_ms b, now}"
  by (simp add: check_and_update_state_eq)

lemma exec_change_time:
  "last_state_change_ms (breaker_exec now c b) \<in> {last_state_change_ms b, now}"
  using record_change_time(1,2) [of now b] record_change_time(3) [of now _ b]
    check_change_time [of now b]
    record_change_time(1,2) [of now "snd (check_and_update_state now b)"]
  by (cases c) (auto simp: state_reports record_outcome_def record_test_eq force_open_def breaker_reset_def)

lemma reachable_change_time: "breaker_reachable cfg label t b \<Longrightarrow> last_state_change_ms b \<le> t"
proof (induction rule: breaker_reachable.induct)
  case (called t b now c)
  then show ?case using exec_change_time [of now c b] by auto
qed (simp add: with_config_and_label_def)

text \<open>Whether a phase admits a request, once the clock has been looked at.\<close>

fun phase_admits :: "breaker_phase \<Rightarrow> bool" where
  "phase_admits (AOpen t) = False"
| "phase_admits p = True"

lemma can_execute_admits:
  "fst (can_execute now b) \<longleftrightarrow> phase_admits (phase_tick (timeout_duration (config b)) now (breaker_abs b))"
  by (simp add: can_execute_fst check_and_update_state_eq breaker_abs_def split: circuit_state.split)

lemma phase_failures:
  "length ts + n < ft \<Longrightarrow> fold (phase_failure ft) ts (AClosed n) = AClosed (length ts + n)"
  by (induction ts arbitrary: n) auto

lemma phase_failures_open:
  "ts \<noteq> [] \<Longrightarrow> length ts + n = ft \<Longrightarrow> fold (phase_failure ft) ts (AClosed n) = AOpen (last ts)"
proof (induction ts arbitrary: n)
  case (Cons t ts)
  then show ?case by (cases ts) auto
qed simp

lemma phase_successes:
  "length ts + n < st \<Longrightarrow> ((phase_success st) ^^ length ts) (AHalf n) = AHalf (length ts + n)"
  by (induction ts arbitrary: n) auto

lemma fold_record_failure:
  assumes "breaker_inv b"
  shows "breaker_inv (fold record_failure ts b)
       \<and> config (fold record_failure ts b) = config b
       \<and> breaker_abs (fold record_failure ts b)
           = fold (phase_failure (unat (failure_threshold (config b)))) ts (breaker_abs b)"
  using assms
proof (induction ts arbitrary: b)
  case (Cons t ts)
  from Cons.IH [OF inv_record_failure [OF Cons.prems]] Cons.prems
  show ?case by (simp add: abs_record_failure)
qed simp

lemma fold_record_success:
  assumes "breaker_inv b"
  shows "breaker_inv (fold record_success ts b)
       \<and> config (fold record_success ts b) = config b
       \<and> breaker_abs (fold record_success ts b)
           = fold (\<lambda>_. phase_success (unat (success_threshold (config b)))) ts (breaker_abs b)"
  using assms
proof (induction ts arbitrary: b)
  case (Cons t ts)
  from Cons.IH [OF inv_record_success [OF Cons.prems]] Cons.prems
  show ?case by (simp add: abs_record_success)
qed simp

lemma phase_successes_half:
  "length ts + n < st \<Longrightarrow> fold (\<lambda>_. phase_success st) ts (AHalf n) = AHalf (length ts + n)"
  by (induction ts arbitrary: n) auto

lemma phase_successes_close:
  "ts \<noteq> [] \<Longrightarrow> length ts + n = st \<Longrightarrow> fold (\<lambda>_. phase_success st) ts (AHalf n) = AClosed 0"
proof (induction ts arbitrary: n)
  case (Cons t ts)
  then show ?case by (cases ts) auto
qed simp

section \<open>Properties\<close>

text \<open>
  C8. In every breaker that calls at non-decreasing times produce, a call does exactly one step of
  the abstract automaton, and \<open>can_execute\<close> answers what the automaton admits; the width of the
  counters never shows.
\<close>

theorem breaker_refines_automaton:
  assumes "breaker_reachable cfg label t b"
  shows "breaker_abs (breaker_exec now c b) = phase_step cfg now c (breaker_abs b)
       \<and> (fst (can_execute now b) \<longleftrightarrow>
            phase_admits (phase_tick (timeout_duration cfg) now (breaker_abs b)))"
  using abs_exec [OF reachable_inv [OF assms]] reachable_config [OF assms]
  by (simp add: can_execute_admits)

lemma breaker_refines_automaton_witness:
  "breaker_abs (breaker_exec 7 Record_Failure (breaker_new 0)) = AClosed 1"
proof -
  have "breaker_reachable default_breaker_config '''' 0 (breaker_new 0)"
    unfolding breaker_new_def by (rule breaker_reachable.created)
  from breaker_refines_automaton [OF this, of 7 Record_Failure] show ?thesis
    by (simp add: breaker_new_def with_config_and_label_def breaker_abs_def default_breaker_config_def)
qed

text \<open>
  A reachable breaker is in one of the three states, its counters are under their thresholds
  in the states that read them, its state gauge shows the state it is in, and it changed state
  in the past.
\<close>

lemma breaker_invariant:
  assumes "breaker_reachable cfg label t b"
  shows "breaker_inv b \<and> state_gauge (published b) = Some (cb_state b)
       \<and> config b = cfg \<and> last_state_change_ms b \<le> t"
  using reachable_inv [OF assms] reachable_config [OF assms] reachable_change_time [OF assms]
  by (simp add: breaker_inv_def)

lemma breaker_invariant_witness:
  "state_gauge (published (breaker_exec 9 Force_Open (breaker_new 3))) = Some STATE_OPEN"
proof -
  have "breaker_reachable default_breaker_config '''' 9 (breaker_exec 9 Force_Open (breaker_new 3))"
    unfolding breaker_new_def
    by (rule breaker_reachable.called [OF breaker_reachable.created]) simp
  from breaker_invariant [OF this] show ?thesis
    by (simp add: force_open_def)
qed

text \<open>
  A closed breaker with no failure on record trips on exactly the failure that reaches
  \<open>failure_threshold\<close>: it admits after every shorter run of failures, and after the full run
  it rejects until \<open>timeout_duration\<close> has passed since the last one.
\<close>

lemma breaker_trips_at_threshold:
  assumes "breaker_inv b" "cb_state b = STATE_CLOSED" "consecutive_failures b = 0"
    and "ts \<noteq> []" "length ts = unat (failure_threshold (config b))"
  shows "(k < length ts \<longrightarrow> fst (can_execute now (fold record_failure (take k ts) b)))
       \<and> (fst (can_execute now (fold record_failure ts b)) \<longleftrightarrow>
            timeout_duration (config b) \<le> now - last ts)"
proof -
  have abs: "breaker_abs b = AClosed 0" using assms(2,3) by (simp add: breaker_abs_def)
  show ?thesis
    using fold_record_failure [OF assms(1)] assms(4,5) abs
    by (auto simp: can_execute_admits phase_failures phase_failures_open)
qed

lemma breaker_trips_at_threshold_witness:
  "fst (can_execute 100 (fold record_failure [1, 2, 3, 4] (breaker_new 0)))
   \<and> \<not> fst (can_execute 30004 (fold record_failure [1, 2, 3, 4, 5] (breaker_new 0)))"
proof -
  have inv: "breaker_inv (breaker_new 0)" unfolding breaker_new_def by (rule inv_created)
  note f = breaker_new_def with_config_and_label_def default_breaker_config_def
  show ?thesis
    using breaker_trips_at_threshold [OF inv, of "[1, 2, 3, 4, 5]" 4 100]
      breaker_trips_at_threshold [OF inv, of "[1, 2, 3, 4, 5]" 0 30004]
    by (simp add: f)
qed

text \<open>
  C23. An open breaker rejects until the timeout and then lets a probe through; the probes close
  it after exactly \<open>success_threshold\<close> successes in a row, and one failed probe opens it again
  from that moment.
\<close>

theorem breaker_recovers:
  assumes "breaker_inv b" "cb_state b = STATE_OPEN"
    and "ts \<noteq> []" "length ts = unat (success_threshold (config b))"
    and "early - last_state_change_ms b < timeout_duration (config b)"
    and "timeout_duration (config b) \<le> now - last_state_change_ms b"
    and "probe = snd (can_execute now b)"
    and "k < length ts"
  shows "\<not> fst (can_execute early b) \<and> fst (can_execute now b)
       \<and> breaker_abs (fold record_success (take k ts) probe) = AHalf k
       \<and> breaker_abs (record_failure later (fold record_success (take k ts) probe)) = AOpen later
       \<and> breaker_abs (fold record_success ts probe) = AClosed 0"
proof -
  have abs: "breaker_abs b = AOpen (last_state_change_ms b)"
    using assms(2) by (simp add: breaker_abs_def)
  with assms(5,6) have can: "\<not> fst (can_execute early b)" "fst (can_execute now b)"
    by (simp_all add: can_execute_admits)
  from abs assms(6) have half: "breaker_abs probe = AHalf 0"
    by (simp add: assms(7) state_reports abs_check)
  have inv: "breaker_inv probe" and cfg: "config probe = config b"
    using assms(1) by (simp_all add: assms(7) state_reports inv_check)
  have close: "breaker_abs (fold record_success ts probe) = AClosed 0"
    using fold_record_success [OF inv, of ts] half cfg assms(3,4) by (simp add: phase_successes_close)
  have part: "breaker_abs (fold record_success (take k ts) probe) = AHalf k"
    using fold_record_success [OF inv, of "take k ts"] half cfg assms(4,8)
    by (simp add: phase_successes_half)
  then have "breaker_abs (record_failure later (fold record_success (take k ts) probe)) = AOpen later"
    using fold_record_success [OF inv, of "take k ts"] by (simp add: abs_record_failure)
  with can part close show ?thesis by blast
qed

lemma breaker_recovers_witness:
  "breaker_abs (fold record_success [40001, 40002]
     (snd (can_execute 40000 (force_open 5 (breaker_new 0))))) = AClosed 0"
proof -
  let ?b = "force_open 5 (breaker_new 0)"
  have inv: "breaker_inv ?b"
    unfolding breaker_new_def force_open_def by (intro transition_to_inv_any inv_created)
  have f: "cb_state ?b = STATE_OPEN" "config ?b = default_breaker_config" "last_state_change_ms ?b = 5"
    by (simp_all add: force_open_def breaker_new_def with_config_and_label_def transition_to_fields)
  show ?thesis
    using breaker_recovers [OF inv f(1), of "[40001, 40002]" 0 40000 "snd (can_execute 40000 ?b)" 1]
    by (simp add: f default_breaker_config_def)
qed

end
