(* ===== verification/Breaker_Threads.thy ===== *)
theory Breaker_Threads
  imports Circuit_Breaker_Spec
begin

text \<open>
  The circuit breaker under concurrent calls.  \<^verbatim>\<open>core/src/upstream/circuit_breaker.rs\<close> keeps
  its fields in separate atomics, so the calls of different requests interleave between them.  Here
  each call is the list of its atomic accesses, one step executes one access of one thread, and the
  accesses are sequentially consistent.  A call that nothing comes between does what
  \<open>breaker_exec\<close> says (\<open>breaker_call_alone\<close>); \<open>breaker_races_counted\<close> says what survives
  any interleaving, and two runs at the end show what does not.
\<close>

section \<open>Atomic accesses\<close>

text \<open>
  A thread has the accesses it still has to make, the counter value its last \<open>fetch_add\<close> gave, and
  the state that \<open>state()\<close> has found.
\<close>

datatype breaker_op =
    Add_Total_Failures | Add_Total_Successes
  | Clear_Failures | Clear_Successes
  | Add_Failures | Add_Successes
  | Stamp_Failure | Stamp_Change
  | Decide_Failure | Decide_Success
  | Swap_State circuit_state
  | Emit_Transition circuit_state circuit_state | Emit_State circuit_state
  | Emit_Failures | Emit_Successes
  | Load_State | Load_Change | Cas_Half_Open | Reload_State
  | Then_Success | Then_Failure

record breaker_thread =
  th_code :: "breaker_op list"
  th_count :: u32
  th_seen :: circuit_state

definition gauge_ops :: "breaker_op list" where
  "gauge_ops = [Emit_Failures, Emit_Successes]"

definition success_ops :: "breaker_op list" where
  "success_ops = [Add_Total_Successes, Clear_Failures, Add_Successes, Decide_Success]"

definition failure_ops :: "breaker_op list" where
  "failure_ops = [Add_Total_Failures, Clear_Successes, Add_Failures, Stamp_Failure, Decide_Failure]"

definition half_open_ops :: "breaker_op list" where
  "half_open_ops =
     [Stamp_Change, Clear_Failures, Clear_Successes, Emit_Transition Open HalfOpen, Emit_State HalfOpen] @ gauge_ops"

text \<open>What \<open>transition_to\<close> does after its swap found another state.\<close>

definition changed_ops :: "circuit_state \<Rightarrow> circuit_state \<Rightarrow> breaker_op list" where
  "changed_ops old_state new_state =
     [Stamp_Change]
     @ (case new_state of Open \<Rightarrow> [Clear_Successes] | _ \<Rightarrow> [Clear_Failures, Clear_Successes])
     @ [Emit_Transition old_state new_state, Emit_State new_state] @ gauge_ops"

text \<open>
  One access: the accesses it adds before the rest of the call, the thread's two registers, and the
  breaker.
\<close>

fun exec_op ::
    "nat \<Rightarrow> breaker_op \<Rightarrow> u32 \<Rightarrow> circuit_state \<Rightarrow> breaker \<Rightarrow> breaker_op list \<times> u32 \<times> circuit_state \<times> breaker" where
  "exec_op now Add_Total_Failures n s b = ([], n, s, b\<lparr>total_failures := total_failures b + 1\<rparr>)"
| "exec_op now Add_Total_Successes n s b = ([], n, s, b\<lparr>total_successes := total_successes b + 1\<rparr>)"
| "exec_op now Clear_Failures n s b = ([], n, s, b\<lparr>consecutive_failures := 0\<rparr>)"
| "exec_op now Clear_Successes n s b = ([], n, s, b\<lparr>consecutive_successes := 0\<rparr>)"
| "exec_op now Add_Failures n s b =
     ([], consecutive_failures b + 1, s, b\<lparr>consecutive_failures := consecutive_failures b + 1\<rparr>)"
| "exec_op now Add_Successes n s b =
     ([], consecutive_successes b + 1, s, b\<lparr>consecutive_successes := consecutive_successes b + 1\<rparr>)"
| "exec_op now Stamp_Failure n s b = ([], n, s, b\<lparr>last_failure_time_ms := now\<rparr>)"
| "exec_op now Stamp_Change n s b = ([], n, s, b\<lparr>last_state_change_ms := now\<rparr>)"
| "exec_op now Decide_Failure n s b =
     (case state_from_int (cb_state b) of
        Closed \<Rightarrow> (if failure_threshold (config b) \<le> n then [Swap_State Open] else [])
      | HalfOpen \<Rightarrow> [Swap_State Open]
      | Open \<Rightarrow> [], n, s, b)"
| "exec_op now Decide_Success n s b =
     (case state_from_int (cb_state b) of
        HalfOpen \<Rightarrow> (if success_threshold (config b) \<le> n then [Swap_State Closed] else [])
      | Closed \<Rightarrow> []
      | Open \<Rightarrow> [], n, s, b)"
| "exec_op now (Swap_State new_state) n s b =
     (let old_state = state_from_int (cb_state b)
      in (if old_state \<noteq> new_state then changed_ops old_state new_state else [], n, s,
          b\<lparr>cb_state := state_to_int new_state\<rparr>))"
| "exec_op now (Emit_Transition old_state new_state) n s b =
     ([], n, s, b\<lparr>published := published b
        @ [CbTransition (metric_label b) (state_as_str old_state) (state_as_str new_state)]\<rparr>)"
| "exec_op now (Emit_State new_state) n s b =
     ([], n, s, b\<lparr>published := published b @ [CbState (metric_label b) (state_to_int new_state)]\<rparr>)"
| "exec_op now Emit_Failures n s b =
     ([], n, s, b\<lparr>published := published b @ [CbFailures (metric_label b) (consecutive_failures b)]\<rparr>)"
| "exec_op now Emit_Successes n s b =
     ([], n, s, b\<lparr>published := published b @ [CbSuccesses (metric_label b) (consecutive_successes b)]\<rparr>)"
| "exec_op now Load_State n s b =
     (let current = state_from_int (cb_state b) in (if current = Open then [Load_Change] else [], n, current, b))"
| "exec_op now Load_Change n s b =
     (if timeout_duration (config b) \<le> now - last_state_change_ms b then [Cas_Half_Open] else [], n, s, b)"
| "exec_op now Cas_Half_Open n s b =
     (case cas_state STATE_OPEN STATE_HALF_OPEN b of
        Inr b' \<Rightarrow> (half_open_ops, n, HalfOpen, b')
      | Inl b' \<Rightarrow> ([Reload_State], n, s, b'))"
| "exec_op now Reload_State n s b = ([], n, state_from_int (cb_state b), b)"
| "exec_op now Then_Success n s b = (if s = HalfOpen then success_ops else [], n, s, b)"
| "exec_op now Then_Failure n s b = (if s = HalfOpen then failure_ops else [], n, s, b)"

text \<open>The accesses of each call; \<open>stats\<close> goes on with loads that change nothing.\<close>

fun call_ops :: "breaker_call \<Rightarrow> breaker_op list" where
  "call_ops Can_Execute = [Load_State]"
| "call_ops Get_Stats = [Load_State]"
| "call_ops Record_Success = success_ops"
| "call_ops Record_Failure = failure_ops"
| "call_ops (Record_Outcome ok) = (if ok then success_ops else failure_ops) @ gauge_ops"
| "call_ops Record_Test_Success = [Load_State, Then_Success]"
| "call_ops Record_Test_Failure = [Load_State, Then_Failure]"
| "call_ops Reset = [Swap_State Closed, Clear_Failures, Clear_Successes] @ gauge_ops"
| "call_ops Force_Open = [Swap_State Open]"

definition thread_of :: "breaker_call \<Rightarrow> breaker_thread" where
  "thread_of c = \<lparr>th_code = call_ops c, th_count = 0, th_seen = Closed\<rparr>"

section \<open>A call alone\<close>

fun op_weight :: "breaker_op \<Rightarrow> nat" where
  "op_weight (Swap_State s) = 8"
| "op_weight Decide_Failure = 9"
| "op_weight Decide_Success = 9"
| "op_weight Cas_Half_Open = 8"
| "op_weight Load_Change = 9"
| "op_weight Load_State = 10"
| "op_weight Then_Success = 13"
| "op_weight Then_Failure = 14"
| "op_weight p = 1"

lemma exec_op_weight:
  "sum_list (map op_weight (fst (exec_op now p n s b))) < op_weight p"
  by (cases p) (auto simp: Let_def changed_ops_def half_open_ops_def gauge_ops_def success_ops_def failure_ops_def
      cas_state_def split: circuit_state.split)

function run_ops :: "nat \<Rightarrow> breaker_op list \<Rightarrow> u32 \<Rightarrow> circuit_state \<Rightarrow> breaker \<Rightarrow> circuit_state \<times> breaker" where
  "run_ops now [] n s b = (s, b)"
| "run_ops now (p # ps) n s b =
     (let r = exec_op now p n s b
      in run_ops now (fst r @ ps) (fst (snd r)) (fst (snd (snd r))) (snd (snd (snd r))))"
  by pat_completeness auto
termination
  by (relation "measure (\<lambda>(now, ps, n, s, b). sum_list (map op_weight ps))")
    (auto simp: Let_def intro: add_strict_right_mono exec_op_weight)

lemmas call_code = gauge_ops_def success_ops_def failure_ops_def half_open_ops_def changed_ops_def

lemma run_swap: "run_ops now (Swap_State new_state # ps) n s b = run_ops now ps n s (transition_to now new_state b)"
  by (cases new_state) (simp_all add: Let_def changed_ops_def gauge_ops_def transition_to_def publish_gauge_metrics_def)

lemma run_check:
  "run_ops now (Load_State # ps) n s b =
     run_ops now ps n (fst (breaker_state now b)) (snd (breaker_state now b))"
  by (simp add: breaker_state_def check_and_update_state_def Let_def cas_state_def half_open_ops_def gauge_ops_def
      publish_gauge_metrics_def state_from_int_Open_iff)

lemma run_local:
  "p \<notin> {Load_State} \<union> range Swap_State \<Longrightarrow>
   run_ops now (p # ps) n s b =
     (case exec_op now p n s b of (new, n', s', b') \<Rightarrow> run_ops now (new @ ps) n' s' b')"
  by (simp add: Let_def split: prod.split)

declare run_ops.simps(2) [simp del]

lemma run_gauge_ops: "run_ops now (gauge_ops @ ps) n s b = run_ops now ps n s (publish_gauge_metrics b)"
  by (simp add: gauge_ops_def publish_gauge_metrics_def run_local image_iff)

lemma run_failure:
  "run_ops now (failure_ops @ ps) n s b = run_ops now ps (consecutive_failures b + 1) s (record_failure now b)"
  by (simp add: failure_ops_def record_failure_def Let_def run_local run_swap image_iff split: circuit_state.split)

lemma run_success:
  "run_ops now (success_ops @ ps) n s b = run_ops now ps (consecutive_successes b + 1) s (record_success now b)"
  by (simp add: success_ops_def record_success_def Let_def run_local run_swap image_iff split: circuit_state.split)

lemmas run_calls = run_swap run_check run_gauge_ops run_failure run_success
  run_gauge_ops [where ps = "[]", simplified] run_failure [where ps = "[]", simplified]
  run_success [where ps = "[]", simplified]

text \<open>
  A call that no other thread comes between does exactly what the sequential model of the breaker
  says, in its fields and in what it publishes, and the state it has seen is the one \<open>state()\<close> returns.
\<close>

lemma breaker_call_alone:
  "snd (run_ops now (call_ops c) n s b) = breaker_exec now c b
   \<and> fst (run_ops now (call_ops Can_Execute) n s b) = fst (breaker_state now b)"
proof -
  have "snd (run_ops now (call_ops c) n s b) = breaker_exec now c b"
    by (cases c) (auto simp: run_calls run_local image_iff record_outcome_def record_test_success_def
      record_test_failure_def is_half_open_def breaker_reset_def force_open_def can_execute_def breaker_stats_of_def
      split: prod.split circuit_state.split)
  then show ?thesis by (simp add: run_check)
qed

section \<open>Interleaved calls\<close>

record breaker_run =
  br_breaker :: breaker
  br_threads :: "breaker_thread list"
  br_now :: nat
  br_calls :: "breaker_call list"      \<comment> \<open>the calls made so far\<close>

definition run_start :: "nat \<Rightarrow> breaker_config \<Rightarrow> string \<Rightarrow> breaker_run" where
  "run_start now cfg label =
     \<lparr>br_breaker = with_config_and_label now cfg label, br_threads = [], br_now = now, br_calls = []\<rparr>"

definition thread_step :: "nat \<Rightarrow> breaker_thread \<Rightarrow> breaker \<Rightarrow> breaker_thread \<times> breaker" where
  "thread_step now t b =
     (case th_code t of
        [] \<Rightarrow> (t, b)
      | p # ps \<Rightarrow>
          (let r = exec_op now p (th_count t) (th_seen t) b
           in (\<lparr>th_code = fst r @ ps, th_count = fst (snd r), th_seen = fst (snd (snd r))\<rparr>, snd (snd (snd r)))))"

text \<open>A call may begin at any time, a thread makes its next access, the clock goes on.\<close>

inductive breaker_run_step :: "breaker_run \<Rightarrow> breaker_run \<Rightarrow> bool" where
  run_call: "breaker_run_step R (R\<lparr>br_threads := br_threads R @ [thread_of c], br_calls := br_calls R @ [c]\<rparr>)"
| run_op: "i < length (br_threads R) \<Longrightarrow> th_code (br_threads R ! i) = p # ps \<Longrightarrow>
     thread_step (br_now R) (br_threads R ! i) (br_breaker R) = (t, b) \<Longrightarrow>
     breaker_run_step R (R\<lparr>br_breaker := b, br_threads := (br_threads R)[i := t]\<rparr>)"
| run_tick: "br_now R \<le> now \<Longrightarrow> breaker_run_step R (R\<lparr>br_now := now\<rparr>)"

definition at_rest :: "breaker_run \<Rightarrow> bool" where
  "at_rest R \<longleftrightarrow> (\<forall>t \<in> set (br_threads R). th_code t = [])"

fun call_fails :: "breaker_call \<Rightarrow> bool" where
  "call_fails Record_Failure = True"
| "call_fails (Record_Outcome ok) = (\<not> ok)"
| "call_fails c = False"

fun call_succeeds :: "breaker_call \<Rightarrow> bool" where
  "call_succeeds Record_Success = True"
| "call_succeeds (Record_Outcome ok) = ok"
| "call_succeeds c = False"

fun call_tests :: "breaker_call \<Rightarrow> bool" where
  "call_tests Record_Test_Success = True"
| "call_tests Record_Test_Failure = True"
| "call_tests c = False"

section \<open>No outcome is lost\<close>

definition pending :: "breaker_op \<Rightarrow> breaker_thread list \<Rightarrow> nat" where
  "pending p ts = sum_list (map (\<lambda>t. count_list (th_code t) p) ts)"

definition number_of :: "(breaker_call \<Rightarrow> bool) \<Rightarrow> breaker_call list \<Rightarrow> nat" where
  "number_of P cs = length (filter P cs)"

lemma thread_of_code [simp]: "th_code (thread_of c) = call_ops c"
  by (simp add: thread_of_def)

lemma pending_append [simp]: "pending p (ts @ us) = pending p ts + pending p us"
  by (simp add: pending_def)

lemma pending_single [simp]: "pending p [t] = count_list (th_code t) p"
  by (simp add: pending_def)

lemma pending_update:
  assumes "i < length ts"
  shows "pending p (ts[i := t]) + count_list (th_code (ts ! i)) p = pending p ts + count_list (th_code t) p"
proof -
  have "count_list (th_code (ts ! i)) p \<le> sum_list (map (\<lambda>t. count_list (th_code t) p) ts)"
    using assms by (intro member_le_sum_list) auto
  with assms show ?thesis by (simp add: pending_def map_update sum_list_update)
qed

lemma all_threads_update: "\<forall>t \<in> set ts. P t \<Longrightarrow> P u \<Longrightarrow> \<forall>t \<in> set (ts[i := u]). P t"
  using set_update_subset_insert [of ts i u] by blast

lemma pending_at_rest: "at_rest R \<Longrightarrow> pending p (br_threads R) = 0"
  by (simp add: pending_def at_rest_def cong: map_cong)

lemma number_of_append [simp]: "number_of P (cs @ [c]) = number_of P cs + (if P c then 1 else 0)"
  by (simp add: number_of_def)

lemma call_counts:
  "count_list (call_ops c) Add_Total_Failures = (if call_fails c then 1 else 0)"
  "count_list (call_ops c) Add_Total_Successes = (if call_succeeds c then 1 else 0)"
  "count_list (call_ops c) Add_Failures = (if call_fails c then 1 else 0)"
  by (cases c; simp add: call_code)+

definition testless :: "breaker_op list \<Rightarrow> bool" where
  "testless ps \<longleftrightarrow> Then_Success \<notin> set ps \<and> Then_Failure \<notin> set ps"

lemma exec_op_totals:
  assumes "testless [p]" "exec_op now p n s b = (new, n', s', b')"
  shows "testless new \<and> count_list new Add_Total_Failures = 0 \<and> count_list new Add_Total_Successes = 0
       \<and> total_failures b' = total_failures b + of_nat (count_list [p] Add_Total_Failures)
       \<and> total_successes b' = total_successes b + of_nat (count_list [p] Add_Total_Successes)"
  using assms by (cases p) (auto simp: testless_def Let_def call_code cas_state_def
      split: circuit_state.splits if_splits)

text \<open>The outcomes recorded and those whose access is still to come are the outcomes of the calls.\<close>

definition totals_inv :: "breaker_run \<Rightarrow> bool" where
  "totals_inv R \<longleftrightarrow>
     (\<forall>t \<in> set (br_threads R). testless (th_code t))
   \<and> total_failures (br_breaker R) + of_nat (pending Add_Total_Failures (br_threads R))
       = of_nat (number_of call_fails (br_calls R))
   \<and> total_successes (br_breaker R) + of_nat (pending Add_Total_Successes (br_threads R))
       = of_nat (number_of call_succeeds (br_calls R))"

lemma thread_step_op:
  assumes "thread_step now u b = (t, b')" "th_code u = p # ps"
  obtains new n s where "exec_op now p (th_count u) (th_seen u) b = (new, n, s, b')"
    "t = \<lparr>th_code = new @ ps, th_count = n, th_seen = s\<rparr>"
  using assms by (cases "exec_op now p (th_count u) (th_seen u) b") (auto simp: thread_step_def Let_def)

lemma totals_inv_step:
  assumes "breaker_run_step R R'" "totals_inv R" "\<forall>c \<in> set (br_calls R'). \<not> call_tests c"
  shows "totals_inv R'"
  using assms
proof (induction rule: breaker_run_step.induct)
  case (run_call R c)
  then have "testless (call_ops c)" by (cases c) (auto simp: testless_def call_code)
  with run_call show ?case by (auto simp: totals_inv_def call_counts simp flip: add.assoc)
next
  case (run_op i R p ps t b)
  let ?u = "br_threads R ! i"
  obtain new n s where e: "exec_op (br_now R) p (th_count ?u) (th_seen ?u) (br_breaker R) = (new, n, s, b)" "th_code t = new @ ps"
    by (rule thread_step_op [OF run_op.hyps(3,2)]) simp
  have "testless (p # ps)" using run_op.prems(1) run_op.hyps(1,2) by (metis nth_mem totals_inv_def)
  then have p: "testless [p]" "testless ps" by (auto simp: testless_def)
  note x = exec_op_totals [OF p(1) e(1)]
  have code: "testless (th_code t)" using x p(2) e(2) by (auto simp: testless_def)
  have move: "pending q ((br_threads R)[i := t]) + count_list [p] q = pending q (br_threads R)"
    if "count_list new q = 0" for q
    using pending_update [OF run_op.hyps(1), of q t] that e(2) run_op.hyps(2) by (simp split: if_splits)
  have keep: "v + of_nat (count_list [p] q) + of_nat (pending q ((br_threads R)[i := t])) = (w :: u64)"
    if "v + of_nat (pending q (br_threads R)) = w" "count_list new q = 0" for q v w
    using that(1) unfolding move [OF that(2), symmetric] of_nat_add by (simp add: ac_simps)
  from run_op.prems(1) code have "\<forall>t' \<in> set ((br_threads R)[i := t]). testless (th_code t')"
    unfolding totals_inv_def by (intro all_threads_update) simp_all
  moreover have "total_failures b + of_nat (pending Add_Total_Failures ((br_threads R)[i := t]))
      = of_nat (number_of call_fails (br_calls R))"
    unfolding x [THEN conjunct2, THEN conjunct2, THEN conjunct2, THEN conjunct1]
    by (rule keep) (use run_op.prems(1) x in \<open>simp_all add: totals_inv_def\<close>)
  moreover have "total_successes b + of_nat (pending Add_Total_Successes ((br_threads R)[i := t]))
      = of_nat (number_of call_succeeds (br_calls R))"
    unfolding x [THEN conjunct2, THEN conjunct2, THEN conjunct2, THEN conjunct2]
    by (rule keep) (use run_op.prems(1) x in \<open>simp_all add: totals_inv_def\<close>)
  ultimately show ?case by (simp add: totals_inv_def)
next
  case (run_tick R now)
  then show ?case by (simp add: totals_inv_def)
qed

section \<open>Failures that race still trip the breaker\<close>

text \<open>
  While only failures, checks and forced openings run and the state is still closed, a thread has one of
  these accesses left.
\<close>

definition failing_codes :: "breaker_op list list" where
  "failing_codes =
     map (\<lambda>k. drop k failure_ops) [0, 1, 2, 3, 4, 5] @ map (\<lambda>k. drop k (failure_ops @ gauge_ops)) [0, 1, 2, 3, 4, 5, 6]
     @ [[Load_State], [Swap_State Open], Swap_State Open # gauge_ops]"

text \<open>A thread that will open the breaker: it has counted up to the threshold, or it has decided.\<close>

definition armed :: "u32 \<Rightarrow> breaker_thread \<Rightarrow> bool" where
  "armed threshold t \<longleftrightarrow>
     Swap_State Open \<in> set (th_code t)
   \<or> (Decide_Failure \<in> set (th_code t) \<and> Add_Failures \<notin> set (th_code t) \<and> threshold \<le> th_count t)"

lemma failing_step:
  assumes "th_code u \<in> set failing_codes" "th_code u = p # ps" "cb_state b = STATE_CLOSED"
    and "thread_step now u b = (t, b')"
  shows "cb_state b' = STATE_OPEN
     \<or> (cb_state b' = STATE_CLOSED \<and> th_code t \<in> set failing_codes
      \<and> consecutive_failures b' + of_nat (count_list (th_code t) Add_Failures)
          = consecutive_failures b + of_nat (count_list (th_code u) Add_Failures)
      \<and> (armed (failure_threshold (config b)) u \<longrightarrow> armed (failure_threshold (config b)) t)
      \<and> (consecutive_failures b' = consecutive_failures b
         \<or> (failure_threshold (config b) \<le> consecutive_failures b' \<longrightarrow> armed (failure_threshold (config b)) t)))"
proof -
  obtain new n s where e: "exec_op now p (th_count u) (th_seen u) b = (new, n, s, b')"
    "t = \<lparr>th_code = new @ ps, th_count = n, th_seen = s\<rparr>"
    by (rule thread_step_op [OF assms(4,2)])
  have u: "p # ps \<in> set failing_codes" using assms(1,2) by simp
  show ?thesis
    using u e(1) assms(2,3) unfolding e(2) failing_codes_def
    by (auto simp: failure_ops_def gauge_ops_def armed_def split: if_splits)
qed

text \<open>No access of such a call closes the breaker.\<close>

definition never_closes :: "breaker_op list \<Rightarrow> bool" where
  "never_closes ps \<longleftrightarrow>
     Swap_State Closed \<notin> set ps \<and> Decide_Success \<notin> set ps \<and> Then_Success \<notin> set ps \<and> Then_Failure \<notin> set ps"

lemma exec_op_never_closes:
  assumes "never_closes [p]" "exec_op now p n s b = (new, n', s', b')"
    and "cb_state b \<in> {STATE_CLOSED, STATE_OPEN, STATE_HALF_OPEN}"
  shows "never_closes new \<and> cb_state b' \<in> {STATE_CLOSED, STATE_OPEN, STATE_HALF_OPEN} \<and> config b' = config b
       \<and> (cb_state b \<noteq> STATE_CLOSED \<longrightarrow> cb_state b' \<noteq> STATE_CLOSED)"
proof (cases p)
  case (Swap_State new_state)
  with assms show ?thesis
    by (cases new_state) (auto simp: never_closes_def Let_def call_code)
qed (use assms in \<open>auto simp: never_closes_def Let_def call_code cas_state_def split: circuit_state.splits if_splits\<close>)

fun can_close :: "breaker_call \<Rightarrow> bool" where
  "can_close Reset = True"
| "can_close c = (call_succeeds c \<or> call_tests c)"

definition trip_inv :: "breaker_run \<Rightarrow> bool" where
  "trip_inv R \<longleftrightarrow>
     cb_state (br_breaker R) \<in> {STATE_CLOSED, STATE_OPEN, STATE_HALF_OPEN}
   \<and> (\<forall>t \<in> set (br_threads R). never_closes (th_code t))
   \<and> (cb_state (br_breaker R) = STATE_CLOSED \<longrightarrow>
        (\<forall>t \<in> set (br_threads R). th_code t \<in> set failing_codes)
      \<and> consecutive_failures (br_breaker R) + of_nat (pending Add_Failures (br_threads R))
          = of_nat (number_of call_fails (br_calls R))
      \<and> (failure_threshold (config (br_breaker R)) \<le> consecutive_failures (br_breaker R) \<longrightarrow>
          failure_threshold (config (br_breaker R)) = 0
          \<or> (\<exists>t \<in> set (br_threads R). armed (failure_threshold (config (br_breaker R))) t)))"

lemma trip_inv_step:
  assumes "breaker_run_step R R'" "trip_inv R" "\<forall>c \<in> set (br_calls R'). \<not> can_close c"
  shows "trip_inv R' \<and> config (br_breaker R') = config (br_breaker R)"
  using assms
proof (induction rule: breaker_run_step.induct)
  case (run_call R c)
  then have c: "\<not> can_close c" by simp
  then have "never_closes (call_ops c)" "call_ops c \<in> set failing_codes"
    by (cases c; simp add: never_closes_def call_code failing_codes_def)+
  with run_call show ?case by (auto simp: trip_inv_def call_counts simp flip: add.assoc)
next
  case (run_op i R p ps t b)
  let ?u = "br_threads R ! i" and ?b = "br_breaker R" and ?ts = "(br_threads R)[i := t]"
  let ?thr = "failure_threshold (config (br_breaker R))"
  obtain new n s where e: "exec_op (br_now R) p (th_count ?u) (th_seen ?u) ?b = (new, n, s, b)" "th_code t = new @ ps"
    by (rule thread_step_op [OF run_op.hyps(3,2)]) simp
  have u: "?u \<in> set (br_threads R)" using run_op.hyps(1) by simp
  then have "never_closes (p # ps)" using run_op.prems(1) run_op.hyps(2) by (metis trip_inv_def)
  then have nc: "never_closes [p]" "never_closes ps" by (auto simp: never_closes_def)
  have st: "cb_state ?b \<in> {STATE_CLOSED, STATE_OPEN, STATE_HALF_OPEN}" using run_op.prems(1) by (simp add: trip_inv_def)
  note x = exec_op_never_closes [OF nc(1) e(1) st]
  have "never_closes (th_code t)" using x nc(2) e(2) by (auto simp: never_closes_def)
  then have codes: "\<forall>t \<in> set ?ts. never_closes (th_code t)"
    using run_op.prems(1) unfolding trip_inv_def by (intro all_threads_update) simp_all
  have "trip_inv (R\<lparr>br_breaker := b, br_threads := ?ts\<rparr>)" if closed: "cb_state b = STATE_CLOSED"
  proof -
    from closed x have was: "cb_state ?b = STATE_CLOSED" by blast
    with run_op.prems(1) have inv: "\<forall>t \<in> set (br_threads R). th_code t \<in> set failing_codes"
      "consecutive_failures ?b + of_nat (pending Add_Failures (br_threads R)) = of_nat (number_of call_fails (br_calls R))"
      "?thr \<le> consecutive_failures ?b \<Longrightarrow> ?thr = 0 \<or> (\<exists>t \<in> set (br_threads R). armed ?thr t)"
      by (simp_all add: trip_inv_def)
    from failing_step [OF _ run_op.hyps(2) was run_op.hyps(3)] inv(1) u closed have f:
      "th_code t \<in> set failing_codes"
      "consecutive_failures b + of_nat (count_list (th_code t) Add_Failures)
         = consecutive_failures ?b + of_nat (count_list (th_code ?u) Add_Failures)"
      "armed ?thr ?u \<Longrightarrow> armed ?thr t"
      "consecutive_failures b = consecutive_failures ?b \<or> (?thr \<le> consecutive_failures b \<longrightarrow> armed ?thr t)"
      by (auto simp: state_consts)
    have "\<forall>t \<in> set ?ts. th_code t \<in> set failing_codes" using inv(1) f(1) by (intro all_threads_update)
    moreover have "consecutive_failures b + of_nat (pending Add_Failures ?ts) = of_nat (number_of call_fails (br_calls R))"
    proof -
      have "(of_nat (pending Add_Failures ?ts) + of_nat (count_list (th_code ?u) Add_Failures) :: u32)
          = of_nat (pending Add_Failures (br_threads R)) + of_nat (count_list (th_code t) Add_Failures)"
        using arg_cong [OF pending_update [OF run_op.hyps(1), of Add_Failures t], of of_nat] by (simp only: of_nat_add)
      then have "(of_nat (pending Add_Failures ?ts) :: u32) = of_nat (pending Add_Failures (br_threads R))
          + of_nat (count_list (th_code t) Add_Failures) - of_nat (count_list (th_code ?u) Add_Failures)"
        by (simp only: eq_diff_eq)
      moreover from f(2) have "consecutive_failures b = consecutive_failures ?b
          + of_nat (count_list (th_code ?u) Add_Failures) - of_nat (count_list (th_code t) Add_Failures)"
        by (simp only: eq_diff_eq)
      ultimately show ?thesis using inv(2) by simp
    qed
    moreover have "?thr = 0 \<or> (\<exists>t \<in> set ?ts. armed ?thr t)" if over: "?thr \<le> consecutive_failures b"
    proof -
      have t: "t \<in> set ?ts" using run_op.hyps(1) by (rule set_update_memI)
      consider "armed ?thr t" | "?thr = 0" | v where "v \<in> set (br_threads R)" "armed ?thr v"
        using f(4) inv(3) over that by metis
      then show ?thesis
      proof cases
        case 3
        then obtain j where j: "j < length (br_threads R)" "br_threads R ! j = v" by (metis in_set_conv_nth)
        show ?thesis
        proof (cases "j = i")
          case True
          with 3 j f(3) t show ?thesis by blast
        next
          case False
          with j have "?ts ! j = v" "j < length ?ts" by simp_all
          with 3 show ?thesis by (metis nth_mem)
        qed
      qed (use t in blast)+
    qed
    ultimately show ?thesis using x codes st closed by (simp add: trip_inv_def)
  qed
  moreover have "trip_inv (R\<lparr>br_breaker := b, br_threads := ?ts\<rparr>)" if "cb_state b \<noteq> STATE_CLOSED"
    using that x codes by (simp add: trip_inv_def)
  ultimately show ?case using x by auto
next
  case (run_tick R now)
  then show ?case by (simp add: trip_inv_def)
qed

lemma calls_grow: "breaker_run_step R R' \<Longrightarrow> set (br_calls R) \<subseteq> set (br_calls R')"
  by (induction rule: breaker_run_step.induct) auto

lemma run_totals:
  "breaker_run_step\<^sup>*\<^sup>* (run_start now cfg label) R \<Longrightarrow> \<forall>c \<in> set (br_calls R). \<not> call_tests c \<Longrightarrow> totals_inv R"
proof (induction rule: rtranclp_induct)
  case base
  then show ?case by (simp add: totals_inv_def run_start_def pending_def number_of_def with_config_and_label_def)
next
  case (step R R')
  then show ?case using totals_inv_step calls_grow by blast
qed

lemma run_trips:
  "breaker_run_step\<^sup>*\<^sup>* (run_start now cfg label) R \<Longrightarrow> \<forall>c \<in> set (br_calls R). \<not> can_close c \<Longrightarrow>
     trip_inv R \<and> config (br_breaker R) = cfg"
proof (induction rule: rtranclp_induct)
  case base
  then show ?case
    by (simp add: trip_inv_def run_start_def pending_def number_of_def with_config_and_label_def)
next
  case (step R R')
  then show ?case using trip_inv_step [of R R'] calls_grow by (metis subsetD)
qed

text \<open>
  C22. Whatever way the accesses of concurrent calls interleave, no outcome is lost: once every call has
  ended the totals are the numbers of failed and successful calls; and racing failures cannot slip past
  the threshold: when at least \<open>failure_threshold\<close> calls failed and none could close the breaker, it is not
  closed.
\<close>

theorem breaker_races_counted:
  assumes "breaker_run_step\<^sup>*\<^sup>* (run_start now cfg label) R" "at_rest R" "\<forall>c \<in> set (br_calls R). \<not> call_tests c"
  shows "total_failures (br_breaker R) = of_nat (number_of call_fails (br_calls R))
       \<and> total_successes (br_breaker R) = of_nat (number_of call_succeeds (br_calls R))
       \<and> ((\<forall>c \<in> set (br_calls R). \<not> can_close c) \<and> 0 < failure_threshold cfg
            \<and> unat (failure_threshold cfg) \<le> number_of call_fails (br_calls R)
            \<and> number_of call_fails (br_calls R) < 2 ^ 32
          \<longrightarrow> state_from_int (cb_state (br_breaker R)) \<noteq> Closed)"
proof -
  note totals = run_totals [OF assms(1,3), unfolded totals_inv_def]
  have "state_from_int (cb_state (br_breaker R)) \<noteq> Closed"
    if calls: "\<forall>c \<in> set (br_calls R). \<not> can_close c" and thr: "0 < failure_threshold cfg"
      "unat (failure_threshold cfg) \<le> number_of call_fails (br_calls R)" "number_of call_fails (br_calls R) < 2 ^ 32"
  proof
    assume "state_from_int (cb_state (br_breaker R)) = Closed"
    moreover note inv = run_trips [OF assms(1) calls]
    ultimately have closed: "cb_state (br_breaker R) = STATE_CLOSED" by (auto simp: trip_inv_def)
    with inv have "consecutive_failures (br_breaker R) = of_nat (number_of call_fails (br_calls R))"
      by (simp add: trip_inv_def pending_at_rest [OF assms(2)])
    with thr have "failure_threshold cfg \<le> consecutive_failures (br_breaker R)"
      by (simp add: word_le_nat_alt unsigned_of_nat take_bit_nat_eq_self)
    with inv closed thr(1) obtain t where "t \<in> set (br_threads R)" "armed (failure_threshold cfg) t"
      by (auto simp: trip_inv_def)
    with assms(2) show False by (auto simp: at_rest_def armed_def)
  qed
  with totals show ?thesis by (simp add: pending_at_rest [OF assms(2)])
qed

section \<open>Runs by a schedule\<close>

lemma two_not_le_one [simp]: "\<not> (2 :: u32) \<le> 1"
  by (simp add: word_le_nat_alt)

datatype schedule_event = Begin breaker_call | Access nat | Tick nat

fun schedule_step :: "schedule_event \<Rightarrow> breaker_run \<Rightarrow> breaker_run" where
  "schedule_step (Begin c) R = R\<lparr>br_threads := br_threads R @ [thread_of c], br_calls := br_calls R @ [c]\<rparr>"
| "schedule_step (Access i) R =
     (if i < length (br_threads R) \<and> th_code (br_threads R ! i) \<noteq> []
      then (case thread_step (br_now R) (br_threads R ! i) (br_breaker R) of
              (t, b) \<Rightarrow> R\<lparr>br_breaker := b, br_threads := (br_threads R)[i := t]\<rparr>)
      else R)"
| "schedule_step (Tick now) R = (if br_now R \<le> now then R\<lparr>br_now := now\<rparr> else R)"

fun run_schedule :: "schedule_event list \<Rightarrow> breaker_run \<Rightarrow> breaker_run" where
  "run_schedule [] R = R"
| "run_schedule (e # es) R = run_schedule es (schedule_step e R)"

lemma schedule_step_reachable: "breaker_run_step\<^sup>*\<^sup>* R (schedule_step e R)"
proof (cases e)
  case (Access i)
  then show ?thesis
    by (cases "th_code (br_threads R ! i)"; cases "thread_step (br_now R) (br_threads R ! i) (br_breaker R)")
      (auto intro: run_op)
qed (auto intro: run_call run_tick)

lemma schedule_reachable: "breaker_run_step\<^sup>*\<^sup>* R (run_schedule es R)"
  by (induction es arbitrary: R) (auto intro: rtranclp_trans schedule_step_reachable)

definition quick_config :: breaker_config where
  "quick_config = \<lparr>failure_threshold = 2, success_threshold = 1, timeout_duration = 1000, window_duration = 60000\<rparr>"

text \<open>Two failures whose accesses alternate.\<close>

definition racing_failures :: "schedule_event list" where
  "racing_failures =
     [Begin Record_Failure, Begin Record_Failure, Access 0, Access 1, Access 0, Access 1, Access 0, Access 1,
      Access 0, Access 1, Access 0, Access 1] @ [Access 1, Access 1, Access 1, Access 1, Access 1, Access 1, Access 1, Access 1] @ [Access 0, Access 0, Access 0, Access 0, Access 0, Access 0, Access 0, Access 0]"

lemma breaker_races_counted_witness:
  "state_from_int (cb_state (br_breaker (run_schedule racing_failures (run_start 7 quick_config ''w'')))) \<noteq> Closed
   \<and> total_failures (br_breaker (run_schedule racing_failures (run_start 7 quick_config ''w''))) = 2"
proof -
  let ?R = "run_schedule racing_failures (run_start 7 quick_config ''w'')"
  have rest: "at_rest ?R" "br_calls ?R = [Record_Failure, Record_Failure]"
    by (simp_all add: at_rest_def racing_failures_def run_start_def with_config_and_label_def
        quick_config_def thread_of_def failure_ops_def thread_step_def Let_def numeral_2_eq_2 numeral_3_eq_3 changed_ops_def
        gauge_ops_def state_consts state_from_int_def)
  from breaker_races_counted [OF schedule_reachable rest(1)] show ?thesis
    unfolding rest(2) by (simp add: number_of_def quick_config_def)
qed

section \<open>What a race can do\<close>

text \<open>
  \<open>transition_to\<close> publishes the open state before it notes the time, so a check in between measures the
  timeout from the previous change: the breaker that has just opened admits a request at once.  Run
  alone, in either order, the check after the failures answers no.
\<close>

definition early_probe :: "schedule_event list" where
  "early_probe =
     [Tick 5000, Begin Record_Failure] @ [Access 0, Access 0, Access 0, Access 0, Access 0]
     @ [Begin Record_Failure] @ [Access 1, Access 1, Access 1, Access 1, Access 1, Access 1] @ [Begin Can_Execute] @ [Access 2, Access 2, Access 2]"

lemma open_breaker_probed_at_once:
  "let R = run_schedule early_probe (run_start 0 quick_config ''w'')
   in br_now R = 5000 \<and> cb_state (br_breaker R) = STATE_HALF_OPEN \<and> th_seen (br_threads R ! 2) = HalfOpen"
  "\<not> fst (can_execute 5000 (record_failure 5000 (record_failure 5000 (with_config_and_label 0 quick_config ''w''))))"
  by (simp_all add: early_probe_def run_start_def with_config_and_label_def
        quick_config_def thread_of_def failure_ops_def thread_step_def Let_def numeral_2_eq_2 numeral_3_eq_3 changed_ops_def
        gauge_ops_def state_consts state_from_int_def cas_state_def breaker_defs)

text \<open>
  A success that has decided to close a half-open breaker still does so after a failed probe has opened
  it: an open breaker closes without its timeout.
\<close>

definition late_close :: "schedule_event list" where
  "late_close =
     [Begin Force_Open] @ [Access 0, Access 0, Access 0, Access 0, Access 0, Access 0, Access 0] @ [Tick 2000, Begin Can_Execute] @ [Access 1, Access 1, Access 1, Access 1, Access 1, Access 1, Access 1, Access 1, Access 1, Access 1]
     @ [Begin Record_Success] @ [Access 2, Access 2, Access 2, Access 2]
     @ [Begin Record_Failure] @ [Access 3, Access 3, Access 3, Access 3, Access 3, Access 3, Access 3, Access 3, Access 3, Access 3, Access 3, Access 3]"

lemma late_success_closes_open_breaker:
  "let R = run_schedule late_close (run_start 0 quick_config ''w'')
   in cb_state (br_breaker R) = STATE_OPEN \<and> th_code (br_threads R ! 3) = []
    \<and> cb_state (br_breaker (schedule_step (Access 2) R)) = STATE_CLOSED"
  by (simp add: late_close_def run_start_def with_config_and_label_def
        quick_config_def thread_of_def failure_ops_def success_ops_def thread_step_def Let_def numeral_2_eq_2 numeral_3_eq_3
        changed_ops_def half_open_ops_def gauge_ops_def state_consts state_from_int_def cas_state_def)

end
