(* ===== verification/Node.thy ===== *)
theory Node
  imports Circuit_Breaker_Spec
begin

text \<open>
  The data of an upstream: provider, runtime and protocol enumerations with their text forms,
  nodes, bindings (\<^verbatim>\<open>core/src/upstream/node.rs\<close>), the routing parameters of
  \<^verbatim>\<open>core/src/upstream/routing.rs\<close> and the model card of
  \<^verbatim>\<open>core/src/model.rs\<close>.  A binding is a record; the objects an \<open>Arc\<close> shares are
  addressed by their index in the list that owns them (see \<open>Upstream_Group\<close>).  The
  \<open>healthy\<close> flag of a node is a Boolean of the binding: no code outside the tests calls
  \<open>set_healthy\<close>.
\<close>

section \<open>Enumerations and their text forms\<close>

datatype provider_type = Aliyun | Volcengine | OpenAi | Anthropic | Baidu | Cohere | Unknown

fun provider_type_str :: "provider_type \<Rightarrow> string" where
  "provider_type_str Aliyun = ''aliyun''"
| "provider_type_str Volcengine = ''volcengine''"
| "provider_type_str OpenAi = ''openai''"
| "provider_type_str Anthropic = ''anthropic''"
| "provider_type_str Baidu = ''baidu''"
| "provider_type_str Cohere = ''cohere''"
| "provider_type_str Unknown = ''unknown''"

definition provider_type_from_str :: "string \<Rightarrow> provider_type result" where
  "provider_type_from_str s =
     (let l = ascii_lower s in
      if l = ''aliyun'' then Inr Aliyun
      else if l = ''volcengine'' then Inr Volcengine
      else if l = ''openai'' then Inr OpenAi
      else if l = ''anthropic'' then Inr Anthropic
      else if l = ''baidu'' then Inr Baidu
      else if l = ''cohere'' then Inr Cohere
      else if l = ''unknown'' then Inr Unknown
      else Inl (''Unknown provider type: '' @ l))"

datatype runtime_type = Sglang | Vllm | External

fun runtime_type_str :: "runtime_type \<Rightarrow> string" where
  "runtime_type_str Sglang = ''sglang''"
| "runtime_type_str Vllm = ''vllm''"
| "runtime_type_str External = ''external''"

definition runtime_type_from_str :: "string \<Rightarrow> runtime_type result" where
  "runtime_type_from_str s =
     (if eq_ignore_ascii_case s ''sglang'' then Inr Sglang
      else if eq_ignore_ascii_case s ''vllm'' then Inr Vllm
      else if eq_ignore_ascii_case s ''external'' then Inr External
      else Inl (''Unknown runtime type: '' @ s))"

datatype api_compatibility = OpenAiApi | AnthropicApi | NativeApi

fun api_compatibility_str :: "api_compatibility \<Rightarrow> string" where
  "api_compatibility_str OpenAiApi = ''openai''"
| "api_compatibility_str AnthropicApi = ''anthropic''"
| "api_compatibility_str NativeApi = ''native''"

definition api_compatibility_from_str :: "string \<Rightarrow> api_compatibility result" where
  "api_compatibility_from_str s =
     (if eq_ignore_ascii_case s ''openai'' then Inr OpenAiApi
      else if eq_ignore_ascii_case s ''anthropic'' then Inr AnthropicApi
      else if eq_ignore_ascii_case s ''native'' then Inr NativeApi
      else Inl (''Unknown API compatibility: '' @ s))"

section \<open>Routing parameters\<close>

datatype routing_strategy = Swrr | WeightedHash

fun routing_strategy_debug :: "routing_strategy \<Rightarrow> string" where
  "routing_strategy_debug Swrr = ''Swrr''"
| "routing_strategy_debug WeightedHash = ''WeightedHash''"

datatype routing_strategy_config = SwrrConfig u8 | WeightedHashConfig u8

fun rsc_strategy :: "routing_strategy_config \<Rightarrow> routing_strategy" where
  "rsc_strategy (SwrrConfig w) = Swrr"
| "rsc_strategy (WeightedHashConfig w) = WeightedHash"

fun rsc_weight :: "routing_strategy_config \<Rightarrow> u8" where
  "rsc_weight (SwrrConfig w) = w"
| "rsc_weight (WeightedHashConfig w) = w"

definition rsc_validate :: "routing_strategy_config \<Rightarrow> unit result" where
  "rsc_validate c =
     (if rsc_weight c = 0
      then Inl (routing_strategy_debug (rsc_strategy c) @ '' upstream weight must be greater than 0'')
      else Inr ())"

section \<open>Models\<close>

record model_card =
  model_id :: string
  aliases :: "string list"

definition model_card_new :: "string \<Rightarrow> model_card" where
  "model_card_new i = \<lparr>model_id = i, aliases = []\<rparr>"

definition with_alias :: "model_card \<Rightarrow> string \<Rightarrow> model_card" where
  "with_alias m a = m\<lparr>aliases := aliases m @ [a]\<rparr>"

definition with_aliases :: "model_card \<Rightarrow> string list \<Rightarrow> model_card" where
  "with_aliases m as = m\<lparr>aliases := aliases m @ as\<rparr>"

definition model_matches :: "model_card \<Rightarrow> string \<Rightarrow> bool" where
  "model_matches m i \<longleftrightarrow> model_id m = i \<or> i \<in> set (aliases m)"

section \<open>Nodes and bindings\<close>

record upstream_credential =
  cred_name :: string
  cred_api_key :: "string option"
  cred_provider_type :: provider_type

record upstream_profile =
  profile_base_url :: string
  profile_provider_node_id :: string
  profile_api_compatibility :: api_compatibility
  profile_runtime_type :: runtime_type
  profile_credential :: upstream_credential
  profile_upstream_model_name :: "string option"

record upstream_node =
  profile :: upstream_profile
  healthy :: bool

definition default_profile :: upstream_profile where
  "default_profile =
     \<lparr>profile_base_url = ''http://localhost:8000/v1'', profile_provider_node_id = '''',
      profile_api_compatibility = OpenAiApi, profile_runtime_type = External,
      profile_credential = \<lparr>cred_name = ''default'', cred_api_key = None, cred_provider_type = Unknown\<rparr>,
      profile_upstream_model_name = None\<rparr>"

definition default_node :: upstream_node where
  "default_node = \<lparr>profile = default_profile, healthy = True\<rparr>"

record binding =
  node :: upstream_node
  enabled :: bool
  priority :: u8
  strategy_config :: routing_strategy_config
  circuit_breaker :: breaker
  current_weight :: int  \<comment> \<open>an \<open>AtomicI64\<close>: always in the range of \<open>i64\<close>\<close>

definition binding_clone :: "binding \<Rightarrow> binding" where
  "binding_clone b =
     \<lparr>node = node b, enabled = enabled b, priority = priority b,
      strategy_config = strategy_config b, circuit_breaker = breaker_clone (circuit_breaker b),
      current_weight = 0\<rparr>"

definition binding_new ::
    "nat \<Rightarrow> upstream_node \<Rightarrow> bool \<Rightarrow> routing_strategy_config \<Rightarrow> u8 \<Rightarrow> binding result" where
  "binding_new now nd en cfg prio =
     rbind (rsc_validate cfg)
       (\<lambda>_. Inr \<lparr>node = nd, enabled = en, priority = prio, strategy_config = cfg,
                 circuit_breaker = breaker_new now, current_weight = 0\<rparr>)"

abbreviation base_url :: "binding \<Rightarrow> string" where
  "base_url b \<equiv> profile_base_url (profile (node b))"

abbreviation upstream_api_key :: "binding \<Rightarrow> string option" where
  "upstream_api_key b \<equiv> cred_api_key (profile_credential (profile (node b)))"

abbreviation runtime_type_of :: "binding \<Rightarrow> runtime_type" where
  "runtime_type_of b \<equiv> profile_runtime_type (profile (node b))"

abbreviation provider_type_of :: "binding \<Rightarrow> provider_type" where
  "provider_type_of b \<equiv> cred_provider_type (profile_credential (profile (node b)))"

abbreviation api_compatibility_of :: "binding \<Rightarrow> api_compatibility" where
  "api_compatibility_of b \<equiv> profile_api_compatibility (profile (node b))"

abbreviation provider_id :: "binding \<Rightarrow> string" where
  "provider_id b \<equiv> cred_name (profile_credential (profile (node b)))"

abbreviation provider_node_id :: "binding \<Rightarrow> string" where
  "provider_node_id b \<equiv> profile_provider_node_id (profile (node b))"

abbreviation upstream_model_name :: "binding \<Rightarrow> string option" where
  "upstream_model_name b \<equiv> profile_upstream_model_name (profile (node b))"

abbreviation binding_weight :: "binding \<Rightarrow> u8" where
  "binding_weight b \<equiv> rsc_weight (strategy_config b)"

text \<open>
  \<open>is_available\<close> looks at the breaker last, and only when the binding is enabled and healthy:
  the look itself may move an open breaker to half open.
\<close>

definition is_available :: "nat \<Rightarrow> binding \<Rightarrow> bool \<times> binding" where
  "is_available now b =
     (if enabled b \<and> healthy (node b)
      then (case can_execute now (circuit_breaker b) of
              (ok, cb) \<Rightarrow> (ok, b\<lparr>circuit_breaker := cb\<rparr>))
      else (False, b))"

definition binding_record_outcome :: "nat \<Rightarrow> bool \<Rightarrow> binding \<Rightarrow> binding" where
  "binding_record_outcome now ok b =
     b\<lparr>circuit_breaker := record_outcome now ok (circuit_breaker b)\<rparr>"

section \<open>Text forms read back\<close>

lemma provider_type_from_to_str: "provider_type_from_str (provider_type_str p) = Inr p"
  by (cases p) (simp_all add: provider_type_from_str_def ascii_lower_def ascii_lower_char_def)

lemma runtime_type_from_to_str: "runtime_type_from_str (runtime_type_str r) = Inr r"
  by (cases r) (simp_all add: runtime_type_from_str_def eq_ignore_ascii_case_def ascii_lower_def
      ascii_lower_char_def)

lemma api_compatibility_from_to_str: "api_compatibility_from_str (api_compatibility_str a) = Inr a"
  by (cases a) (simp_all add: api_compatibility_from_str_def eq_ignore_ascii_case_def ascii_lower_def
      ascii_lower_char_def)

lemma api_compatibility_str_inject [simp]:
  "api_compatibility_str a = api_compatibility_str b \<longleftrightarrow> a = b"
  by (metis api_compatibility_from_to_str sum.inject(2))

section \<open>Frame properties of the availability check\<close>

lemma is_available_frame [frame_simps, simp]:
  "node (snd (is_available now b)) = node b"
  "enabled (snd (is_available now b)) = enabled b"
  "priority (snd (is_available now b)) = priority b"
  "strategy_config (snd (is_available now b)) = strategy_config b"
  "current_weight (snd (is_available now b)) = current_weight b"
  by (simp_all add: is_available_def split: prod.split)

lemma is_available_fst:
  "fst (is_available now b) \<longleftrightarrow>
     enabled b \<and> healthy (node b) \<and> fst (can_execute now (circuit_breaker b))"
  by (auto simp add: is_available_def split: prod.split)

lemma is_available_breaker:
  "circuit_breaker (snd (is_available now b)) =
     (if enabled b \<and> healthy (node b) then snd (can_execute now (circuit_breaker b))
      else circuit_breaker b)"
  by (simp add: is_available_def split: prod.split)

lemma binding_new_eq_Inr_iff:
  "binding_new now nd en cfg prio = Inr b \<longleftrightarrow>
     rsc_weight cfg \<noteq> 0
   \<and> b = \<lparr>node = nd, enabled = en, priority = prio, strategy_config = cfg,
           circuit_breaker = breaker_new now, current_weight = 0\<rparr>"
  by (auto simp: binding_new_def rsc_validate_def)

end
