(* ===== verification/Routing.thy ===== *)
theory Routing
  imports Node
begin

text \<open>
  The selection algorithms of \<^verbatim>\<open>core/src/upstream/routing.rs\<close>.  The candidates are
  references to bindings of one group: here a list of indices into the group's list of bindings,
  which \<open>select_swrr\<close> updates in place.  The mutex that serialises the selections of a group
  makes one selection one step.  The BLAKE3 hash and the floating-point operations of the weighted
  hash are parameters (\<open>hash_ops\<close>); what is used of them is named where it is used.
\<close>

section \<open>Smooth weighted round robin\<close>

text \<open>Two's complement reading of an \<open>i64\<close> result.\<close>

definition wrap_i64 :: "int \<Rightarrow> int" where
  "wrap_i64 x = (x + 2 ^ 63) mod 2 ^ 64 - 2 ^ 63"

definition I64_MIN :: int where
  "I64_MIN = - (2 ^ 63)"

definition weight_i64 :: "binding \<Rightarrow> int" where
  "weight_i64 b = uint (binding_weight b)"

definition add_weight :: "int \<Rightarrow> nat \<Rightarrow> binding list \<Rightarrow> binding list" where
  "add_weight d i bs = bs[i := (bs ! i)\<lparr>current_weight := wrap_i64 (current_weight (bs ! i) + d)\<rparr>]"

definition best_candidate :: "int list \<Rightarrow> nat" where
  "best_candidate cws =
     fst (foldl (\<lambda>(best_idx, best_cw) (i, cw). if best_cw < cw then (i, cw) else (best_idx, best_cw))
            (0, I64_MIN) (List.enumerate 0 cws))"

definition select_swrr :: "nat list \<Rightarrow> binding list \<Rightarrow> nat option \<times> binding list" where
  "select_swrr candidates bs =
     (if candidates = [] then (None, bs)
      else
        (let total_weight = sum_list (map (\<lambda>c. weight_i64 (bs ! c)) candidates);
             bs1 = fold (\<lambda>c bs'. add_weight (weight_i64 (bs' ! c)) c bs') candidates bs;
             best = best_candidate (map (\<lambda>c. current_weight (bs1 ! c)) candidates);
             winner = candidates ! best
         in (Some winner, add_weight (- total_weight) winner bs1)))"

section \<open>Weighted hash\<close>

datatype cmp_ordering = Less | Equal | Greater

record 'f hash_ops =
  blake3 :: "string \<Rightarrow> u8 list"           \<comment> \<open>the 32 bytes of the digest\<close>
  f_of_u64 :: "u64 \<Rightarrow> 'f"
  f_of_u8 :: "u8 \<Rightarrow> 'f"
  f_one :: 'f
  f_add :: "'f \<Rightarrow> 'f \<Rightarrow> 'f"
  f_div :: "'f \<Rightarrow> 'f \<Rightarrow> 'f"
  f_ln :: "'f \<Rightarrow> 'f"
  f_neg :: "'f \<Rightarrow> 'f"
  f_partial_cmp :: "'f \<Rightarrow> 'f \<Rightarrow> cmp_ordering option"

text \<open>\<open>u64::from_le_bytes\<close>.\<close>

fun u64_from_le_bytes :: "u8 list \<Rightarrow> u64" where
  "u64_from_le_bytes [] = 0"
| "u64_from_le_bytes (b # bs) = ucast b + 256 * u64_from_le_bytes bs"

definition weighted_hash_score :: "'f hash_ops \<Rightarrow> string \<Rightarrow> string \<Rightarrow> u8 \<Rightarrow> 'f" where
  "weighted_hash_score ops routing_key upstream_identity weight =
     (let hash = blake3 ops (routing_key @ '':'' @ upstream_identity);
          raw = u64_from_le_bytes (take 8 hash);
          uniform = f_div ops (f_add ops (f_of_u64 ops raw) (f_one ops))
                      (f_add ops (f_of_u64 ops (- 1)) (f_one ops))
      in f_div ops (f_neg ops (f_ln ops uniform)) (f_of_u8 ops weight))"

text \<open>\<open>Iterator::min_by\<close>: the later element wins only when the comparison says \<open>Greater\<close>.\<close>

definition min_by :: "('a \<Rightarrow> 'a \<Rightarrow> cmp_ordering) \<Rightarrow> 'a list \<Rightarrow> 'a option" where
  "min_by cmp xs =
     (case xs of [] \<Rightarrow> None
      | y # ys \<Rightarrow> Some (foldl (\<lambda>x z. if cmp x z = Greater then z else x) y ys))"

definition select_weighted_hash ::
    "'f hash_ops \<Rightarrow> nat list \<Rightarrow> string option \<Rightarrow> string \<Rightarrow> u64 \<Rightarrow> binding list \<Rightarrow> nat option \<times> u64" where
  "select_weighted_hash ops candidates routing_key mid cursor bs =
     (if candidates = [] then (None, cursor)
      else
        (let (computed_key, cursor') =
               (case routing_key of
                  Some k \<Rightarrow> (k, cursor)
                | None \<Rightarrow> (mid @ '':'' @ show_nat (unat cursor), cursor + 1));
             scored = map (\<lambda>c. (c, weighted_hash_score ops computed_key (base_url (bs ! c))
                                     (binding_weight (bs ! c)))) candidates
         in (map_option fst
               (min_by (\<lambda>(_, a) (_, b).
                    case f_partial_cmp ops a b of Some c \<Rightarrow> c | None \<Rightarrow> Equal) scored),
             cursor')))"

section \<open>Facts about one selection\<close>

lemma wrap_i64_id [simp]: "- (2 ^ 63) \<le> x \<Longrightarrow> x < 2 ^ 63 \<Longrightarrow> wrap_i64 x = x"
  by (simp add: wrap_i64_def)

lemma wrap_i64_range: "- (2 ^ 63) \<le> wrap_i64 x \<and> wrap_i64 x < 2 ^ 63"
proof -
  have "0 \<le> (x + 2 ^ 63) mod 2 ^ 64" "(x + 2 ^ 63) mod 2 ^ 64 < (2 ^ 64 :: int)" by simp_all
  then show ?thesis by (simp add: wrap_i64_def)
qed

lemma best_scan_snoc:
  "foldl f z (List.enumerate n (xs @ [x])) = f (foldl f z (List.enumerate n xs)) (n + length xs, x)"
  by (simp add: enumerate_append_eq)

lemma best_scan:
  fixes xs :: "int list"
  defines "scan \<equiv> foldl (\<lambda>(best_idx, best_cw) (i, cw). if best_cw < cw then (i, cw) else (best_idx, best_cw))
            (0, I64_MIN) (List.enumerate 0 xs)"
  shows "I64_MIN \<le> snd scan
       \<and> (\<forall>j < length xs. xs ! j \<le> snd scan \<and> (j < fst scan \<longrightarrow> xs ! j < snd scan))
       \<and> (I64_MIN < snd scan \<longrightarrow> fst scan < length xs \<and> xs ! fst scan = snd scan)
       \<and> (snd scan = I64_MIN \<longrightarrow> fst scan = 0)"
  unfolding scan_def
proof (induction xs rule: rev_induct)
  case (snoc x xs)
  then show ?case
    by (simp only: best_scan_snoc)
       (auto simp: nth_append less_Suc_eq split: prod.splits; fastforce)
qed simp

lemma best_candidate_spec:
  assumes "xs \<noteq> []" "\<forall>x \<in> set xs. I64_MIN \<le> x"
  shows "best_candidate xs < length xs"
    and "j < length xs \<Longrightarrow> xs ! j \<le> xs ! best_candidate xs"
    and "j < best_candidate xs \<Longrightarrow> xs ! j < xs ! best_candidate xs"
proof -
  define r where "r = foldl (\<lambda>(best_idx, best_cw) (i, cw). if best_cw < cw then (i, cw) else (best_idx, best_cw))
            (0, I64_MIN) (List.enumerate 0 xs)"
  have b: "best_candidate xs = fst r" by (simp add: best_candidate_def r_def)
  note s = best_scan [of xs, folded r_def]
  have pos: "fst r < length xs \<and> xs ! fst r = snd r"
  proof (cases "I64_MIN < snd r")
    case False
    then have "snd r = I64_MIN" "fst r = 0" using s by auto
    moreover have "xs ! 0 \<le> snd r" using s assms(1) by auto
    moreover have "I64_MIN \<le> xs ! 0" using assms by (cases xs) auto
    ultimately show ?thesis using assms(1) by auto
  qed (use s in auto)
  show "best_candidate xs < length xs"
    and "j < length xs \<Longrightarrow> xs ! j \<le> xs ! best_candidate xs"
    and "j < best_candidate xs \<Longrightarrow> xs ! j < xs ! best_candidate xs"
    using pos s by (auto simp: b)
qed

lemma add_weight_length [simp]: "length (add_weight d i bs) = length bs"
  by (simp add: add_weight_def)

lemma add_weight_nth:
  "j < length bs \<Longrightarrow> add_weight d i bs ! j =
     (if j = i then (bs ! j)\<lparr>current_weight := wrap_i64 (current_weight (bs ! j) + d)\<rparr> else bs ! j)"
  by (auto simp: add_weight_def nth_list_update)

lemma fold_add_weight_length [simp]:
  "length (fold (\<lambda>c bs'. add_weight (g (bs' ! c)) c bs') cs bs) = length bs"
  by (induction cs arbitrary: bs) simp_all

lemma fold_add_weight_nth:
  "distinct cs \<Longrightarrow> j < length bs \<Longrightarrow>
     fold (\<lambda>c bs'. add_weight (weight_i64 (bs' ! c)) c bs') cs bs ! j =
       (if j \<in> set cs
        then (bs ! j)\<lparr>current_weight := wrap_i64 (current_weight (bs ! j) + weight_i64 (bs ! j))\<rparr>
        else bs ! j)"
  by (induction cs arbitrary: bs) (auto simp: add_weight_nth weight_i64_def)

text \<open>The current weight and the weight of every binding of a group, as functions of the index.\<close>

definition cw_at :: "binding list \<Rightarrow> nat \<Rightarrow> int" where
  "cw_at bs i = current_weight (bs ! i)"

definition w_at :: "binding list \<Rightarrow> nat \<Rightarrow> int" where
  "w_at bs i = weight_i64 (bs ! i)"

lemma w_at_bounds: "0 \<le> w_at bs i" "w_at bs i \<le> 255"
proof -
  have "uint (binding_weight (bs ! i)) < 2 ^ LENGTH(8)" by (rule unsigned_less)
  then show "0 \<le> w_at bs i" "w_at bs i \<le> 255" by (simp_all add: w_at_def weight_i64_def)
qed

text \<open>
  Candidates are distinct references into the group, and no running weight is near the ends of
  \<open>i64\<close>.
\<close>

definition swrr_ok :: "nat list \<Rightarrow> binding list \<Rightarrow> bool" where
  "swrr_ok cs bs \<longleftrightarrow>
     distinct cs \<and> set cs \<subseteq> {..<length bs} \<and> length cs \<le> 2 ^ 20
   \<and> (\<forall>c \<in> set cs. \<bar>cw_at bs c\<bar> < 2 ^ 62)"

lemma total_weight_bounds:
  "0 \<le> sum_list (map (w_at bs) cs)" "sum_list (map (w_at bs) cs) \<le> 255 * int (length cs)"
proof -
  show "0 \<le> sum_list (map (w_at bs) cs)" by (rule sum_list_nonneg) (auto simp: w_at_bounds)
  show "sum_list (map (w_at bs) cs) \<le> 255 * int (length cs)"
    by (induction cs) (use w_at_bounds(2) in \<open>auto simp: algebra_simps intro: add_mono\<close>)
qed

lemma select_swrr_spec:
  assumes ok: "swrr_ok cs bs" and ne: "cs \<noteq> []"
  obtains w bs' where "select_swrr cs bs = (Some w, bs')" "w \<in> set cs" "length bs' = length bs"
    and "\<And>c. c \<in> set cs \<Longrightarrow> cw_at bs c + w_at bs c \<le> cw_at bs w + w_at bs w"
    and "\<And>i. i < length bs \<Longrightarrow> bs' ! i = (bs ! i)\<lparr>current_weight :=
           cw_at bs i + (if i \<in> set cs then w_at bs i else 0)
             - (if i = w then sum_list (map (w_at bs) cs) else 0)\<rparr>"
proof -
  let ?W = "sum_list (map (w_at bs) cs)"
  define bs1 where "bs1 = fold (\<lambda>c bs'. add_weight (weight_i64 (bs' ! c)) c bs') cs bs"
  define w where "w = cs ! best_candidate (map (\<lambda>c. current_weight (bs1 ! c)) cs)"
  let ?bs' = "add_weight (- ?W) w bs1"
  have W: "?W = sum_list (map (\<lambda>c. weight_i64 (bs ! c)) cs)" by (simp add: w_at_def [abs_def])
  have sel: "select_swrr cs bs = (Some w, ?bs')"
    using ne by (simp add: select_swrr_def Let_def W bs1_def w_def)
  have dist: "distinct cs" and sub: "set cs \<subseteq> {..<length bs}" using ok by (auto simp: swrr_ok_def)
  have len1: "length bs1 = length bs" by (simp add: bs1_def)
  have small: "\<bar>cw_at bs c\<bar> < 2 ^ 62" if "c \<in> set cs" for c using ok that by (auto simp: swrr_ok_def)
  have cw1: "bs1 ! i = (bs ! i)\<lparr>current_weight := cw_at bs i + (if i \<in> set cs then w_at bs i else 0)\<rparr>"
    if "i < length bs" for i
    using small [of i] w_at_bounds [of bs i] fold_add_weight_nth [OF dist that] that
    by (auto simp: bs1_def cw_at_def w_at_def)
  have low: "\<forall>x \<in> set (map (\<lambda>c. current_weight (bs1 ! c)) cs). I64_MIN \<le> x"
  proof
    fix x assume "x \<in> set (map (\<lambda>c. current_weight (bs1 ! c)) cs)"
    then obtain c where "c \<in> set cs" "x = current_weight (bs1 ! c)" by auto
    then show "I64_MIN \<le> x" using sub small [of c] w_at_bounds(1) [of bs c]
      by (auto simp: I64_MIN_def cw1 subset_iff)
  qed
  have idx: "best_candidate (map (\<lambda>c. current_weight (bs1 ! c)) cs) < length cs"
    and max: "\<And>j. j < length cs \<Longrightarrow> current_weight (bs1 ! (cs ! j)) \<le> current_weight (bs1 ! w)"
    using best_candidate_spec(1,2) [OF _ low] ne by (auto simp: w_def)
  have win: "w \<in> set cs" using idx by (simp add: w_def)
  have Wb: "0 \<le> ?W" "?W \<le> 255 * 2 ^ 20"
    using total_weight_bounds [of bs cs] ok by (auto simp: swrr_ok_def)
  have fin: "?bs' ! i = (bs ! i)\<lparr>current_weight := cw_at bs i + (if i \<in> set cs then w_at bs i else 0)
             - (if i = w then ?W else 0)\<rparr>" if "i < length bs" for i
  proof -
    have "wrap_i64 (cw_at bs w + w_at bs w - ?W) = cw_at bs w + w_at bs w - ?W"
      using small [OF win] w_at_bounds [of bs w] Wb by (intro wrap_i64_id) auto
    with that win show ?thesis by (simp add: add_weight_nth len1 cw1)
  qed
  have best: "cw_at bs c + w_at bs c \<le> cw_at bs w + w_at bs w" if "c \<in> set cs" for c
  proof -
    obtain j where j: "j < length cs" "cs ! j = c" using \<open>c \<in> set cs\<close> unfolding in_set_conv_nth by blast
    have "c < length bs" "w < length bs" using that win sub by auto
    with max [OF j(1)] j(2) that win show ?thesis by (simp add: cw1)
  qed
  show ?thesis by (rule that [OF sel win _ best fin]) (simp_all add: len1)
qed

end
