(* ===== verification/Routing_Fairness.thy ===== *)
theory Routing_Fairness
  imports Routing
begin

text \<open>
  What the two selection algorithms promise.  Smooth weighted round robin over a fixed set of
  candidates: running weights stay within bounds, so no \<open>i64\<close> ever wraps, and every window of
  \<open>W\<close> consecutive selections (\<open>W\<close> the total weight) picks each candidate exactly as often as
  its weight says.  Weighted hash: the choice is a candidate of least score, the same key gives
  the same choice, and removing other candidates does not move it.
\<close>

section \<open>Runs of selections over fixed candidates\<close>

fun swrr_run :: "nat \<Rightarrow> nat list \<Rightarrow> binding list \<Rightarrow> nat list \<times> binding list" where
  "swrr_run 0 cs bs = ([], bs)"
| "swrr_run (Suc n) cs bs =
     (case select_swrr cs bs of
        (None, bs') \<Rightarrow> ([], bs')
      | (Some w, bs') \<Rightarrow> (case swrr_run n cs bs' of (ps, bs'') \<Rightarrow> (w # ps, bs'')))"

definition total_weight :: "nat list \<Rightarrow> binding list \<Rightarrow> int" where
  "total_weight cs bs = sum_list (map (w_at bs) cs)"

text \<open>The candidates' running weights add up to zero and none is a whole round behind.\<close>

definition swrr_inv :: "nat list \<Rightarrow> binding list \<Rightarrow> bool" where
  "swrr_inv cs bs \<longleftrightarrow>
     distinct cs \<and> set cs \<subseteq> {..<length bs} \<and> length cs \<le> 2 ^ 20 \<and> 0 < total_weight cs bs
   \<and> (\<Sum>c \<in> set cs. cw_at bs c) = 0
   \<and> (\<forall>c \<in> set cs. - total_weight cs bs < cw_at bs c)"

lemma total_weight_set: "distinct cs \<Longrightarrow> total_weight cs bs = (\<Sum>c \<in> set cs. w_at bs c)"
  by (simp add: total_weight_def sum_list_distinct_conv_sum_set)

lemma total_weight_le: "total_weight cs bs \<le> 255 * int (length cs)"
  unfolding total_weight_def by (rule total_weight_bounds)

text \<open>Each running weight is also less than \<open>length cs\<close> rounds ahead.\<close>

lemma swrr_inv_upper:
  assumes "swrr_inv cs bs" "c \<in> set cs"
  shows "cw_at bs c < int (length cs) * total_weight cs bs"
proof -
  let ?W = "total_weight cs bs"
  have "(\<Sum>d \<in> set cs. cw_at bs d) = cw_at bs c + (\<Sum>d \<in> set cs - {c}. cw_at bs d)"
    using assms(2) by (simp add: sum.remove)
  moreover have "(\<Sum>d \<in> set cs - {c}. - ?W) \<le> (\<Sum>d \<in> set cs - {c}. cw_at bs d)"
    using assms by (intro sum_mono) (auto simp: swrr_inv_def intro: less_imp_le)
  moreover have "card (set cs - {c}) = length cs - 1" "length cs \<noteq> 0"
    using assms by (auto simp: swrr_inv_def distinct_card)
  ultimately have "cw_at bs c \<le> (int (length cs) - 1) * ?W"
    using assms(1) by (simp add: swrr_inv_def)
  also have "\<dots> < int (length cs) * ?W"
    using assms(1) by (simp add: swrr_inv_def algebra_simps)
  finally show ?thesis .
qed

lemma swrr_inv_ok: "swrr_inv cs bs \<Longrightarrow> swrr_ok cs bs"
proof -
  assume inv: "swrr_inv cs bs"
  let ?W = "total_weight cs bs"
  have len: "int (length cs) \<le> 2 ^ 20" and Wpos: "0 < ?W" using inv by (auto simp: swrr_inv_def)
  have W: "?W \<le> 255 * 2 ^ 20" using total_weight_le [of cs bs] len by simp
  have "int (length cs) * ?W \<le> 2 ^ 20 * (255 * 2 ^ 20)"
    using len W Wpos by (intro mult_mono) auto
  then have "\<bar>cw_at bs c\<bar> < 2 ^ 62" if "c \<in> set cs" for c
    using swrr_inv_upper [OF inv that] inv W that by (force simp: swrr_inv_def)
  then show ?thesis using inv by (simp add: swrr_inv_def swrr_ok_def)
qed

lemma swrr_inv_nonempty: "swrr_inv cs bs \<Longrightarrow> cs \<noteq> []"
  by (auto simp: swrr_inv_def total_weight_def)

lemma swrr_inv_initial:
  assumes "distinct cs" "set cs \<subseteq> {..<length bs}" "length cs \<le> 2 ^ 20" "0 < total_weight cs bs"
    and "\<forall>c \<in> set cs. cw_at bs c = 0"
  shows "swrr_inv cs bs"
  using assms by (simp add: swrr_inv_def)

text \<open>One selection adds each weight and takes the total from the winner.\<close>

lemma select_swrr_inv:
  assumes inv: "swrr_inv cs bs"
  obtains w bs' where "select_swrr cs bs = (Some w, bs')" "w \<in> set cs" "length bs' = length bs"
    and "swrr_inv cs bs'" "total_weight cs bs' = total_weight cs bs"
    and "\<And>i. i < length bs \<Longrightarrow> bs' ! i = (bs ! i)\<lparr>current_weight :=
           cw_at bs i + (if i \<in> set cs then w_at bs i else 0)
             - (if i = w then total_weight cs bs else 0)\<rparr>"
proof -
  let ?W = "total_weight cs bs"
  have dist: "distinct cs" and sub: "set cs \<subseteq> {..<length bs}" and sum0: "(\<Sum>c \<in> set cs. cw_at bs c) = 0"
    and lo: "\<And>c. c \<in> set cs \<Longrightarrow> - ?W < cw_at bs c" and pos: "0 < ?W"
    using inv by (auto simp: swrr_inv_def)
  obtain w bs' where sel: "select_swrr cs bs = (Some w, bs')" "w \<in> set cs" "length bs' = length bs"
    and max: "\<And>c. c \<in> set cs \<Longrightarrow> cw_at bs c + w_at bs c \<le> cw_at bs w + w_at bs w"
    and nth: "\<And>i. i < length bs \<Longrightarrow> bs' ! i = (bs ! i)\<lparr>current_weight :=
           cw_at bs i + (if i \<in> set cs then w_at bs i else 0) - (if i = w then ?W else 0)\<rparr>"
    using select_swrr_spec [OF swrr_inv_ok [OF inv] swrr_inv_nonempty [OF inv]]
    unfolding total_weight_def by metis
  have cw: "cw_at bs' c = cw_at bs c + w_at bs c - (if c = w then ?W else 0)" if "c \<in> set cs" for c
    using that sub nth [of c] by (auto simp: cw_at_def [of bs'])
  have w: "w_at bs' c = w_at bs c" if "c \<in> set cs" for c
    using that sub nth [of c] by (auto simp: w_at_def weight_i64_def)
  have W: "total_weight cs bs' = ?W" using w by (simp add: total_weight_def cong: map_cong)
  have all: "(\<Sum>c \<in> set cs. cw_at bs c + w_at bs c) = ?W"
    using sum0 by (simp add: sum.distrib total_weight_set [OF dist])
  have "0 < cw_at bs w + w_at bs w"
  proof (rule ccontr)
    assume "\<not> ?thesis"
    with max have "cw_at bs c + w_at bs c \<le> 0" if "c \<in> set cs" for c using that by force
    then have "(\<Sum>c \<in> set cs. cw_at bs c + w_at bs c) \<le> 0" by (intro sum_nonpos) simp
    with all pos show False by simp
  qed
  then have lo': "- ?W < cw_at bs' c" if "c \<in> set cs" for c
    using that lo [OF that] w_at_bounds(1) [of bs c] by (simp add: cw)
  have "(\<Sum>c \<in> set cs. cw_at bs' c) = (\<Sum>c \<in> set cs. cw_at bs c + w_at bs c) - (\<Sum>c \<in> set cs. if c = w then ?W else 0)"
    by (simp add: cw sum_subtractf)
  also have "\<dots> = 0" using all sel(2) by simp
  finally have "swrr_inv cs bs'"
    using inv lo' by (simp add: swrr_inv_def W sel(3))
  from that [OF sel this W nth] show ?thesis .
qed

lemma swrr_run_length: "swrr_inv cs bs \<Longrightarrow> length (fst (swrr_run n cs bs)) = n"
proof (induction n arbitrary: bs)
  case (Suc n)
  from Suc.prems obtain w bs' where "select_swrr cs bs = (Some w, bs')" "swrr_inv cs bs'"
    by (rule select_swrr_inv)
  with Suc.IH [of bs'] show ?case by (auto split: prod.split)
qed simp

lemma swrr_run_add:
  "swrr_run (m + n) cs bs =
     (fst (swrr_run m cs bs) @ fst (swrr_run n cs (snd (swrr_run m cs bs))),
      snd (swrr_run n cs (snd (swrr_run m cs bs))))"
proof (induction m arbitrary: bs)
  case (Suc m)
  show ?case
  proof (cases "cs = []")
    case True
    then have "swrr_run k [] b = ([], b)" for k b by (cases k) (simp_all add: select_swrr_def)
    with True show ?thesis by simp
  next
    case False
    then obtain w bs' where "select_swrr cs bs = (Some w, bs')" by (simp add: select_swrr_def Let_def)
    with Suc show ?thesis by (simp split: prod.split)
  qed
qed simp

text \<open>The state after a run, in closed form.\<close>

lemma swrr_run_spec:
  assumes "swrr_inv cs bs" "swrr_run n cs bs = (ps, bs')"
  shows "swrr_inv cs bs' \<and> total_weight cs bs' = total_weight cs bs \<and> length bs' = length bs
       \<and> set ps \<subseteq> set cs
       \<and> (\<forall>i < length bs. bs' ! i = (bs ! i)\<lparr>current_weight :=
            cw_at bs i + (if i \<in> set cs then int n * w_at bs i - total_weight cs bs * int (count_list ps i)
                          else 0)\<rparr>)"
  using assms
proof (induction n arbitrary: bs ps)
  case (Suc n)
  obtain w bs1 where sel: "select_swrr cs bs = (Some w, bs1)" "w \<in> set cs" "length bs1 = length bs"
    and inv1: "swrr_inv cs bs1" and W1: "total_weight cs bs1 = total_weight cs bs"
    and nth: "\<And>i. i < length bs \<Longrightarrow> bs1 ! i = (bs ! i)\<lparr>current_weight :=
           cw_at bs i + (if i \<in> set cs then w_at bs i else 0)
             - (if i = w then total_weight cs bs else 0)\<rparr>"
    using select_swrr_inv [OF Suc.prems(1)] by metis
  obtain qs where run: "swrr_run n cs bs1 = (qs, bs')" and ps: "ps = w # qs"
    using Suc.prems(2) sel(1) by (auto split: prod.splits)
  have w1: "w_at bs1 i = w_at bs i" if "i < length bs" for i
    using nth [OF that] by (simp add: w_at_def weight_i64_def)
  have c1: "cw_at bs1 i = cw_at bs i + (if i \<in> set cs then w_at bs i else 0)
             - (if i = w then total_weight cs bs else 0)" if "i < length bs" for i
    using nth [OF that] by (simp add: cw_at_def [of bs1])
  from Suc.IH [OF inv1 run] sel(2,3) show ?case
    by (auto simp: W1 w1 c1 nth ps algebra_simps)
qed (auto simp: cw_at_def)

lemma swrr_round:
  assumes inv: "swrr_inv cs bs" and zero: "\<forall>c \<in> set cs. cw_at bs c = 0"
    and run: "swrr_run (nat (total_weight cs bs)) cs bs = (ps, bs')"
  shows "bs' = bs" and "c \<in> set cs \<Longrightarrow> int (count_list ps c) = w_at bs c"
proof -
  let ?W = "total_weight cs bs"
  have dist: "distinct cs" and pos: "0 < ?W" and sub: "set cs \<subseteq> {..<length bs}"
    using inv by (auto simp: swrr_inv_def)
  note spec = swrr_run_spec [OF inv run]
  have cw: "cw_at bs' c = ?W * (w_at bs c - int (count_list ps c))" if "c \<in> set cs" for c
    using spec that sub zero pos by (auto simp: cw_at_def [of bs'] algebra_simps)
  have le: "int (count_list ps c) \<le> w_at bs c" if "c \<in> set cs" for c
  proof -
    have "- ?W < ?W * (w_at bs c - int (count_list ps c))"
      using spec that by (auto simp: swrr_inv_def cw)
    then have "?W * (- 1) < ?W * (w_at bs c - int (count_list ps c))" by simp
    with pos show ?thesis by (simp only: mult_less_cancel_left_pos)
  qed
  have "length ps = nat ?W" using swrr_run_length [OF inv, of "nat ?W"] run by simp
  moreover have "(\<Sum>c \<in> set cs. count_list ps c) = length ps"
    using spec by (intro sum_count_set) auto
  ultimately have "(\<Sum>c \<in> set cs. int (count_list ps c)) = ?W"
    using pos by (metis int_nat_eq of_nat_sum order_less_imp_le of_nat_eq_iff)
  then have "(\<Sum>c \<in> set cs. w_at bs c - int (count_list ps c)) = 0"
    by (simp add: sum_subtractf total_weight_set [OF dist])
  then have eq: "int (count_list ps c) = w_at bs c" if "c \<in> set cs" for c
    using that le by (subst (asm) sum_nonneg_eq_0_iff) auto
  then show "c \<in> set cs \<Longrightarrow> int (count_list ps c) = w_at bs c" .
  show "bs' = bs"
  proof (rule nth_equalityI)
    fix i assume "i < length bs'"
    with spec eq pos show "bs' ! i = bs ! i" by (auto simp: cw_at_def)
  qed (use spec in simp)
qed

section \<open>First minimum\<close>

definition cmp_by :: "('a \<Rightarrow> int) \<Rightarrow> 'a \<Rightarrow> 'a \<Rightarrow> cmp_ordering" where
  "cmp_by r x y = (if r x < r y then Less else if r x = r y then Equal else Greater)"

lemma cmp_by_Greater [simp]: "cmp_by r x y = Greater \<longleftrightarrow> r y < r x"
  by (auto simp: cmp_by_def)

lemma foldl_choice_in: "foldl (\<lambda>x z. if P x z then z else x) y xs \<in> set (y # xs)"
  by (induction xs arbitrary: y) (auto split: if_splits)

lemma foldl_keep: "\<forall>z \<in> set zs. \<not> P x z \<Longrightarrow> foldl (\<lambda>x z. if P x z then z else x) x zs = x"
  by (induction zs) auto

lemma min_by_first:
  assumes "xs = ys @ x # zs" "\<forall>a \<in> set xs. \<forall>b \<in> set xs. cmp a b = cmp_by r a b"
    and "\<forall>y \<in> set ys. r x < r y" "\<forall>z \<in> set zs. r x \<le> r z"
  shows "min_by cmp xs = Some x"
proof (cases ys)
  case Nil
  then show ?thesis using assms by (auto simp: min_by_def intro!: foldl_keep)
next
  case (Cons y ys')
  let ?f = "\<lambda>x z. if cmp x z = Greater then z else x"
  let ?e = "foldl ?f y ys'"
  have "?e \<in> set ys" using foldl_choice_in [of "\<lambda>x z. cmp x z = Greater"] Cons by simp
  then have "cmp ?e x = Greater" using assms by simp
  then have "min_by cmp xs = Some (foldl ?f x zs)" by (simp add: min_by_def assms(1) Cons)
  also have "foldl ?f x zs = x" using assms by (intro foldl_keep) auto
  finally show ?thesis .
qed

lemma min_by_split:
  assumes "xs \<noteq> []" "\<forall>a \<in> set xs. \<forall>b \<in> set xs. cmp a b = cmp_by r a b"
  obtains ys x zs where "xs = ys @ x # zs" "min_by cmp xs = Some x"
    and "\<forall>y \<in> set ys. r x < r y" "\<forall>z \<in> set zs. r x \<le> r z"
proof -
  define m where "m = Min (r ` set xs)"
  have "m \<in> r ` set xs" using assms(1) by (simp add: m_def)
  then have "\<exists>x \<in> set xs. r x = m" by auto
  then obtain ys x zs where s: "xs = ys @ x # zs" "r x = m" "\<forall>y \<in> set ys. r y \<noteq> m"
    by (rule split_list_first_propE)
  have "m \<le> r y" if "y \<in> set xs" for y using that by (simp add: m_def)
  with s have "\<forall>y \<in> set ys. r x < r y" "\<forall>z \<in> set zs. r x \<le> r z" by fastforce+
  with that min_by_first [OF s(1) assms(2)] s(1) show ?thesis by blast
qed

section \<open>Weighted hash\<close>

abbreviation hash_score :: "'f hash_ops \<Rightarrow> string \<Rightarrow> binding list \<Rightarrow> nat \<Rightarrow> 'f" where
  "hash_score ops k bs c \<equiv> weighted_hash_score ops k (base_url (bs ! c)) (binding_weight (bs ! c))"

text \<open>
  What is used of \<open>partial_cmp\<close>: on the scores of the candidates it is the comparison of a linear
  order (no score is NaN), given by the position \<open>r\<close> of each score in that order.
\<close>

definition scores_ordered ::
    "'f hash_ops \<Rightarrow> ('f \<Rightarrow> int) \<Rightarrow> string \<Rightarrow> nat list \<Rightarrow> binding list \<Rightarrow> bool" where
  "scores_ordered ops r k cs bs \<longleftrightarrow>
     (\<forall>c \<in> set cs. \<forall>d \<in> set cs. f_partial_cmp ops (hash_score ops k bs c) (hash_score ops k bs d)
        = Some (cmp_by r (hash_score ops k bs c) (hash_score ops k bs d)))"

lemma min_by_map_pair:
  "map_option fst (min_by (\<lambda>(_, a) (_, b). g a b) (map (\<lambda>c. (c, f c)) cs))
     = min_by (\<lambda>c d. g (f c) (f d)) cs"
proof (cases cs)
  case (Cons c cs')
  have "foldl (\<lambda>x z. if g (snd x) (snd z) = Greater then z else x)
          (d, f d) (map (\<lambda>c. (c, f c)) ds)
        = (\<lambda>e. (e, f e)) (foldl (\<lambda>x z. if g (f x) (f z) = Greater then z else x) d ds)" for d ds
    by (induction ds arbitrary: d) auto
  then show ?thesis by (simp add: min_by_def Cons split_def)
qed (simp add: min_by_def)

lemma select_weighted_hash_key:
  "cs \<noteq> [] \<Longrightarrow> select_weighted_hash ops cs (Some k) mid cur bs =
     (min_by (\<lambda>c d. case f_partial_cmp ops (hash_score ops k bs c) (hash_score ops k bs d)
                      of Some x \<Rightarrow> x | None \<Rightarrow> Equal) cs, cur)"
  by (simp add: select_weighted_hash_def
      min_by_map_pair [where g = "\<lambda>a b. case f_partial_cmp ops a b of Some x \<Rightarrow> x | None \<Rightarrow> Equal"])

lemma scores_ordered_min_by:
  assumes "scores_ordered ops r k cs bs" "cs \<noteq> []"
  obtains ys w zs where "cs = ys @ w # zs"
    and "\<forall>y \<in> set ys. r (hash_score ops k bs w) < r (hash_score ops k bs y)"
    and "\<forall>z \<in> set zs. r (hash_score ops k bs w) \<le> r (hash_score ops k bs z)"
    and "select_weighted_hash ops cs (Some k) mid cur bs = (Some w, cur)"
proof -
  have ord: "\<forall>c \<in> set cs. \<forall>d \<in> set cs.
      (case f_partial_cmp ops (hash_score ops k bs c) (hash_score ops k bs d)
         of Some x \<Rightarrow> x | None \<Rightarrow> Equal) = cmp_by (\<lambda>c. r (hash_score ops k bs c)) c d"
    using assms(1) by (auto simp: scores_ordered_def cmp_by_def)
  show ?thesis
  proof (rule min_by_split [OF assms(2) ord])
    fix ys w zs
    assume s: "cs = ys @ w # zs"
      and m: "min_by (\<lambda>c d. case f_partial_cmp ops (hash_score ops k bs c) (hash_score ops k bs d)
         of Some x \<Rightarrow> x | None \<Rightarrow> Equal) cs = Some w"
      and lo: "\<forall>y \<in> set ys. r (hash_score ops k bs w) < r (hash_score ops k bs y)"
      and le: "\<forall>z \<in> set zs. r (hash_score ops k bs w) \<le> r (hash_score ops k bs z)"
    show ?thesis
      by (rule that [OF s lo le]) (simp only: select_weighted_hash_key [OF assms(2)] m)
  qed
qed

section \<open>Properties\<close>

text \<open>Concrete data for the examples: a binding, and hash operations on integers.\<close>

definition example_binding :: "string \<Rightarrow> u8 \<Rightarrow> binding" where
  "example_binding url w =
     \<lparr>node = default_node\<lparr>profile := default_profile\<lparr>profile_base_url := url\<rparr>\<rparr>,
      enabled = True, priority = 0, strategy_config = SwrrConfig w,
      circuit_breaker = breaker_new 0, current_weight = 0\<rparr>"

lemma example_binding_simps [simp]:
  "current_weight (example_binding url w) = 0"
  "strategy_config (example_binding url w) = SwrrConfig w"
  "base_url (example_binding url w) = url"
  by (simp_all add: example_binding_def)

lemma u64_from_zero_bytes: "u64_from_le_bytes (replicate n 0) = 0"
  by (induction n) simp_all

definition example_hash_ops :: "int hash_ops" where
  "example_hash_ops =
     \<lparr>blake3 = (\<lambda>s. word_of_nat (length s) # replicate 31 0), f_of_u64 = uint, f_of_u8 = uint,
      f_one = 1, f_add = (+), f_div = (\<lambda>a b. a), f_ln = (\<lambda>a. - a), f_neg = uminus,
      f_partial_cmp = (\<lambda>a b. Some (cmp_by id a b))\<rparr>"

text \<open>
  C15. Smooth weighted round robin is exactly fair: from a fresh group, with fixed candidates, every
  window of \<open>W\<close> consecutive selections (\<open>W\<close> the total weight), wherever it starts, picks each
  candidate as many times as its weight.
\<close>

theorem swrr_fair_window:
  assumes "distinct cs" "set cs \<subseteq> {..<length bs}" "length cs \<le> 2 ^ 20" "0 < total_weight cs bs"
    and "\<forall>c \<in> set cs. current_weight (bs ! c) = 0"
    and "c \<in> set cs"
  shows "count_list (drop m (fst (swrr_run (m + nat (total_weight cs bs)) cs bs))) c
           = unat (binding_weight (bs ! c))"
proof -
  let ?W = "nat (total_weight cs bs)"
  have inv: "swrr_inv cs bs" using assms by (intro swrr_inv_initial) (auto simp: cw_at_def)
  have zero: "\<forall>c \<in> set cs. cw_at bs c = 0" using assms(5) by (simp add: cw_at_def)
  let ?round = "fst (swrr_run ?W cs bs)" and ?pre = "fst (swrr_run m cs bs)"
  let ?window = "fst (swrr_run ?W cs (snd (swrr_run m cs bs)))"
  have round: "snd (swrr_run ?W cs bs) = bs" "int (count_list ?round c) = w_at bs c"
    using swrr_round(1) [OF inv zero prod.collapse [symmetric]]
      swrr_round(2) [OF inv zero prod.collapse [symmetric] assms(6)] by simp_all
  have "?round @ ?pre = ?pre @ ?window"
    using swrr_run_add [of ?W m cs bs] swrr_run_add [of m ?W cs bs] round(1) by (simp add: add.commute)
  then have "count_list (?round @ ?pre) c = count_list (?pre @ ?window) c" by simp
  then have "count_list ?window c = count_list ?round c" by simp
  moreover have "drop m (fst (swrr_run (m + ?W) cs bs)) = ?window"
    using swrr_run_length [OF inv, of m] by (simp add: swrr_run_add)
  ultimately show ?thesis using round(2) by (simp add: w_at_def weight_i64_def) (metis nat_int unat_eq_nat_uint)
qed

lemma swrr_fair_window_witness:
  "count_list (drop 2 (fst (swrr_run 5 [0, 1] [example_binding ''a'' 2, example_binding ''b'' 1]))) 0 = 2"
proof -
  let ?bs = "[example_binding ''a'' 2, example_binding ''b'' 1]"
  have W: "total_weight [0, 1] ?bs = 3"
    by (simp add: total_weight_def w_at_def weight_i64_def)
  have "count_list (drop 2 (fst (swrr_run (2 + nat (total_weight [0, 1] ?bs)) [0, 1] ?bs))) 0
      = unat (binding_weight (?bs ! 0))"
    by (rule swrr_fair_window) (simp_all add: W [simplified] less_Suc_eq)
  then show ?thesis unfolding W by simp
qed

text \<open>
  C31. The running weights stay bounded, so the \<open>i64\<close> arithmetic never wraps: after any number of
  selections from a fresh group of at most \<open>2^20\<close> candidates, each running weight is exactly what the
  picks so far add up to; it stays above minus the total weight and below \<open>length cs\<close> times the total
  weight (it can exceed the total weight itself), so below \<open>2^48\<close>, as a weight is a \<open>u8\<close>; the weights add
  up to zero, and every selection picks a candidate.
\<close>

theorem swrr_bounded:
  assumes "distinct cs" "set cs \<subseteq> {..<length bs}" "length cs \<le> 2 ^ 20" "0 < total_weight cs bs"
    and "\<forall>c \<in> set cs. current_weight (bs ! c) = 0"
    and "swrr_run n cs bs = (picks, bs')"
  shows "length picks = n \<and> set picks \<subseteq> set cs
       \<and> (\<Sum>c \<in> set cs. current_weight (bs' ! c)) = 0
       \<and> (\<forall>c \<in> set cs. current_weight (bs' ! c)
              = int n * weight_i64 (bs ! c) - total_weight cs bs * int (count_list picks c)
            \<and> - total_weight cs bs < current_weight (bs' ! c)
            \<and> current_weight (bs' ! c) < int (length cs) * total_weight cs bs)"
proof -
  have inv: "swrr_inv cs bs" using assms by (intro swrr_inv_initial) (auto simp: cw_at_def)
  note s = swrr_run_spec [OF inv assms(6)]
  then have up: "\<forall>c \<in> set cs. cw_at bs' c < int (length cs) * total_weight cs bs"
    using swrr_inv_upper [of cs bs'] by simp
  show ?thesis
    using s up swrr_run_length [OF inv, of n] assms(2,5,6)
    by (auto simp: swrr_inv_def cw_at_def w_at_def subset_iff)
qed

lemma swrr_bounded_witness:
  "- 3 < current_weight (snd (swrr_run 1000 [0, 1] [example_binding ''a'' 2, example_binding ''b'' 1]) ! 0)
   \<and> - 3 < current_weight (snd (swrr_run 1000 [0, 1] [example_binding ''a'' 2, example_binding ''b'' 1]) ! 1)"
proof -
  let ?bs = "[example_binding ''a'' 2, example_binding ''b'' 1]"
  have W: "total_weight [0, 1] ?bs = 3"
    by (simp add: total_weight_def w_at_def weight_i64_def)
  have "\<forall>c \<in> set [0, 1]. - total_weight [0, 1] ?bs
      < current_weight (snd (swrr_run 1000 [0, 1] ?bs) ! c)"
    using swrr_bounded [of "[0, 1]" ?bs 1000, OF _ _ _ _ _ prod.collapse [symmetric]] W
    by (auto simp del: swrr_run.simps)
  then show ?thesis unfolding W by simp
qed

text \<open>
  C32. Weighted hash: for a given key the choice is a candidate of least score that depends on
  nothing but the key, the URLs and the weights; it leaves the cursor alone, and it stays the
  choice when other candidates disappear, whatever the state of the group then.
\<close>

theorem weighted_hash_minimal_disruption:
  assumes "scores_ordered ops r k cs bs" "cs \<noteq> []"
    and "select_weighted_hash ops cs (Some k) mid cur bs = (Some w, cur')"
    and "\<forall>c \<in> set cs. base_url (bs2 ! c) = base_url (bs ! c)
                     \<and> binding_weight (bs2 ! c) = binding_weight (bs ! c)"
    and "P w"
  shows "cur' = cur \<and> w \<in> set cs
       \<and> (\<forall>c \<in> set cs. r (hash_score ops k bs w) \<le> r (hash_score ops k bs c))
       \<and> select_weighted_hash ops (filter P cs) (Some k) mid2 cur2 bs2 = (Some w, cur2)"
proof -
  obtain ys w' zs where s: "cs = ys @ w' # zs"
    and lo: "\<forall>y \<in> set ys. r (hash_score ops k bs w') < r (hash_score ops k bs y)"
    and le: "\<forall>z \<in> set zs. r (hash_score ops k bs w') \<le> r (hash_score ops k bs z)"
    and sel: "select_weighted_hash ops cs (Some k) mid cur bs = (Some w', cur)"
    by (rule scores_ordered_min_by [OF assms(1,2)])
  from sel assms(3) have w: "w' = w" "cur' = cur" by simp_all
  let ?cmp = "\<lambda>c d. case f_partial_cmp ops (hash_score ops k bs2 c) (hash_score ops k bs2 d)
                      of Some x \<Rightarrow> x | None \<Rightarrow> Equal"
  have "min_by ?cmp (filter P cs) = Some w"
  proof (rule min_by_first [where r = "\<lambda>c. r (hash_score ops k bs c)"])
    show "filter P cs = filter P ys @ w # filter P zs" using s w assms(5) by simp
    show "\<forall>a \<in> set (filter P cs). \<forall>b \<in> set (filter P cs). ?cmp a b = cmp_by (\<lambda>c. r (hash_score ops k bs c)) a b"
      using assms(1,4) by (auto simp: scores_ordered_def cmp_by_def)
  qed (use lo le w in auto)
  moreover have "filter P cs \<noteq> []" using s w assms(5) by simp
  ultimately have "select_weighted_hash ops (filter P cs) (Some k) mid2 cur2 bs2 = (Some w, cur2)"
    by (simp add: select_weighted_hash_key)
  with s lo le w show ?thesis by (auto intro: less_imp_le)
qed

lemma weighted_hash_minimal_disruption_witness:
  "select_weighted_hash example_hash_ops (filter (\<lambda>c. c \<noteq> 0) [0, 1]) (Some ''k'') ''m'' 5
     [example_binding ''aaa'' 1, example_binding ''b'' 1] = (Some 1, 5)"
proof -
  let ?bs = "[example_binding ''aaa'' 1, example_binding ''b'' 1]"
  have o: "scores_ordered example_hash_ops id ''k'' [0, 1] ?bs"
    by (auto simp: scores_ordered_def example_hash_ops_def cmp_by_def)
  have s: "select_weighted_hash example_hash_ops [0, 1] (Some ''k'') ''m'' 0 ?bs = (Some 1, 0)"
    by (simp add: select_weighted_hash_key min_by_def weighted_hash_score_def example_hash_ops_def
        Let_def cmp_by_def u64_from_zero_bytes)
  show ?thesis
    using weighted_hash_minimal_disruption [OF o _ s, of ?bs "\<lambda>c. c \<noteq> 0" "''m''" 5] by simp
qed

end
