(* ===== verification/Upstream_Group.thy ===== *)
theory Upstream_Group
  imports Routing_Fairness
begin

text \<open>
  The model-scoped upstream group of \<^verbatim>\<open>core/src/upstream/node.rs\<close>: its constructors
  and the tiered selection.  A group owns its bindings (each \<open>Arc\<close> is made by \<open>UpstreamGroup::new\<close>),
  so an upstream handed to a caller is the index of a binding.  The selection is modelled with its
  effects: asking a binding whether it is available may move its breaker to half open, the round
  robin moves the running weights, and the weighted hash without a key advances the cursor.
\<close>

section \<open>The group\<close>

record upstream_group =
  model :: model_card
  strategy :: routing_strategy
  upstreams :: "binding list"
  key_rpm_limit :: "u32 option"
  key_tpm_limit :: "u32 option"
  model_rpm_limit :: "u32 option"
  model_tpm_limit :: "u32 option"
  primary_capacity_rpm :: "u32 option"
  primary_capacity_tpm :: "u32 option"
  hash_cursor :: u64

definition group_new :: "model_card \<Rightarrow> routing_strategy \<Rightarrow> binding list \<Rightarrow> upstream_group result" where
  "group_new m s bs =
     (if bs = [] then Inl (''upstream group '' @ quoted (model_id m) @ '' must contain at least one upstream'')
      else
        (case List.find (\<lambda>b. rsc_strategy (strategy_config b) \<noteq> s) bs of
           Some b \<Rightarrow>
             Inl (''upstream '' @ quoted (base_url b) @ '' uses ''
               @ routing_strategy_debug (rsc_strategy (strategy_config b))
               @ '' but model '' @ quoted (model_id m) @ '' is configured with '' @ routing_strategy_debug s)
         | None \<Rightarrow>
             Inr \<lparr>model = m, strategy = s, upstreams = bs, key_rpm_limit = None, key_tpm_limit = None,
                  model_rpm_limit = None, model_tpm_limit = None, primary_capacity_rpm = None,
                  primary_capacity_tpm = None, hash_cursor = 0\<rparr>))"

definition with_rate_limits ::
    "u32 option \<Rightarrow> u32 option \<Rightarrow> u32 option \<Rightarrow> u32 option \<Rightarrow> upstream_group \<Rightarrow> upstream_group" where
  "with_rate_limits key_rpm key_tpm model_rpm model_tpm g =
     g\<lparr>key_rpm_limit := key_rpm, key_tpm_limit := key_tpm,
       model_rpm_limit := model_rpm, model_tpm_limit := model_tpm\<rparr>"

definition with_primary_capacity ::
    "u32 option \<Rightarrow> u32 option \<Rightarrow> upstream_group \<Rightarrow> upstream_group" where
  "with_primary_capacity rpm tpm g = g\<lparr>primary_capacity_rpm := rpm, primary_capacity_tpm := tpm\<rparr>"

definition group_new_swrr ::
    "nat \<Rightarrow> model_card \<Rightarrow> (upstream_node \<times> bool \<times> u8) list \<Rightarrow> upstream_group result" where
  "group_new_swrr now m us =
     rbind (collect_results (\<lambda>(nd, en, w). binding_new now nd en (SwrrConfig w) 0) us)
       (\<lambda>bs. group_new m Swrr bs)"

definition group_new_weighted_hash ::
    "nat \<Rightarrow> model_card \<Rightarrow> (upstream_node \<times> bool \<times> u8) list \<Rightarrow> upstream_group result" where
  "group_new_weighted_hash now m us =
     rbind (collect_results (\<lambda>(nd, en, w). binding_new now nd en (WeightedHashConfig w) 0) us)
       (\<lambda>bs. group_new m WeightedHash bs)"

definition group_matches :: "upstream_group \<Rightarrow> string \<Rightarrow> bool" where
  "group_matches g i = model_matches (model g) i"

section \<open>Tiered selection\<close>

definition opt_eq :: "'a option \<Rightarrow> 'a \<Rightarrow> bool" where
  "opt_eq r x = (case r of None \<Rightarrow> True | Some y \<Rightarrow> x = y)"

text \<open>
  The filter of one tier, binding by binding: the tier is compared first, then the binding is asked
  for its availability (which may change its breaker), then the two optional constraints.
\<close>

fun tier_candidates ::
    "nat \<Rightarrow> runtime_type option \<Rightarrow> api_compatibility option \<Rightarrow> u8 \<Rightarrow> nat list \<Rightarrow> binding list
       \<Rightarrow> nat list \<times> binding list" where
  "tier_candidates now rt ac tier [] bs = ([], bs)"
| "tier_candidates now rt ac tier (i # is) bs =
     (if priority (bs ! i) = tier then
        (case is_available now (bs ! i) of (ok, b') \<Rightarrow>
           (case tier_candidates now rt ac tier is (bs[i := b']) of (cs, bs') \<Rightarrow>
              (if ok \<and> opt_eq rt (runtime_type_of b') \<and> opt_eq ac (api_compatibility_of b')
               then i # cs else cs, bs')))
      else tier_candidates now rt ac tier is bs)"

fun select_in_tiers ::
    "'f hash_ops \<Rightarrow> nat \<Rightarrow> string option \<Rightarrow> runtime_type option \<Rightarrow> api_compatibility option
       \<Rightarrow> u8 list \<Rightarrow> upstream_group \<Rightarrow> nat option \<times> upstream_group" where
  "select_in_tiers ops now key rt ac [] g = (None, g)"
| "select_in_tiers ops now key rt ac (tier # tiers) g =
     (case tier_candidates now rt ac tier [0..<length (upstreams g)] (upstreams g) of
        (candidates, bs) \<Rightarrow>
          (let g1 = g\<lparr>upstreams := bs\<rparr> in
           if candidates = [] then select_in_tiers ops now key rt ac tiers g1
           else
             (case strategy g1 of
                Swrr \<Rightarrow> (case select_swrr candidates bs of (r, bs') \<Rightarrow> (r, g1\<lparr>upstreams := bs'\<rparr>))
              | WeightedHash \<Rightarrow>
                  (case select_weighted_hash ops candidates key (model_id (model g1)) (hash_cursor g1) bs of
                     (r, cursor) \<Rightarrow> (r, g1\<lparr>hash_cursor := cursor\<rparr>)))))"

definition select_with_min_priority ::
    "'f hash_ops \<Rightarrow> nat \<Rightarrow> string option \<Rightarrow> runtime_type option \<Rightarrow> api_compatibility option
       \<Rightarrow> u8 \<Rightarrow> upstream_group \<Rightarrow> nat option \<times> upstream_group" where
  "select_with_min_priority ops now key rt ac min_priority g =
     (let tiers = remdups_adj (sort (filter (\<lambda>p. min_priority \<le> p) (map priority (upstreams g))))
      in select_in_tiers ops now key rt ac tiers g)"

definition group_select ::
    "'f hash_ops \<Rightarrow> nat \<Rightarrow> string option \<Rightarrow> runtime_type option \<Rightarrow> api_compatibility option
       \<Rightarrow> upstream_group \<Rightarrow> nat option \<times> upstream_group" where
  "group_select ops now key rt ac g = select_with_min_priority ops now key rt ac 0 g"

section \<open>Group invariant\<close>

text \<open>What the constructors establish and no operation changes.\<close>

definition binding_static :: "binding \<Rightarrow> upstream_node \<times> bool \<times> u8 \<times> routing_strategy_config" where
  "binding_static b = (node b, enabled b, priority b, strategy_config b)"

definition group_wf :: "upstream_group \<Rightarrow> bool" where
  "group_wf g \<longleftrightarrow> upstreams g \<noteq> []
     \<and> (\<forall>b \<in> set (upstreams g). rsc_strategy (strategy_config b) = strategy g
          \<and> binding_weight b \<noteq> 0 \<and> breaker_inv (circuit_breaker b))"

lemma group_new_eq_Inr_iff:
  "group_new m s bs = Inr g \<longleftrightarrow>
     bs \<noteq> [] \<and> (\<forall>b \<in> set bs. rsc_strategy (strategy_config b) = s)
   \<and> g = \<lparr>model = m, strategy = s, upstreams = bs, key_rpm_limit = None, key_tpm_limit = None,
                  model_rpm_limit = None, model_tpm_limit = None, primary_capacity_rpm = None,
                  primary_capacity_tpm = None, hash_cursor = 0\<rparr>"
  by (auto simp: group_new_def find_None_iff find_Some_iff split: option.split)

lemma binding_new_ok:
  "binding_new now nd en cfg prio = Inr b \<Longrightarrow>
     strategy_config b = cfg \<and> binding_weight b \<noteq> 0 \<and> breaker_inv (circuit_breaker b)"
  by (auto simp: binding_new_eq_Inr_iff breaker_new_def intro: inv_created)

lemma group_wf_new:
  "group_new m s bs = Inr g \<Longrightarrow>
     (\<And>b. b \<in> set bs \<Longrightarrow> binding_weight b \<noteq> 0 \<and> breaker_inv (circuit_breaker b)) \<Longrightarrow> group_wf g"
  by (auto simp: group_new_eq_Inr_iff group_wf_def)

lemma group_wf_limits [simp]:
  "group_wf (with_rate_limits a b c d g) = group_wf g"
  "group_wf (with_primary_capacity a b g) = group_wf g"
  by (simp_all add: group_wf_def with_rate_limits_def with_primary_capacity_def)

section \<open>One tier\<close>

definition eligible ::
    "nat \<Rightarrow> runtime_type option \<Rightarrow> api_compatibility option \<Rightarrow> binding \<Rightarrow> bool" where
  "eligible now rt ac b \<longleftrightarrow> fst (is_available now b) \<and> opt_eq rt (runtime_type_of b)
     \<and> opt_eq ac (api_compatibility_of b)"

lemma tier_candidates_spec:
  assumes "distinct is" "set is \<subseteq> {..<length bs}"
  shows "fst (tier_candidates now rt ac tier is bs)
           = filter (\<lambda>i. priority (bs ! i) = tier \<and> eligible now rt ac (bs ! i)) is
       \<and> length (snd (tier_candidates now rt ac tier is bs)) = length bs
       \<and> (\<forall>j < length bs. snd (tier_candidates now rt ac tier is bs) ! j
            = (if j \<in> set is \<and> priority (bs ! j) = tier then snd (is_available now (bs ! j)) else bs ! j))"
  using assms
proof (induction "is" arbitrary: bs)
  case (Cons i "is")
  obtain ok b' where av: "is_available now (bs ! i) = (ok, b')" by force
  have b': "b' = snd (is_available now (bs ! i))" "ok = fst (is_available now (bs ! i))"
    by (simp_all add: av)
  have fil: "filter (\<lambda>j. priority (bs[i := b'] ! j) = tier \<and> eligible now rt ac (bs[i := b'] ! j)) is
        = filter (\<lambda>j. priority (bs ! j) = tier \<and> eligible now rt ac (bs ! j)) is"
  proof (rule filter_cong)
    fix x assume "x \<in> set is"
    with Cons.prems have "i \<noteq> x" by auto
    then have "bs[i := b'] ! x = bs ! x" by simp
    then show "(priority (bs[i := b'] ! x) = tier \<and> eligible now rt ac (bs[i := b'] ! x))
        = (priority (bs ! x) = tier \<and> eligible now rt ac (bs ! x))" by simp
  qed simp
  have sub: "distinct is" "set is \<subseteq> {..<length bs}" "i < length bs" "i \<notin> set is"
    using Cons.prems by auto
  show ?case
  proof (cases "priority (bs ! i) = tier")
    case False
    with Cons.IH [OF sub(1,2)] show ?thesis by auto
  next
    case True
    obtain cs bs' where rec: "tier_candidates now rt ac tier is (bs[i := b']) = (cs, bs')" by force
    have "set is \<subseteq> {..<length (bs[i := b'])}" using sub(2) by simp
    from Cons.IH [OF sub(1) this] have IH: "cs = filter (\<lambda>j. priority (bs ! j) = tier \<and> eligible now rt ac (bs ! j)) is"
      "length bs' = length bs"
      "\<And>j. j < length bs \<Longrightarrow> bs' ! j = (if j \<in> set is \<and> priority (bs[i := b'] ! j) = tier
          then snd (is_available now (bs[i := b'] ! j)) else bs[i := b'] ! j)"
      by (simp_all add: rec fil)
    have el: "eligible now rt ac (bs ! i) \<longleftrightarrow>
        ok \<and> opt_eq rt (runtime_type_of b') \<and> opt_eq ac (api_compatibility_of b')"
      by (simp add: eligible_def b')
    have "bs' ! j = (if j \<in> set (i # is) \<and> priority (bs ! j) = tier
        then snd (is_available now (bs ! j)) else bs ! j)" if "j < length bs" for j
      using IH(3) [OF that] sub(3,4) True b'(1) that by (cases "j = i") auto
    then show ?thesis using True IH(1,2) by (simp add: av rec el)
  qed
qed simp

lemma tier_candidates_all:
  assumes "tier_candidates now rt ac tier [0..<length bs] bs = (cs, bs')"
  shows "cs = filter (\<lambda>i. priority (bs ! i) = tier \<and> eligible now rt ac (bs ! i)) [0..<length bs]"
    and "length bs' = length bs"
    and "j < length bs \<Longrightarrow> bs' ! j = (if priority (bs ! j) = tier then snd (is_available now (bs ! j)) else bs ! j)"
  using tier_candidates_spec [of "[0..<length bs]" bs now rt ac tier] assms
  by (simp_all add: atLeast0LessThan)

text \<open>A selection among candidates always picks one of them, even if running weights have wrapped.\<close>

lemma fold_add_weight_range:
  "distinct cs \<Longrightarrow> set cs \<subseteq> {..<length bs} \<Longrightarrow> c \<in> set cs \<Longrightarrow>
     I64_MIN \<le> current_weight (fold (\<lambda>c bs'. add_weight (weight_i64 (bs' ! c)) c bs') cs bs ! c)"
  using wrap_i64_range by (subst fold_add_weight_nth) (auto simp: I64_MIN_def)

lemma select_swrr_picks:
  assumes "distinct cs" "set cs \<subseteq> {..<length bs}" "cs \<noteq> []"
  shows "\<exists>w \<in> set cs. fst (select_swrr cs bs) = Some w"
proof -
  let ?bs1 = "fold (\<lambda>c bs'. add_weight (weight_i64 (bs' ! c)) c bs') cs bs"
  have "best_candidate (map (\<lambda>c. current_weight (?bs1 ! c)) cs) < length cs"
    using best_candidate_spec(1) [of "map (\<lambda>c. current_weight (?bs1 ! c)) cs"]
      fold_add_weight_range [OF assms(1,2)] assms(3) by auto
  then show ?thesis using assms(3) by (simp add: select_swrr_def Let_def)
qed

lemma min_by_in: "xs \<noteq> [] \<Longrightarrow> \<exists>x \<in> set xs. min_by cmp xs = Some x"
  using foldl_choice_in [of "\<lambda>x z. cmp x z = Greater"] by (cases xs) (auto simp: min_by_def)

lemma select_weighted_hash_picks:
  assumes "cs \<noteq> []"
  shows "\<exists>w \<in> set cs. fst (select_weighted_hash ops cs key mid cur bs) = Some w"
proof -
  obtain k c where "(case key of Some k \<Rightarrow> (k, cur)
                | None \<Rightarrow> (mid @ '':'' @ show_nat (unat cur), cur + 1)) = (k, c)" by force
  then show ?thesis
    using min_by_in [OF assms] assms
    by (simp add: select_weighted_hash_def Let_def
        min_by_map_pair [where g = "\<lambda>a b. case f_partial_cmp ops a b of Some x \<Rightarrow> x | None \<Rightarrow> Equal"])
qed

section \<open>The whole selection\<close>

text \<open>What a selection may change of a group: breakers, running weights and the cursor.\<close>

definition group_static :: "upstream_group \<Rightarrow> upstream_group \<Rightarrow> bool" where
  "group_static g g' \<longleftrightarrow>
     map binding_static (upstreams g') = map binding_static (upstreams g)
   \<and> (\<exists>bs c. g' = g\<lparr>upstreams := bs, hash_cursor := c\<rparr>)
   \<and> ((\<forall>b \<in> set (upstreams g). breaker_inv (circuit_breaker b)) \<longrightarrow>
       (\<forall>b \<in> set (upstreams g'). breaker_inv (circuit_breaker b)))"

lemma group_static_refl: "group_static g g"
  unfolding group_static_def
  by (intro conjI exI [of _ "upstreams g"] exI [of _ "hash_cursor g"]) simp_all

lemma group_static_trans: "group_static g g' \<Longrightarrow> group_static g' g'' \<Longrightarrow> group_static g g''"
  unfolding group_static_def by (elim conjE exE) (intro conjI exI; simp)

lemma group_staticI:
  assumes "length bs' = length (upstreams g)"
    and "\<And>j. j < length bs' \<Longrightarrow> binding_static (bs' ! j) = binding_static (upstreams g ! j)"
    and "\<And>j. j < length bs' \<Longrightarrow> breaker_inv (circuit_breaker (upstreams g ! j))
           \<Longrightarrow> breaker_inv (circuit_breaker (bs' ! j))"
  shows "group_static g (g\<lparr>upstreams := bs', hash_cursor := c\<rparr>)"
proof -
  have "map binding_static bs' = map binding_static (upstreams g)"
    using assms(1,2) by (intro nth_equalityI) simp_all
  moreover have "\<forall>b \<in> set bs'. breaker_inv (circuit_breaker b)"
    if "\<forall>b \<in> set (upstreams g). breaker_inv (circuit_breaker b)"
    using that assms(1,3) by (metis in_set_conv_nth)
  ultimately show ?thesis by (auto simp: group_static_def)
qed

lemma group_static_upstreamsI:
  assumes "length bs' = length (upstreams g)"
    and "\<And>j. j < length bs' \<Longrightarrow> binding_static (bs' ! j) = binding_static (upstreams g ! j)"
    and "\<And>j. j < length bs' \<Longrightarrow> breaker_inv (circuit_breaker (upstreams g ! j))
           \<Longrightarrow> breaker_inv (circuit_breaker (bs' ! j))"
  shows "group_static g (g\<lparr>upstreams := bs'\<rparr>)"
  using group_staticI [OF assms, of "hash_cursor g"] by simp

lemma group_wf_static: "group_wf g \<Longrightarrow> group_static g g' \<Longrightarrow> group_wf g'"
proof -
  assume wf: "group_wf g" and st: "group_static g g'"
  have strat: "strategy g' = strategy g" using st by (auto simp: group_static_def)
  have "binding_static ` set (upstreams g') = binding_static ` set (upstreams g)"
    using st by (metis group_static_def list.set_map)
  then have cfg: "\<exists>b' \<in> set (upstreams g). strategy_config b = strategy_config b'"
    if "b \<in> set (upstreams g')" for b
  proof -
    from that have "binding_static b \<in> binding_static ` set (upstreams g)"
      using \<open>binding_static ` set (upstreams g') = _\<close> by blast
    then show ?thesis by (auto simp: binding_static_def)
  qed
  have ne: "upstreams g' \<noteq> []" using wf st by (auto simp: group_wf_def group_static_def)
  have "rsc_strategy (strategy_config b) = strategy g' \<and> binding_weight b \<noteq> 0
      \<and> breaker_inv (circuit_breaker b)" if "b \<in> set (upstreams g')" for b
  proof -
    obtain b' where "b' \<in> set (upstreams g)" "strategy_config b = strategy_config b'"
      using cfg [OF \<open>b \<in> set (upstreams g')\<close>] by blast
    moreover have "breaker_inv (circuit_breaker b)"
      using wf st that by (simp add: group_static_def group_wf_def)
    ultimately show ?thesis using wf strat by (simp add: group_wf_def)
  qed
  with ne show ?thesis by (simp add: group_wf_def)
qed

lemma is_available_inv:
  "breaker_inv (circuit_breaker b) \<Longrightarrow> breaker_inv (circuit_breaker (snd (is_available now b)))"
  by (simp add: is_available_breaker state_reports inv_check)

lemma binding_current_weight_self: "\<exists>x. b = b\<lparr>current_weight := x\<rparr>"
  by (rule exI [of _ "current_weight b"]) simp

lemma select_swrr_static:
  assumes "distinct cs" "set cs \<subseteq> {..<length bs}" "j < length bs"
  shows "length (snd (select_swrr cs bs)) = length bs"
    and "\<exists>x. snd (select_swrr cs bs) ! j = (bs ! j)\<lparr>current_weight := x\<rparr>"
proof -
  show "length (snd (select_swrr cs bs)) = length bs"
    by (simp add: select_swrr_def Let_def)
  show "\<exists>x. snd (select_swrr cs bs) ! j = (bs ! j)\<lparr>current_weight := x\<rparr>"
  proof (cases "cs = []")
    case True
    then show ?thesis by (simp add: select_swrr_def binding_current_weight_self)
  next
    case False
    then show ?thesis
      using assms
      by (simp add: select_swrr_def Let_def add_weight_nth fold_add_weight_nth binding_current_weight_self)
         (blast intro: binding_current_weight_self)
  qed
qed

lemma filter_candidates_ok:
  "distinct (filter P [0..<length bs])" "set (filter P [0..<length bs]) \<subseteq> {..<length bs}"
  by auto

lemma select_in_tiers_static: "group_static g (snd (select_in_tiers ops now key rt ac ts g))"
proof (induction ts arbitrary: g)
  case Nil
  show ?case by (simp add: group_static_refl)
next
  case (Cons tier ts)
  obtain cs bs where tc: "tier_candidates now rt ac tier [0..<length (upstreams g)] (upstreams g) = (cs, bs)"
    by force
  note t = tier_candidates_all [OF tc]
  let ?g1 = "g\<lparr>upstreams := bs\<rparr>"
  have st1: "group_static g (?g1\<lparr>hash_cursor := c\<rparr>)" for c
    using group_staticI [of bs g c] t(2,3)
    by (simp add: binding_static_def is_available_inv)
  then have st0: "group_static g ?g1" using st1 [of "hash_cursor g"] by simp
  have sub: "distinct cs" "set cs \<subseteq> {..<length bs}" using t(1,2) by (auto simp: filter_candidates_ok)
  have sw: "group_static ?g1 (?g1\<lparr>upstreams := snd (select_swrr cs bs)\<rparr>)"
  proof -
    have "binding_static (snd (select_swrr cs bs) ! j) = binding_static (bs ! j)
        \<and> circuit_breaker (snd (select_swrr cs bs) ! j) = circuit_breaker (bs ! j)" if "j < length bs" for j
      using select_swrr_static(2) [OF sub that] by (auto simp: binding_static_def)
    moreover have "length (snd (select_swrr cs bs)) = length bs"
      by (simp add: select_swrr_def Let_def)
    ultimately show ?thesis
      using group_staticI [of "snd (select_swrr cs bs)" ?g1 "hash_cursor g"] by simp
  qed
  show ?case
  proof (cases "cs = []")
    case True
    with tc group_static_trans [OF st0 Cons.IH] show ?thesis by simp
  next
    case False
    show ?thesis
    proof (cases "strategy g")
      case Swrr
      obtain r bs' where sel: "select_swrr cs bs = (r, bs')" by force
      from False Swrr tc group_static_trans [OF st0 sw] show ?thesis by (simp add: sel)
    next
      case WeightedHash
      obtain r c where sel: "select_weighted_hash ops cs key (model_id (model g)) (hash_cursor g) bs = (r, c)"
        by force
      from False WeightedHash tc st1 [of c] show ?thesis by (simp add: sel)
    qed
  qed
qed

text \<open>The binding that a list of tiers, tried in order, selects.\<close>

definition tier_choice ::
    "nat \<Rightarrow> runtime_type option \<Rightarrow> api_compatibility option \<Rightarrow> u8 set \<Rightarrow> binding list \<Rightarrow> nat option \<Rightarrow> bool" where
  "tier_choice now rt ac T bs r =
     (case r of
        None \<Rightarrow> \<forall>j < length bs. priority (bs ! j) \<in> T \<longrightarrow> \<not> eligible now rt ac (bs ! j)
      | Some i \<Rightarrow> i < length bs \<and> priority (bs ! i) \<in> T \<and> eligible now rt ac (bs ! i)
          \<and> (\<forall>j < length bs. priority (bs ! j) \<in> T \<longrightarrow> eligible now rt ac (bs ! j)
               \<longrightarrow> priority (bs ! i) \<le> priority (bs ! j)))"

lemma select_picks_candidate:
  assumes "cs \<noteq> []" "distinct cs" "set cs \<subseteq> {..<length bs}"
    and "tier_candidates now rt ac tier [0..<length (upstreams g)] (upstreams g) = (cs, bs)"
  shows "\<exists>w \<in> set cs. fst (select_in_tiers ops now key rt ac (tier # ts) g) = Some w"
  using select_swrr_picks [OF assms(2,3,1)]
    select_weighted_hash_picks [OF assms(1), of ops key "model_id (model g)" "hash_cursor g" bs] assms(1,4)
  by (cases "strategy g") (auto split: prod.split)

lemma select_in_tiers_choice:
  assumes "sorted_wrt (<) ts"
  shows "tier_choice now rt ac (set ts) (upstreams g) (fst (select_in_tiers ops now key rt ac ts g))"
  using assms
proof (induction ts arbitrary: g)
  case Nil
  show ?case by (simp add: tier_choice_def)
next
  case (Cons tier ts)
  let ?bs = "upstreams g"
  obtain cs bs where tc: "tier_candidates now rt ac tier [0..<length ?bs] ?bs = (cs, bs)"
    by force
  note t = tier_candidates_all [OF tc]
  have lt: "tier < p" if "p \<in> set ts" for p using Cons.prems that by simp
  show ?case
  proof (cases "cs = []")
    case True
    have none: "\<not> eligible now rt ac (?bs ! j)" if "j < length ?bs" "priority (?bs ! j) = tier" for j
      using True t(1) that by (auto simp: filter_empty_conv)
    have same: "bs ! j = ?bs ! j" if "j < length ?bs" "priority (?bs ! j) \<in> set ts" for j
      using t(3) [OF that(1)] lt [OF that(2)] by auto
    have pr: "priority (bs ! j) = priority (?bs ! j)" if "j < length ?bs" for j
      using t(3) [OF that] by simp
    let ?r = "fst (select_in_tiers ops now key rt ac ts (g\<lparr>upstreams := bs\<rparr>))"
    have "tier_choice now rt ac (set ts) bs ?r"
      using Cons.IH [of "g\<lparr>upstreams := bs\<rparr>"] Cons.prems by simp
    moreover have "fst (select_in_tiers ops now key rt ac (tier # ts) g) = ?r" using tc True by simp
    ultimately show ?thesis
      using none same pr t(2) by (cases ?r) (auto simp: tier_choice_def)
  next
    case False
    have sub: "distinct cs" "set cs \<subseteq> {..<length bs}" using t(1,2) by (auto simp: filter_candidates_ok)
    obtain w where w: "w \<in> set cs" "fst (select_in_tiers ops now key rt ac (tier # ts) g) = Some w"
      using select_picks_candidate [OF False sub tc] by blast
    then have "w < length ?bs" "priority (?bs ! w) = tier" "eligible now rt ac (?bs ! w)"
      using t(1) by auto
    then show ?thesis using w(2) lt by (auto simp: tier_choice_def intro: less_imp_le)
  qed
qed

lemma strict_sorted_remdups_adj: "sorted xs \<Longrightarrow> sorted_wrt (<) (remdups_adj xs)"
  for xs :: "'a::linorder list"
  by (induction xs rule: remdups_adj.induct) (auto simp: less_le)

lemma tiers_sorted: "sorted_wrt (<) (remdups_adj (sort xs))"
  for xs :: "u8 list"
  by (rule strict_sorted_remdups_adj) simp

lemma tiers_set: "set (remdups_adj (sort (filter ((\<le>) m) xs))) = {p \<in> set xs. m \<le> p}"
  by auto

lemma select_with_min_priority_static [inv_intros]:
  "group_static g (snd (select_with_min_priority ops now key rt ac m g))"
  by (simp add: select_with_min_priority_def select_in_tiers_static)

lemma select_with_min_priority_choice:
  "tier_choice now rt ac {p. m \<le> p} (upstreams g) (fst (select_with_min_priority ops now key rt ac m g))"
proof -
  let ?ts = "remdups_adj (sort (filter (\<lambda>p. m \<le> p) (map priority (upstreams g))))"
  have "tier_choice now rt ac (set ?ts) (upstreams g) (fst (select_in_tiers ops now key rt ac ?ts g))"
    by (rule select_in_tiers_choice [OF tiers_sorted])
  then show ?thesis
    by (auto simp: select_with_min_priority_def tier_choice_def split: option.splits)
qed

section \<open>Properties\<close>

definition example_group :: upstream_group where
  "example_group =
     \<lparr>model = model_card_new ''m'', strategy = Swrr,
      upstreams = [(example_binding ''a'' 1)\<lparr>enabled := False\<rparr>, (example_binding ''b'' 1)\<lparr>priority := 1\<rparr>],
      key_rpm_limit = None, key_tpm_limit = None, model_rpm_limit = None, model_tpm_limit = None,
      primary_capacity_rpm = None, primary_capacity_tpm = None, hash_cursor = 0\<rparr>"

lemma example_group_eligible:
  "\<not> eligible 0 None ac ((example_binding url w)\<lparr>enabled := False\<rparr>)"
  "eligible 0 None None ((example_binding url w)\<lparr>priority := p\<rparr>)"
  "eligible 0 None (Some OpenAiApi) ((example_binding url w)\<lparr>priority := p\<rparr>)"
  by (simp_all add: eligible_def opt_eq_def is_available_def example_binding_def default_node_def default_profile_def
      can_execute_def breaker_state_def check_and_update_state_eq breaker_new_def
      with_config_and_label_def)

text \<open>
  C10. Tiered selection: the upstream that \<open>select_with_min_priority\<close> returns is available and meets
  the requested runtime and protocol, no eligible upstream sits in a lower tier at or above
  \<open>min_priority\<close>, and nothing is returned only when no upstream of those tiers is eligible.  This
  holds for both strategies and whatever the running weights and breakers are.
\<close>

theorem select_lowest_available_tier:
  assumes "fst (select_with_min_priority ops now key rt ac m g) = r"
  shows "case r of
           None \<Rightarrow> \<forall>b \<in> set (upstreams g). m \<le> priority b \<longrightarrow> \<not> eligible now rt ac b
         | Some i \<Rightarrow> i < length (upstreams g) \<and> m \<le> priority (upstreams g ! i)
             \<and> eligible now rt ac (upstreams g ! i)
             \<and> (\<forall>b \<in> set (upstreams g). m \<le> priority b \<longrightarrow> eligible now rt ac b
                  \<longrightarrow> priority (upstreams g ! i) \<le> priority b)"
  using select_with_min_priority_choice [of now rt ac m g ops key] assms
  by (auto simp: tier_choice_def in_set_conv_nth split: option.splits)

lemma select_lowest_available_tier_witness:
  "fst (select_with_min_priority example_hash_ops 0 None None None 0 example_group) = Some 1"
proof (cases "fst (select_with_min_priority example_hash_ops 0 None None None 0 example_group)")
  case None
  with select_lowest_available_tier [OF this] show ?thesis
    by (simp add: example_group_def example_group_eligible)
next
  case (Some i)
  with select_lowest_available_tier [OF Some] show ?thesis
    by (cases i) (auto simp: example_group_def example_group_eligible)
qed

text \<open>
  Selecting never disturbs a group: identity, limits and strategy stay, every binding keeps
  its node, tier, weight and enabled flag, and well-formedness (at least one binding, one strategy,
  no zero weight, every breaker in a legal state) is preserved.
\<close>

lemma select_preserves_group:
  assumes "group_wf g" "select_with_min_priority ops now key rt ac m g = (r, g')"
  shows "group_wf g' \<and> map binding_static (upstreams g') = map binding_static (upstreams g)
       \<and> model g' = model g \<and> strategy g' = strategy g
       \<and> key_rpm_limit g' = key_rpm_limit g \<and> key_tpm_limit g' = key_tpm_limit g
       \<and> model_rpm_limit g' = model_rpm_limit g \<and> model_tpm_limit g' = model_tpm_limit g
       \<and> primary_capacity_rpm g' = primary_capacity_rpm g
       \<and> primary_capacity_tpm g' = primary_capacity_tpm g"
proof -
  have st: "group_static g g'"
    using select_with_min_priority_static [of g ops now key rt ac m] assms(2) by simp
  with group_wf_static [OF assms(1) st] show ?thesis by (auto simp: group_static_def)
qed

lemma select_preserves_group_witness:
  "group_wf (snd (select_with_min_priority example_hash_ops 0 None None None 0 example_group))"
proof -
  have "breaker_inv (breaker_new 0)" unfolding breaker_new_def by (rule inv_created)
  then have "group_wf example_group"
    by (simp add: group_wf_def example_group_def example_binding_def)
  from select_preserves_group [OF this prod.collapse [symmetric]] show ?thesis by blast
qed

end
