(* ===== verification/Registry.thy ===== *)
theory Registry
  imports Upstream_Group "HOL-Library.List_Lexorder" "HOL-Library.Char_ord"
begin

text \<open>
  The upstream registry of \<^verbatim>\<open>core/src/upstream/registry.rs\<close>.  Groups and provider
  bindings are shared objects (one group is reachable under its model id and every alias), so they
  live in two append-only stores and the snapshot maps keys to positions.  A writer builds a new
  snapshot and swaps it in under the write lock: one writer is one step.
\<close>

section \<open>State\<close>

record registry =
  reg_groups :: "string \<rightharpoonup> nat"      \<comment> \<open>model, NUL, protocol; to a position in the group store\<close>
  reg_model_ids :: "string set"
  reg_providers :: "string \<rightharpoonup> nat"   \<comment> \<open>credential name to a position in the provider store\<close>
  group_store :: "upstream_group list"
  provider_store :: "binding list"

datatype upstream_ref = GroupUpstream nat nat | ProviderUpstream nat

definition registry_new :: registry where
  "registry_new = \<lparr>reg_groups = Map.empty, reg_model_ids = {}, reg_providers = Map.empty,
                   group_store = [], provider_store = []\<rparr>"

definition group_key :: "string \<Rightarrow> string \<Rightarrow> string" where
  "group_key mid protocol = mid @ CHR 0x00 # protocol"

definition infer_protocol :: "upstream_group \<Rightarrow> string" where
  "infer_protocol g =
     (case upstreams g of [] \<Rightarrow> ''openai'' | b # bs \<Rightarrow> api_compatibility_str (api_compatibility_of b))"

text \<open>
  The fresh binding of a provider.  The \<open>expect\<close> of the source cannot fail: the weight is 1
  (lemma \<open>provider_binding_new\<close>).
\<close>

definition provider_binding :: "nat \<Rightarrow> upstream_node \<Rightarrow> binding" where
  "provider_binding now nd = projr (binding_new now nd True (SwrrConfig 1) 0)"

lemma provider_binding_new:
  "binding_new now nd True (SwrrConfig 1) 0 = Inr (provider_binding now nd)"
  by (simp add: provider_binding_def binding_new_def rsc_validate_def)

section \<open>Operations\<close>

definition add_provider :: "nat \<Rightarrow> binding \<Rightarrow> registry \<Rightarrow> registry" where
  "add_provider now b r =
     (let pid = provider_id b in
      if reg_providers r pid \<noteq> None then r
      else r\<lparr>reg_providers := (reg_providers r)(pid \<mapsto> length (provider_store r)),
             provider_store := provider_store r @ [provider_binding now (node b)]\<rparr>)"

definition insert_group :: "upstream_group \<Rightarrow> nat \<Rightarrow> registry \<Rightarrow> registry" where
  "insert_group g gi r =
     (let protocol = infer_protocol g;
          groups1 = (reg_groups r)(group_key (model_id (model g)) protocol \<mapsto> gi);
          groups2 = fold (\<lambda>alias m. m(group_key alias protocol \<mapsto> gi)) (aliases (model g)) groups1
      in r\<lparr>reg_groups := groups2, reg_model_ids := insert (model_id (model g)) (reg_model_ids r)\<rparr>)"

definition register_group :: "nat \<Rightarrow> upstream_group \<Rightarrow> registry \<Rightarrow> registry" where
  "register_group now g r =
     (let gi = length (group_store r);
          r1 = r\<lparr>group_store := group_store r @ [g]\<rparr>
      in fold (add_provider now) (upstreams g) (insert_group g gi r1))"

definition build_provider_map :: "nat \<Rightarrow> upstream_group list \<Rightarrow> registry \<Rightarrow> registry" where
  "build_provider_map now gs r =
     fold (\<lambda>g. fold (add_provider now) (upstreams g)) gs (r\<lparr>reg_providers := Map.empty\<rparr>)"

definition reload_all :: "nat \<Rightarrow> upstream_group list \<Rightarrow> registry \<Rightarrow> registry" where
  "reload_all now gs r =
     build_provider_map now gs
       (fold (\<lambda>g r'. insert_group g (length (group_store r')) (r'\<lparr>group_store := group_store r' @ [g]\<rparr>))
          gs (r\<lparr>reg_groups := Map.empty, reg_model_ids := {}\<rparr>))"

definition get_protocol_group :: "string \<Rightarrow> string \<Rightarrow> registry \<Rightarrow> nat option" where
  "get_protocol_group mid protocol r = reg_groups r (group_key mid protocol)"

definition update_group :: "nat \<Rightarrow> upstream_group \<Rightarrow> registry \<Rightarrow> registry" where
  "update_group gi g r = r\<lparr>group_store := (group_store r)[gi := g]\<rparr>"

definition registry_select ::
    "'f hash_ops \<Rightarrow> nat \<Rightarrow> string \<Rightarrow> string option \<Rightarrow> runtime_type option \<Rightarrow> api_compatibility option
       \<Rightarrow> u8 \<Rightarrow> registry \<Rightarrow> upstream_ref option \<times> registry" where
  "registry_select ops now mid key rt ac min_priority r =
     (let protocol = (case ac of Some a \<Rightarrow> api_compatibility_str a | None \<Rightarrow> ''openai'') in
      case get_protocol_group mid protocol r of
        None \<Rightarrow> (None, r)
      | Some gi \<Rightarrow>
          (case select_with_min_priority ops now key rt ac min_priority (group_store r ! gi) of
             (w, g') \<Rightarrow> (map_option (GroupUpstream gi) w, update_group gi g' r)))"

text \<open>\<open>find_map\<close> over the bindings of one group, stopping at the first hit.\<close>

fun find_available_provider :: "nat \<Rightarrow> string \<Rightarrow> nat list \<Rightarrow> binding list \<Rightarrow> nat option \<times> binding list" where
  "find_available_provider now pid [] bs = (None, bs)"
| "find_available_provider now pid (i # is) bs =
     (case is_available now (bs ! i) of (ok, b') \<Rightarrow>
        (let bs' = bs[i := b'] in
         if ok \<and> provider_id b' = pid then (Some i, bs')
         else find_available_provider now pid is bs'))"

fun find_in_protocols :: "nat \<Rightarrow> string \<Rightarrow> string \<Rightarrow> string list \<Rightarrow> registry \<Rightarrow> upstream_ref option \<times> registry" where
  "find_in_protocols now mid pid [] r = (None, r)"
| "find_in_protocols now mid pid (protocol # ps) r =
     (case get_protocol_group mid protocol r of
        None \<Rightarrow> find_in_protocols now mid pid ps r
      | Some gi \<Rightarrow>
          (let g = group_store r ! gi in
           case find_available_provider now pid [0..<length (upstreams g)] (upstreams g) of
             (w, bs') \<Rightarrow>
               (let r' = update_group gi (g\<lparr>upstreams := bs'\<rparr>) r in
                case w of Some i \<Rightarrow> (Some (GroupUpstream gi i), r')
                | None \<Rightarrow> find_in_protocols now mid pid ps r')))"

definition find_by_provider_id ::
    "nat \<Rightarrow> string \<Rightarrow> string \<Rightarrow> registry \<Rightarrow> upstream_ref option \<times> registry" where
  "find_by_provider_id now mid pid r = find_in_protocols now mid pid [''openai'', ''anthropic''] r"

definition find_for_responses :: "nat \<Rightarrow> string \<Rightarrow> registry \<Rightarrow> upstream_ref option \<times> registry" where
  "find_for_responses now pid r =
     (case reg_providers r pid of
        None \<Rightarrow> (None, r)
      | Some pi \<Rightarrow>
          (case is_available now (provider_store r ! pi) of (ok, b') \<Rightarrow>
             (if ok then Some (ProviderUpstream pi) else None,
              r\<lparr>provider_store := (provider_store r)[pi := b']\<rparr>)))"

type_synonym model_limits = "u32 option \<times> u32 option \<times> u32 option \<times> u32 option"

fun rate_limits_in :: "string \<Rightarrow> string list \<Rightarrow> registry \<Rightarrow> model_limits" where
  "rate_limits_in mid [] r = (None, None, None, None)"
| "rate_limits_in mid (protocol # ps) r =
     (case reg_groups r (group_key mid protocol) of
        Some gi \<Rightarrow> (let g = group_store r ! gi in
                    (key_rpm_limit g, key_tpm_limit g, model_rpm_limit g, model_tpm_limit g))
      | None \<Rightarrow> rate_limits_in mid ps r)"

definition get_rate_limits :: "string \<Rightarrow> registry \<Rightarrow> model_limits" where
  "get_rate_limits mid r = rate_limits_in mid [''openai'', ''anthropic''] r"

definition get_primary_capacity :: "string \<Rightarrow> string \<Rightarrow> registry \<Rightarrow> u32 option \<times> u32 option" where
  "get_primary_capacity mid protocol r =
     (case get_protocol_group mid protocol r of
        Some gi \<Rightarrow> (let g = group_store r ! gi in (primary_capacity_rpm g, primary_capacity_tpm g))
      | None \<Rightarrow> (None, None))"

definition all_model_ids :: "registry \<Rightarrow> string list" where
  "all_model_ids r = sorted_list_of_set (reg_model_ids r)"

text \<open>The binding a reference denotes, and writing it back.\<close>

definition deref :: "registry \<Rightarrow> upstream_ref \<Rightarrow> binding" where
  "deref r u = (case u of GroupUpstream gi i \<Rightarrow> upstreams (group_store r ! gi) ! i
                | ProviderUpstream pi \<Rightarrow> provider_store r ! pi)"

definition update_upstream :: "upstream_ref \<Rightarrow> (binding \<Rightarrow> binding) \<Rightarrow> registry \<Rightarrow> registry" where
  "update_upstream u f r =
     (case u of
        GroupUpstream gi i \<Rightarrow>
          (let g = group_store r ! gi in
           update_group gi (g\<lparr>upstreams := (upstreams g)[i := f (upstreams g ! i)]\<rparr>) r)
      | ProviderUpstream pi \<Rightarrow>
          r\<lparr>provider_store := (provider_store r)[pi := f (provider_store r ! pi)]\<rparr>)"

section \<open>Keys\<close>

lemma group_key_inject:
  assumes "CHR 0x00 \<notin> set p" "CHR 0x00 \<notin> set q"
  shows "group_key m p = group_key m' q \<longleftrightarrow> m = m' \<and> p = q"
proof
  assume "group_key m p = group_key m' q"
  then have r: "rev p @ CHR 0x00 # rev m = rev q @ CHR 0x00 # rev m'"
    unfolding group_key_def by (metis append.assoc append_Cons append_Nil rev.simps(2) rev_append)
  have "takeWhile ((\<noteq>) CHR 0x00) (rev p @ CHR 0x00 # rev m) = rev p"
    "takeWhile ((\<noteq>) CHR 0x00) (rev q @ CHR 0x00 # rev m') = rev q"
    using assms by (subst takeWhile_append2; force)+
  with r have "rev p = rev q" by metis
  with r show "m = m' \<and> p = q" by simp
qed simp

lemma api_compatibility_str_no_nul: "CHR 0x00 \<notin> set (api_compatibility_str a)"
  by (cases a) simp_all

lemma infer_protocol_no_nul: "CHR 0x00 \<notin> set (infer_protocol g)"
  by (simp add: infer_protocol_def api_compatibility_str_no_nul split: list.split)

text \<open>The (model, protocol) pairs a group is registered for.\<close>

definition serves :: "upstream_group \<Rightarrow> string \<Rightarrow> string \<Rightarrow> bool" where
  "serves g mid protocol \<longleftrightarrow> group_matches g mid \<and> infer_protocol g = protocol"

lemma fold_alias_insert:
  "fold (\<lambda>alias m. m(group_key alias p \<mapsto> gi)) as m k =
     (if k \<in> (\<lambda>a. group_key a p) ` set as then Some gi else m k)"
  by (induction as arbitrary: m) auto

lemma insert_group_frame [frame_simps, simp]:
  "reg_providers (insert_group g gi r) = reg_providers r"
  "group_store (insert_group g gi r) = group_store r"
  "provider_store (insert_group g gi r) = provider_store r"
  "reg_model_ids (insert_group g gi r) = insert (model_id (model g)) (reg_model_ids r)"
  by (simp_all add: insert_group_def Let_def)

lemma insert_group_groups:
  "reg_groups (insert_group g gi r) k =
     (if \<exists>mid. group_matches g mid \<and> k = group_key mid (infer_protocol g) then Some gi
      else reg_groups r k)"
  by (auto simp: insert_group_def Let_def fold_alias_insert group_matches_def model_matches_def)

lemma insert_group_lookup:
  assumes "CHR 0x00 \<notin> set p"
  shows "get_protocol_group mid p (insert_group g gi r) =
           (if serves g mid p then Some gi else get_protocol_group mid p r)"
  using group_key_inject [OF assms infer_protocol_no_nul]
  by (auto simp: get_protocol_group_def insert_group_groups serves_def)

lemma add_provider_frame [frame_simps, simp]:
  "reg_groups (add_provider now b r) = reg_groups r"
  "group_store (add_provider now b r) = group_store r"
  "reg_model_ids (add_provider now b r) = reg_model_ids r"
  by (simp_all add: add_provider_def Let_def)

lemma fold_add_provider_frame [frame_simps, simp]:
  "reg_groups (fold (add_provider now) bs r) = reg_groups r"
  "group_store (fold (add_provider now) bs r) = group_store r"
  "reg_model_ids (fold (add_provider now) bs r) = reg_model_ids r"
  by (induction bs arbitrary: r) simp_all

lemma build_provider_map_eq:
  "build_provider_map now gs r =
     fold (add_provider now) (concat (map upstreams gs)) (r\<lparr>reg_providers := Map.empty\<rparr>)"
proof -
  have "fold (\<lambda>g. fold (add_provider now) (upstreams g)) gs r
      = fold (add_provider now) (concat (map upstreams gs)) r" for r
    by (induction gs arbitrary: r) simp_all
  then show ?thesis by (simp add: build_provider_map_def)
qed

lemma build_provider_map_frame [frame_simps, simp]:
  "reg_groups (build_provider_map now gs r) = reg_groups r"
  "group_store (build_provider_map now gs r) = group_store r"
  "reg_model_ids (build_provider_map now gs r) = reg_model_ids r"
  by (simp_all add: build_provider_map_eq)

section \<open>Invariant\<close>

definition provider_ok :: "registry \<Rightarrow> bool" where
  "provider_ok r \<longleftrightarrow>
     (\<forall>pid pi. reg_providers r pid = Some pi \<longrightarrow> pi < length (provider_store r)
        \<and> provider_id (provider_store r ! pi) = pid)
   \<and> (\<forall>b \<in> set (provider_store r). enabled b \<and> priority b = 0 \<and> binding_weight b = 1
        \<and> breaker_inv (circuit_breaker b))"

definition groups_ok :: "registry \<Rightarrow> bool" where
  "groups_ok r \<longleftrightarrow>
     (\<forall>k gi. reg_groups r k = Some gi \<longrightarrow> gi < length (group_store r)
        \<and> (\<exists>mid. group_matches (group_store r ! gi) mid
             \<and> k = group_key mid (infer_protocol (group_store r ! gi))))
   \<and> (\<forall>g \<in> set (group_store r). group_wf g)
   \<and> finite (reg_model_ids r)
   \<and> (\<forall>mid \<in> reg_model_ids r. \<exists>a. get_protocol_group mid (api_compatibility_str a) r \<noteq> None)"

text \<open>Every credential of a registered group can be reached through the provider index.\<close>

definition providers_cover :: "registry \<Rightarrow> bool" where
  "providers_cover r \<longleftrightarrow>
     (\<forall>gi \<in> ran (reg_groups r). \<forall>b \<in> set (upstreams (group_store r ! gi)). reg_providers r (provider_id b) \<noteq> None)"

definition registry_inv :: "registry \<Rightarrow> bool" where
  "registry_inv r \<longleftrightarrow> groups_ok r \<and> provider_ok r \<and> providers_cover r"

lemma registry_inv_new: "registry_inv registry_new"
  by (simp add: registry_inv_def registry_new_def groups_ok_def provider_ok_def providers_cover_def)

lemma provider_binding_fields [simp]:
  "node (provider_binding now nd) = nd"
  "enabled (provider_binding now nd)"
  "priority (provider_binding now nd) = 0"
  "strategy_config (provider_binding now nd) = SwrrConfig 1"
  "circuit_breaker (provider_binding now nd) = breaker_new now"
  "current_weight (provider_binding now nd) = 0"
  by (simp_all add: provider_binding_def binding_new_def rsc_validate_def)

lemma add_provider_ok: "provider_ok r \<Longrightarrow> provider_ok (add_provider now b r)"
  by (auto simp: provider_ok_def add_provider_def Let_def nth_append breaker_new_def less_SucI
      intro: inv_created)

lemma fold_add_provider_ok: "provider_ok r \<Longrightarrow> provider_ok (fold (add_provider now) bs r)"
  by (induction bs arbitrary: r) (simp_all add: add_provider_ok)

lemma fold_add_provider_keeps:
  "reg_providers r pid = Some pi \<Longrightarrow> reg_providers (fold (add_provider now) bs r) pid = Some pi"
proof (induction bs arbitrary: r)
  case (Cons b bs)
  then have "reg_providers (add_provider now b r) pid = Some pi" by (auto simp: add_provider_def Let_def)
  with Cons.IH show ?case by simp
qed simp

lemma fold_add_provider_dom:
  "dom (reg_providers (fold (add_provider now) bs r)) = dom (reg_providers r) \<union> provider_id ` set bs"
  by (induction bs arbitrary: r) (auto simp: add_provider_def Let_def)

text \<open>The first binding with a name decides which node a new provider gets.\<close>

lemma fold_add_provider_first:
  assumes "provider_ok r" "reg_providers r pid = None"
    and "reg_providers (fold (add_provider now) bs r) pid = Some pi"
  shows "\<exists>xs b ys. bs = xs @ b # ys \<and> provider_id b = pid \<and> pid \<notin> provider_id ` set xs
       \<and> provider_store (fold (add_provider now) bs r) ! pi = provider_binding now (node b)"
  using assms
proof (induction bs arbitrary: r)
  case (Cons b bs)
  show ?case
  proof (cases "provider_id b = pid")
    case True
    let ?r' = "add_provider now b r"
    have *: "reg_providers ?r' pid = Some (length (provider_store r))"
      "provider_store ?r' = provider_store r @ [provider_binding now (node b)]"
      using True Cons.prems(2) by (auto simp: add_provider_def Let_def)
    then have "pi = length (provider_store r)"
      using fold_add_provider_keeps [OF *(1), of now bs] Cons.prems(3) by simp
    moreover have "provider_store (fold (add_provider now) bs q) ! j = provider_store q ! j"
      if "j < length (provider_store q)" for q j
      using that
    proof (induction bs arbitrary: q)
      case (Cons c cs)
      have "j < length (provider_store (add_provider now c q))"
        "provider_store (add_provider now c q) ! j = provider_store q ! j"
        using Cons.prems by (auto simp: add_provider_def Let_def nth_append)
      with Cons.IH show ?case by simp
    qed simp
    ultimately have "provider_store (fold (add_provider now) bs ?r') ! pi = provider_binding now (node b)"
      using * by simp
    then show ?thesis using True by (intro exI [of _ "[]"]) simp
  next
    case False
    have "reg_providers (add_provider now b r) pid = None"
      using False Cons.prems(2) by (auto simp: add_provider_def Let_def)
    from Cons.IH [OF add_provider_ok [OF Cons.prems(1)] this] Cons.prems(3)
    obtain xs c ys where "bs = xs @ c # ys" "provider_id c = pid" "pid \<notin> provider_id ` set xs"
      "provider_store (fold (add_provider now) (b # bs) r) ! pi = provider_binding now (node c)" by auto
    then show ?thesis using False by (intro exI [of _ "b # xs"]) auto
  qed
qed simp

section \<open>Preservation of the invariant\<close>

lemma group_static_nodes: "group_static g g' \<Longrightarrow> map node (upstreams g') = map node (upstreams g)"
proof -
  assume "group_static g g'"
  then have "map fst (map binding_static (upstreams g')) = map fst (map binding_static (upstreams g))"
    by (simp add: group_static_def)
  then show ?thesis by (simp add: binding_static_def comp_def)
qed

lemma group_static_infer: "group_static g g' \<Longrightarrow> infer_protocol g' = infer_protocol g"
proof -
  assume "group_static g g'"
  then have "map node (upstreams g') = map node (upstreams g)" by (rule group_static_nodes)
  then show ?thesis
    by (cases "upstreams g'"; cases "upstreams g") (auto simp: infer_protocol_def)
qed

lemma group_static_matches: "group_static g g' \<Longrightarrow> group_matches g' mid = group_matches g mid"
  by (auto simp: group_static_def group_matches_def)

lemma group_static_provider_ids:
  "group_static g g' \<Longrightarrow> provider_id ` set (upstreams g') = provider_id ` set (upstreams g)"
proof -
  assume "group_static g g'"
  then have "map node (upstreams g') = map node (upstreams g)" by (rule group_static_nodes)
  then have "node ` set (upstreams g') = node ` set (upstreams g)" by (metis list.set_map)
  then show ?thesis by (metis image_image)
qed

lemma update_group_frame [frame_simps, simp]:
  "reg_groups (update_group gi g r) = reg_groups r"
  "reg_model_ids (update_group gi g r) = reg_model_ids r"
  "reg_providers (update_group gi g r) = reg_providers r"
  "provider_store (update_group gi g r) = provider_store r"
  "length (group_store (update_group gi g r)) = length (group_store r)"
  by (simp_all add: update_group_def)

lemma update_group_nth:
  "j < length (group_store r) \<Longrightarrow> group_store (update_group gi g r) ! j = (if j = gi then g else group_store r ! j)"
  by (simp add: update_group_def nth_list_update_idx)

lemma registry_inv_update_group [inv_intros]:
  assumes inv: "registry_inv r" and st: "group_static (group_store r ! gi) g'"
  shows "registry_inv (update_group gi g' r)"
proof (cases "gi < length (group_store r)")
  case False
  then have "update_group gi g' r = r" by (simp add: update_group_def list_update_beyond)
  with inv show ?thesis by simp
next
  case True
  let ?r = "update_group gi g' r"
  have wf': "group_wf g'"
    using inv True group_wf_static [OF _ st] by (auto simp: registry_inv_def groups_ok_def)
  have nth: "group_static (group_store r ! j) (group_store ?r ! j)" if "j < length (group_store r)" for j
    using that st by (auto simp: update_group_nth group_static_refl)
  have "\<forall>g \<in> set (group_store ?r). group_wf g"
    using inv wf' set_update_subset_insert [of "group_store r" gi g']
    by (auto simp: registry_inv_def groups_ok_def update_group_def)
  moreover have "group_matches (group_store ?r ! j) = group_matches (group_store r ! j)"
    "infer_protocol (group_store ?r ! j) = infer_protocol (group_store r ! j)"
    if "j < length (group_store r)" for j
    using nth [OF that] by (auto simp: group_static_infer group_static_matches)
  ultimately have "groups_ok ?r"
    using inv by (simp add: registry_inv_def groups_ok_def get_protocol_group_def)
  moreover have "providers_cover ?r"
    unfolding providers_cover_def
  proof (intro ballI)
    fix k b assume k: "k \<in> ran (reg_groups ?r)" and b: "b \<in> set (upstreams (group_store ?r ! k))"
    then have "k < length (group_store r)"
      using inv by (auto simp: registry_inv_def groups_ok_def ran_def)
    from b have "provider_id b \<in> provider_id ` set (upstreams (group_store ?r ! k))" by simp
    then have "provider_id b \<in> provider_id ` set (upstreams (group_store r ! k))"
      by (simp only: group_static_provider_ids [OF nth [OF \<open>k < length (group_store r)\<close>]])
    then obtain b' where "b' \<in> set (upstreams (group_store r ! k))" "provider_id b = provider_id b'"
      by blast
    then show "reg_providers ?r (provider_id b) \<noteq> None"
      using inv k by (simp add: registry_inv_def providers_cover_def)
  qed
  ultimately show ?thesis using inv by (simp add: registry_inv_def provider_ok_def)
qed

lemma registry_inv_select [inv_intros]:
  "registry_inv r \<Longrightarrow> registry_inv (snd (registry_select ops now mid key rt ac m r))"
proof (cases "get_protocol_group mid (case ac of Some a \<Rightarrow> api_compatibility_str a | None \<Rightarrow> ''openai'') r")
  case (Some gi)
  assume inv: "registry_inv r"
  obtain w g' where sel: "select_with_min_priority ops now key rt ac m (group_store r ! gi) = (w, g')"
    by force
  have "group_static (group_store r ! gi) g'"
    using select_with_min_priority_static [of "group_store r ! gi" ops now key rt ac m] sel by simp
  from registry_inv_update_group [OF inv this] show ?thesis
    by (simp only: registry_select_def Let_def Some sel option.case prod.case snd_conv)
qed (simp add: registry_select_def)

lemma find_available_provider_static:
  assumes "find_available_provider now pid is bs = (w, bs')"
  shows "length bs' = length bs
       \<and> (\<forall>j < length bs. binding_static (bs' ! j) = binding_static (bs ! j)
           \<and> (breaker_inv (circuit_breaker (bs ! j)) \<longrightarrow> breaker_inv (circuit_breaker (bs' ! j))))"
  using assms
proof (induction "is" arbitrary: bs)
  case (Cons i "is")
  let ?bs1 = "bs[i := snd (is_available now (bs ! i))]"
  have one: "\<forall>j < length bs. binding_static (?bs1 ! j) = binding_static (bs ! j)
      \<and> (breaker_inv (circuit_breaker (bs ! j)) \<longrightarrow> breaker_inv (circuit_breaker (?bs1 ! j)))"
    by (auto simp: nth_list_update_idx binding_static_def is_available_inv)
  show ?case
  proof (cases "bs' = ?bs1")
    case True
    with one show ?thesis by simp
  next
    case False
    with Cons.prems have "find_available_provider now pid is ?bs1 = (w, bs')"
      by (auto simp: Let_def split: prod.splits if_splits)
    from Cons.IH [OF this] one show ?thesis by simp
  qed
qed simp

lemma registry_inv_find_in_protocols:
  "registry_inv r \<Longrightarrow> registry_inv (snd (find_in_protocols now mid pid ps r))"
proof (induction ps arbitrary: r)
  case (Cons p ps)
  show ?case
  proof (cases "get_protocol_group mid p r")
    case None
    with Cons show ?thesis by simp
  next
    case (Some gi)
    let ?g = "group_store r ! gi"
    obtain w bs' where f: "find_available_provider now pid [0..<length (upstreams ?g)] (upstreams ?g) = (w, bs')"
      by force
    have "group_static ?g (?g\<lparr>upstreams := bs'\<rparr>)"
      using find_available_provider_static [OF f] group_staticI [of bs' ?g "hash_cursor ?g"] by simp
    then have "registry_inv (update_group gi (?g\<lparr>upstreams := bs'\<rparr>) r)"
      by (rule registry_inv_update_group [OF Cons.prems])
    with Cons.IH Some f show ?thesis by (simp add: Let_def split: option.split)
  qed
qed simp

lemma registry_inv_find_by_provider_id [inv_intros]:
  "registry_inv r \<Longrightarrow> registry_inv (snd (find_by_provider_id now mid pid r))"
  unfolding find_by_provider_id_def by (rule registry_inv_find_in_protocols)

lemma registry_inv_update_provider:
  assumes "registry_inv r" "binding_static b' = binding_static (provider_store r ! pi)"
    and "breaker_inv (circuit_breaker (provider_store r ! pi)) \<longrightarrow> breaker_inv (circuit_breaker b')"
  shows "registry_inv (r\<lparr>provider_store := (provider_store r)[pi := b']\<rparr>)"
proof (cases "pi < length (provider_store r)")
  case True
  let ?bs = "(provider_store r)[pi := b']"
  have ok: "provider_ok r" using assms(1) by (simp add: registry_inv_def)
  then have "\<forall>b \<in> set ?bs. enabled b \<and> priority b = 0 \<and> binding_weight b = 1 \<and> breaker_inv (circuit_breaker b)"
    using assms(2,3) True set_update_subset_insert [of "provider_store r" pi b'] nth_mem [OF True]
    by (auto simp: provider_ok_def binding_static_def)
  moreover have "provider_id (?bs ! j) = provider_id (provider_store r ! j)" if "j < length (provider_store r)" for j
    using assms(2) that by (simp add: nth_list_update_idx binding_static_def)
  ultimately have "provider_ok (r\<lparr>provider_store := ?bs\<rparr>)"
    using ok by (simp add: provider_ok_def)
  with assms(1) show ?thesis
    by (simp add: registry_inv_def groups_ok_def providers_cover_def get_protocol_group_def)
qed (use assms(1) in \<open>simp add: list_update_beyond\<close>)

lemma registry_inv_find_for_responses [inv_intros]:
  "registry_inv r \<Longrightarrow> registry_inv (snd (find_for_responses now pid r))"
proof (cases "reg_providers r pid")
  case (Some pi)
  assume inv: "registry_inv r"
  let ?b = "provider_store r ! pi"
  have "registry_inv (r\<lparr>provider_store := (provider_store r)[pi := snd (is_available now ?b)]\<rparr>)"
    by (rule registry_inv_update_provider [OF inv]) (simp_all add: binding_static_def is_available_inv)
  then show ?thesis by (simp add: find_for_responses_def Some split: prod.split) (metis snd_conv)
qed (simp add: find_for_responses_def)

text \<open>Registering and reloading.\<close>

abbreviation store_group :: "upstream_group \<Rightarrow> registry \<Rightarrow> registry" where
  "store_group g r \<equiv> insert_group g (length (group_store r)) (r\<lparr>group_store := group_store r @ [g]\<rparr>)"

lemma store_group_groups:
  "reg_groups (store_group g r) k =
     (if \<exists>mid. group_matches g mid \<and> k = group_key mid (infer_protocol g)
      then Some (length (group_store r)) else reg_groups r k)"
  by (auto simp: insert_group_groups)

lemma groups_ok_store_group:
  assumes ok: "groups_ok r" and wf: "group_wf g"
  shows "groups_ok (store_group g r)"
proof -
  let ?gi = "length (group_store r)" and ?r = "store_group g r"
  have gr: "gi < length (group_store ?r) \<and> (\<exists>mid. group_matches (group_store ?r ! gi) mid
          \<and> k = group_key mid (infer_protocol (group_store ?r ! gi)))"
    if "reg_groups ?r k = Some gi" for k gi
    using that ok by (fastforce simp: store_group_groups nth_append groups_ok_def split: if_splits)
  have ids: "\<exists>a. get_protocol_group mid (api_compatibility_str a) ?r \<noteq> None"
    if "mid \<in> reg_model_ids ?r" for mid
  proof (cases "mid \<in> reg_model_ids r")
    case True
    then obtain a where "get_protocol_group mid (api_compatibility_str a) r \<noteq> None"
      using ok unfolding groups_ok_def by blast
    then show ?thesis by (auto simp: get_protocol_group_def store_group_groups intro!: exI [of _ a])
  next
    case False
    then have "group_matches g mid" using that by (simp add: group_matches_def model_matches_def)
    then have "get_protocol_group mid (infer_protocol g) ?r = Some ?gi"
      by (auto simp: get_protocol_group_def store_group_groups)
    moreover have "\<exists>a. infer_protocol g = api_compatibility_str a"
      using wf by (cases "upstreams g") (auto simp: infer_protocol_def group_wf_def)
    then obtain a where "infer_protocol g = api_compatibility_str a" ..
    ultimately show ?thesis by (intro exI [of _ a]) simp
  qed
  show ?thesis
    unfolding groups_ok_def using gr ids ok wf by (auto simp: groups_ok_def)
qed

lemma groups_ok_providers:
  "reg_groups r' = reg_groups r \<Longrightarrow> group_store r' = group_store r \<Longrightarrow> reg_model_ids r' = reg_model_ids r
     \<Longrightarrow> groups_ok r' = groups_ok r"
  by (simp add: groups_ok_def get_protocol_group_def)

lemma registry_inv_register [inv_intros]:
  assumes inv: "registry_inv r" and wf: "group_wf g"
  shows "registry_inv (register_group now g r)"
proof -
  let ?r2 = "store_group g r" and ?r = "register_group now g r"
  have eq: "?r = fold (add_provider now) (upstreams g) ?r2" by (simp add: register_group_def Let_def)
  have "groups_ok ?r2" using inv wf by (intro groups_ok_store_group) (auto simp: registry_inv_def)
  then have ok: "groups_ok ?r" using groups_ok_providers [of ?r ?r2] by (simp add: eq)
  have "provider_ok ?r2" using inv by (simp add: registry_inv_def provider_ok_def)
  then have prov: "provider_ok ?r" by (simp add: eq fold_add_provider_ok)
  have dom: "dom (reg_providers ?r) = dom (reg_providers r) \<union> provider_id ` set (upstreams g)"
    by (simp add: eq fold_add_provider_dom)
  have "providers_cover ?r"
    unfolding providers_cover_def
  proof (intro ballI)
    fix k b assume k: "k \<in> ran (reg_groups ?r)" and b: "b \<in> set (upstreams (group_store ?r ! k))"
    have "k = length (group_store r) \<or> k \<in> ran (reg_groups r) \<and> k < length (group_store r)"
      using k inv by (auto simp: eq ran_def store_group_groups registry_inv_def groups_ok_def split: if_splits)
    then have "provider_id b \<in> dom (reg_providers ?r)"
      using b inv by (auto simp: eq fold_add_provider_dom nth_append registry_inv_def providers_cover_def)
    then show "reg_providers ?r (provider_id b) \<noteq> None" by auto
  qed
  with ok prov show ?thesis by (simp add: registry_inv_def)
qed

lemma fold_store_group:
  assumes "groups_ok r" "\<forall>g \<in> set gs. group_wf g"
  shows "groups_ok (fold store_group gs r)
       \<and> provider_store (fold store_group gs r) = provider_store r
       \<and> (\<forall>k gi. reg_groups (fold store_group gs r) k = Some gi \<longrightarrow>
            reg_groups r k = Some gi \<or> group_store (fold store_group gs r) ! gi \<in> set gs)"
  using assms
proof (induction gs rule: rev_induct)
  case (snoc g gs)
  let ?r = "fold store_group gs r"
  from snoc have IH: "groups_ok ?r" "provider_store ?r = provider_store r"
    "\<And>k gi. reg_groups ?r k = Some gi \<Longrightarrow> reg_groups r k = Some gi \<or> group_store ?r ! gi \<in> set gs"
    by auto
  have "reg_groups r k = Some gi \<or> group_store (store_group g ?r) ! gi \<in> set (gs @ [g])"
    if "reg_groups (store_group g ?r) k = Some gi" for k gi
  proof (cases "gi = length (group_store ?r)")
    case False
    then have "reg_groups ?r k = Some gi" using that by (auto simp: store_group_groups split: if_splits)
    moreover from this have "gi < length (group_store ?r)" using IH(1) by (simp add: groups_ok_def)
    ultimately show ?thesis using IH(3) [of k gi] by (auto simp: nth_append)
  qed simp
  then show ?case using IH(1,2) groups_ok_store_group [OF IH(1), of g] snoc.prems by simp
qed simp

lemma reload_all_eq:
  "reload_all now gs r =
     fold (add_provider now) (concat (map upstreams gs))
       ((fold store_group gs (r\<lparr>reg_groups := Map.empty, reg_model_ids := {}\<rparr>))\<lparr>reg_providers := Map.empty\<rparr>)"
  by (simp add: reload_all_def build_provider_map_eq)

lemma groups_ok_empty: "\<forall>g \<in> set (group_store r). group_wf g \<Longrightarrow>
   groups_ok (r\<lparr>reg_groups := Map.empty, reg_model_ids := {}\<rparr>)"
  by (simp add: groups_ok_def)

lemma registry_inv_reload [inv_intros]:
  assumes inv: "registry_inv r" and wf: "\<forall>g \<in> set gs. group_wf g"
  shows "registry_inv (reload_all now gs r)"
proof -
  let ?init = "r\<lparr>reg_groups := Map.empty, reg_model_ids := {}\<rparr>"
  let ?base = "(fold store_group gs ?init)\<lparr>reg_providers := Map.empty\<rparr>" and ?r = "reload_all now gs r"
  have "groups_ok ?init" using inv by (intro groups_ok_empty) (simp add: registry_inv_def groups_ok_def)
  note f = fold_store_group [OF this wf]
  have ok: "groups_ok ?r"
    using f groups_ok_providers [of ?r "fold store_group gs ?init"] by (simp add: reload_all_eq)
  have "provider_ok ?base" using inv f by (simp add: registry_inv_def provider_ok_def)
  then have prov: "provider_ok ?r" by (simp add: reload_all_eq fold_add_provider_ok)
  have "providers_cover ?r"
    unfolding providers_cover_def
  proof (intro ballI)
    fix k b assume "k \<in> ran (reg_groups ?r)" and b: "b \<in> set (upstreams (group_store ?r ! k))"
    then have "group_store ?r ! k \<in> set gs" using f by (auto simp: ran_def reload_all_eq)
    with b have "provider_id b \<in> dom (reg_providers ?r)" by (auto simp: reload_all_eq fold_add_provider_dom)
    then show "reg_providers ?r (provider_id b) \<noteq> None" by auto
  qed
  with ok prov show ?thesis by (simp add: registry_inv_def)
qed

text \<open>After a reload a key leads to the last group that serves it.\<close>

lemma reload_all_lookup:
  assumes "CHR 0x00 \<notin> set p" "\<forall>g \<in> set gs. group_wf g" "groups_ok r"
  shows "case get_protocol_group mid p (fold store_group gs (r\<lparr>reg_groups := Map.empty, reg_model_ids := {}\<rparr>)) of
           None \<Rightarrow> \<forall>g \<in> set gs. \<not> serves g mid p
         | Some gi \<Rightarrow> \<exists>xs g ys. gs = xs @ g # ys \<and> serves g mid p \<and> (\<forall>h \<in> set ys. \<not> serves h mid p)
             \<and> group_store (fold store_group gs (r\<lparr>reg_groups := Map.empty, reg_model_ids := {}\<rparr>)) ! gi = g"
  using assms(2)
proof (induction gs rule: rev_induct)
  case Nil
  show ?case by (simp add: get_protocol_group_def)
next
  case (snoc g gs)
  let ?r = "fold store_group gs (r\<lparr>reg_groups := Map.empty, reg_model_ids := {}\<rparr>)"
  have "groups_ok (r\<lparr>reg_groups := Map.empty, reg_model_ids := {}\<rparr>)"
    using assms(3) by (intro groups_ok_empty) (simp add: groups_ok_def)
  from fold_store_group [OF this, of gs] snoc.prems have ok: "groups_ok ?r" by simp
  have look: "get_protocol_group mid p (store_group g ?r) =
      (if serves g mid p then Some (length (group_store ?r)) else get_protocol_group mid p ?r)"
    using insert_group_lookup [OF assms(1), of mid g "length (group_store ?r)"
        "?r\<lparr>group_store := group_store ?r @ [g]\<rparr>"] by (simp add: get_protocol_group_def)
  show ?case
  proof (cases "serves g mid p")
    case True
    have "\<exists>xs g' ys. gs @ [g] = xs @ g' # ys \<and> serves g' mid p \<and> (\<forall>h \<in> set ys. \<not> serves h mid p)
             \<and> group_store (store_group g ?r) ! length (group_store ?r) = g'"
      by (rule exI [of _ gs], rule exI [of _ g], rule exI [of _ "[]"]) (simp add: True)
    then show ?thesis using True look by simp
  next
    case False
    show ?thesis
    proof (cases "get_protocol_group mid p ?r")
      case None
      with False look snoc show ?thesis by simp
    next
      case (Some gi)
      then have "gi < length (group_store ?r)" using ok by (simp add: groups_ok_def get_protocol_group_def)
      moreover obtain xs g' ys where "gs = xs @ g' # ys" "serves g' mid p" "\<forall>h \<in> set ys. \<not> serves h mid p"
        "group_store ?r ! gi = g'"
        using snoc.IH snoc.prems Some by (simp only: option.case set_append ball_Un) blast
      ultimately have "\<exists>xs g' ys. gs @ [g] = xs @ g' # ys \<and> serves g' mid p \<and> (\<forall>h \<in> set ys. \<not> serves h mid p)
             \<and> group_store (store_group g ?r) ! gi = g'"
        using False by (intro exI [of _ xs] exI [of _ g'] exI [of _ "ys @ [g]"]) (simp add: nth_append)
      then show ?thesis using False look Some by simp
    qed
  qed
qed

section \<open>Reachable registries\<close>

text \<open>
  Everything the gateway does to its registry: loading groups, selecting in the three ways, and
  recording the outcome of a request on an upstream (any update of a binding's breaker that keeps
  the breaker's invariant).
\<close>

inductive registry_reachable :: "registry \<Rightarrow> bool" where
  rr_new: "registry_reachable registry_new"
| rr_register: "registry_reachable r \<Longrightarrow> group_wf g \<Longrightarrow> registry_reachable (register_group now g r)"
| rr_reload: "registry_reachable r \<Longrightarrow> \<forall>g \<in> set gs. group_wf g \<Longrightarrow> registry_reachable (reload_all now gs r)"
| rr_select: "registry_reachable r \<Longrightarrow>
     registry_reachable (snd (registry_select (ops :: int hash_ops) now mid key rt ac m r))"
| rr_find: "registry_reachable r \<Longrightarrow> registry_reachable (snd (find_by_provider_id now mid pid r))"
| rr_responses: "registry_reachable r \<Longrightarrow> registry_reachable (snd (find_for_responses now pid r))"
| rr_outcome: "registry_reachable r \<Longrightarrow>
     registry_reachable (update_upstream u (\<lambda>b. b\<lparr>circuit_breaker := breaker_exec now c (circuit_breaker b)\<rparr>) r)"

lemma registry_inv_update_upstream [inv_intros]:
  assumes inv: "registry_inv r"
  shows "registry_inv (update_upstream u (\<lambda>b. b\<lparr>circuit_breaker := breaker_exec now c (circuit_breaker b)\<rparr>) r)"
proof (cases u)
  case (GroupUpstream gi i)
  let ?g = "group_store r ! gi"
  let ?f = "\<lambda>b. b\<lparr>circuit_breaker := breaker_exec now c (circuit_breaker b)\<rparr>"
  have "group_static ?g (?g\<lparr>upstreams := (upstreams ?g)[i := ?f (upstreams ?g ! i)]\<rparr>)"
    by (rule group_static_upstreamsI) (auto simp: nth_list_update_idx binding_static_def inv_exec)
  from registry_inv_update_group [OF inv this] show ?thesis
    by (simp add: update_upstream_def GroupUpstream Let_def)
next
  case (ProviderUpstream pi)
  show ?thesis
    unfolding update_upstream_def ProviderUpstream upstream_ref.case
    by (rule registry_inv_update_provider [OF inv]) (simp_all add: binding_static_def inv_exec)
qed

lemma reload_all_providers:
  assumes "provider_ok r"
  shows "case reg_providers (reload_all now gs r) pid of
           None \<Rightarrow> pid \<notin> provider_id ` set (concat (map upstreams gs))
         | Some pi \<Rightarrow> \<exists>xs b ys. concat (map upstreams gs) = xs @ b # ys \<and> provider_id b = pid
             \<and> pid \<notin> provider_id ` set xs
             \<and> provider_store (reload_all now gs r) ! pi = provider_binding now (node b)"
proof -
  let ?base = "(fold store_group gs (r\<lparr>reg_groups := Map.empty, reg_model_ids := {}\<rparr>))\<lparr>reg_providers := Map.empty\<rparr>"
  have "provider_store ?base = provider_store r"
    by (induction gs rule: rev_induct) simp_all
  with assms have ok: "provider_ok ?base" by (simp add: provider_ok_def)
  show ?thesis
  proof (cases "reg_providers (reload_all now gs r) pid")
    case None
    then have "pid \<notin> dom (reg_providers (fold (add_provider now) (concat (map upstreams gs)) ?base))"
      by (simp add: reload_all_eq domIff)
    then show ?thesis using None by (simp only: fold_add_provider_dom option.case) simp
  next
    case (Some pi)
    with fold_add_provider_first [OF ok, of pid now "concat (map upstreams gs)" pi] show ?thesis
      by (simp add: reload_all_eq)
  qed
qed

lemma reload_all_model_ids: "reg_model_ids (reload_all now gs r) = (\<lambda>g. model_id (model g)) ` set gs"
proof -
  have "reg_model_ids (fold store_group gs q) = reg_model_ids q \<union> (\<lambda>g. model_id (model g)) ` set gs" for q
    by (induction gs arbitrary: q) auto
  then show ?thesis by (simp add: reload_all_eq)
qed

section \<open>Properties\<close>

text \<open>
  C12. Whatever the gateway does to the registry, it stays consistent: every key leads to a stored,
  well-formed group that serves exactly that model (by id or alias) and protocol, every listed model
  id can be looked up, every credential of a registered group has a provider entry of that name,
  and provider entries are enabled primary bindings with legal breakers.
\<close>

theorem registry_consistent:
  assumes "registry_reachable r"
  shows "registry_inv r"
  using assms by induction (auto intro: inv_intros registry_inv_new)

lemma registry_consistent_witness:
  "registry_inv (register_group 7 example_group registry_new)"
proof -
  have "breaker_inv (breaker_new 0)" unfolding breaker_new_def by (rule inv_created)
  then have "group_wf example_group"
    by (simp add: group_wf_def example_group_def example_binding_def)
  from registry_consistent [OF rr_register [OF rr_new this]] show ?thesis .
qed

text \<open>
  C21. A reload replaces everything: for each protocol (a text without NUL) a model id leads to the
  last loaded group that serves it and to nothing when no loaded group does; a provider name leads
  to a fresh binding over the node of the first loaded binding with that credential, whose breaker
  is new; the listed model ids are those of the loaded groups, sorted and without repetition.
\<close>

theorem reload_replaces_all:
  assumes "registry_inv r" "\<forall>g \<in> set gs. group_wf g" "CHR 0x00 \<notin> set p" "r' = reload_all now gs r"
  shows "(case get_protocol_group mid p r' of
           None \<Rightarrow> \<forall>g \<in> set gs. \<not> serves g mid p
         | Some gi \<Rightarrow> \<exists>xs g ys. gs = xs @ g # ys \<and> serves g mid p \<and> (\<forall>h \<in> set ys. \<not> serves h mid p)
             \<and> group_store r' ! gi = g)
       \<and> (case reg_providers r' pid of
           None \<Rightarrow> pid \<notin> provider_id ` set (concat (map upstreams gs))
         | Some pi \<Rightarrow> \<exists>xs b ys. concat (map upstreams gs) = xs @ b # ys \<and> provider_id b = pid
             \<and> pid \<notin> provider_id ` set xs \<and> node (provider_store r' ! pi) = node b
             \<and> circuit_breaker (provider_store r' ! pi) = breaker_new now)
       \<and> set (all_model_ids r') = (\<lambda>g. model_id (model g)) ` set gs
       \<and> sorted (all_model_ids r') \<and> distinct (all_model_ids r')"
proof -
  let ?base = "fold store_group gs (r\<lparr>reg_groups := Map.empty, reg_model_ids := {}\<rparr>)"
  have eq: "get_protocol_group mid p r' = get_protocol_group mid p ?base" "group_store r' = group_store ?base"
    by (simp_all add: assms(4) reload_all_eq get_protocol_group_def)
  have ok: "groups_ok r" "provider_ok r" using assms(1) by (simp_all add: registry_inv_def)
  have ids: "set (all_model_ids r') = (\<lambda>g. model_id (model g)) ` set gs"
    by (simp add: all_model_ids_def assms(4) reload_all_model_ids)
  have sorted: "sorted (all_model_ids r') \<and> distinct (all_model_ids r')"
    by (simp add: all_model_ids_def)
  have prov: "case reg_providers r' pid of
           None \<Rightarrow> pid \<notin> provider_id ` set (concat (map upstreams gs))
         | Some pi \<Rightarrow> \<exists>xs b ys. concat (map upstreams gs) = xs @ b # ys \<and> provider_id b = pid
             \<and> pid \<notin> provider_id ` set xs \<and> node (provider_store r' ! pi) = node b
             \<and> circuit_breaker (provider_store r' ! pi) = breaker_new now"
  proof (cases "reg_providers r' pid")
    case None
    with reload_all_providers [OF ok(2), where now = now and gs = gs and pid = pid]
    show ?thesis by (simp add: assms(4))
  next
    case (Some pi)
    with reload_all_providers [OF ok(2), where now = now and gs = gs and pid = pid]
    obtain xs b ys where "concat (map upstreams gs) = xs @ b # ys" "provider_id b = pid"
      "pid \<notin> provider_id ` set xs" "provider_store r' ! pi = provider_binding now (node b)"
      unfolding assms(4) by (simp only: option.case) blast
    then show ?thesis unfolding Some option.case by (intro exI [of _ xs] exI [of _ b] exI [of _ ys]) simp
  qed
  show ?thesis
    using reload_all_lookup [OF assms(3,2) ok(1), where mid = mid] prov ids sorted by (simp only: eq)
qed

lemma reload_replaces_all_witness:
  "all_model_ids (reload_all 7 [example_group] registry_new) = [''m'']"
proof -
  have "breaker_inv (breaker_new 0)" unfolding breaker_new_def by (rule inv_created)
  then have wf: "\<forall>g \<in> set [example_group]. group_wf g"
    by (simp add: group_wf_def example_group_def example_binding_def)
  have "set (all_model_ids (reload_all 7 [example_group] registry_new)) = {''m''}
      \<and> distinct (all_model_ids (reload_all 7 [example_group] registry_new))"
    using reload_replaces_all [OF registry_inv_new wf, of "''openai''"]
    by (simp add: example_group_def model_card_new_def)
  then show ?thesis
    by (cases "all_model_ids (reload_all 7 [example_group] registry_new)") (auto simp: subset_singleton_iff)
qed

lemma registry_select_chosen:
  assumes "registry_inv r"
    and "registry_select ops now mid key rt (Some ac) m r = (Some u, r')"
  shows "\<exists>gi i. u = GroupUpstream gi i \<and> gi < length (group_store r)
       \<and> serves (group_store r ! gi) mid (api_compatibility_str ac)
       \<and> i < length (upstreams (group_store r ! gi))
       \<and> (let b = upstreams (group_store r ! gi) ! i in
            m \<le> priority b \<and> fst (is_available now b) \<and> api_compatibility_of b = ac
          \<and> opt_eq rt (runtime_type_of b))"
proof -
  obtain gi where gi: "get_protocol_group mid (api_compatibility_str ac) r = Some gi"
    using assms(2) by (auto simp: registry_select_def split: option.splits)
  let ?g = "group_store r ! gi"
  obtain w g' where sel: "select_with_min_priority ops now key rt (Some ac) m ?g = (w, g')" by force
  then obtain i where i: "w = Some i" "u = GroupUpstream gi i"
    using assms(2) gi by (auto simp: registry_select_def Let_def)
  have "gi < length (group_store r) \<and> (\<exists>mid'. group_matches ?g mid'
      \<and> group_key mid (api_compatibility_str ac) = group_key mid' (infer_protocol ?g))"
    using assms(1) gi by (auto simp: registry_inv_def groups_ok_def get_protocol_group_def)
  then have "gi < length (group_store r)" "serves ?g mid (api_compatibility_str ac)"
    using group_key_inject [OF api_compatibility_str_no_nul infer_protocol_no_nul]
    by (auto simp: serves_def)
  moreover have "tier_choice now rt (Some ac) {p. m \<le> p} (upstreams ?g) (Some i)"
    using select_with_min_priority_choice [of now rt "Some ac" m ?g ops key] sel i by simp
  ultimately show ?thesis
    using i(2) by (auto simp: tier_choice_def eligible_def opt_eq_def Let_def)
qed

text \<open>
  What the registry selects for a request serves it: the upstream belongs to a group registered
  for the model (id or alias) and the requested protocol, it is available, speaks the requested
  protocol and runtime, and lies in a tier of at least \<open>min_priority\<close>.
\<close>

lemma registry_select_serves:
  assumes "registry_inv r"
    and "registry_select ops now mid key rt (Some ac) m r = (Some u, r')"
  shows "\<exists>gi i. u = GroupUpstream gi i \<and> gi < length (group_store r)
       \<and> serves (group_store r ! gi) mid (api_compatibility_str ac)
       \<and> i < length (upstreams (group_store r ! gi))
       \<and> (let b = upstreams (group_store r ! gi) ! i in
            m \<le> priority b \<and> fst (is_available now b) \<and> api_compatibility_of b = ac
          \<and> opt_eq rt (runtime_type_of b))"
  using assms by (rule registry_select_chosen)

lemma example_like_lookup:
  assumes "model g = model example_group" "upstreams g = upstreams example_group"
  shows "get_protocol_group ''m'' ''openai'' (register_group now g registry_new) = Some 0"
    and "group_store (register_group now g registry_new) ! 0 = g"
  using assms insert_group_lookup [of "''openai''" "''m''" g 0 "registry_new\<lparr>group_store := [g]\<rparr>"]
  by (simp_all add: register_group_def get_protocol_group_def registry_new_def serves_def
      group_matches_def model_matches_def example_group_def model_card_new_def infer_protocol_def
      example_binding_def default_node_def default_profile_def)

lemmas example_group_lookup = example_like_lookup [of example_group, OF refl refl]

lemma registry_select_serves_witness:
  "let r = register_group 7 example_group registry_new;
       b = upstreams (group_store r ! 0) ! 1
   in fst (registry_select example_hash_ops 0 ''m'' None None (Some OpenAiApi) 0 r) = Some (GroupUpstream 0 1)
    \<and> api_compatibility_of b = OpenAiApi"
proof -
  let ?r = "register_group 7 example_group registry_new"
  have "breaker_inv (breaker_new 0)" unfolding breaker_new_def by (rule inv_created)
  then have "group_wf example_group"
    by (simp add: group_wf_def example_group_def example_binding_def)
  then have inv: "registry_inv ?r" by (intro registry_inv_register registry_inv_new)
  have sel: "fst (registry_select example_hash_ops 0 ''m'' None None (Some OpenAiApi) 0 ?r) = Some (GroupUpstream 0 1)"
  proof -
    note look = example_group_lookup [of 7]
    have "tier_choice 0 None (Some OpenAiApi) {p. 0 \<le> p} (upstreams example_group)
        (fst (select_with_min_priority example_hash_ops 0 None None (Some OpenAiApi) 0 example_group))"
      by (rule select_with_min_priority_choice)
    then have "fst (select_with_min_priority example_hash_ops 0 None None (Some OpenAiApi) 0 example_group) = Some 1"
      by (auto simp: tier_choice_def example_group_def example_group_eligible less_Suc_eq split: option.splits)
    then show ?thesis by (auto simp: registry_select_def look split: prod.split)
  qed
  obtain r' where "registry_select example_hash_ops 0 ''m'' None None (Some OpenAiApi) 0 ?r
      = (Some (GroupUpstream 0 1), r')" using sel by (metis prod.collapse)
  from registry_select_serves [OF inv this] sel show ?thesis by (auto simp: Let_def)
qed

end
