(* ===== verification/Registry_Evolution.thy ===== *)
theory Registry_Evolution
  imports Registry
begin

text \<open>
  What handling requests may change of a registry: the breakers, running weights and cursors of its
  groups, and nothing a group was configured with.  The relation \<open>evolves\<close> says so; the facts a
  request relies on (\<open>assigned\<close>) do not change along it.  The locale \<open>upstream_picker\<close> is
  the contract of the two ways a handler picks an upstream, interpreted on both.
\<close>

section \<open>Evolution\<close>

definition evolves :: "registry \<Rightarrow> registry \<Rightarrow> bool" where
  "evolves r r' \<longleftrightarrow>
     reg_groups r' = reg_groups r \<and> reg_model_ids r' = reg_model_ids r
   \<and> reg_providers r' = reg_providers r \<and> provider_store r' = provider_store r
   \<and> length (group_store r') = length (group_store r)
   \<and> (\<forall>gi < length (group_store r). group_static (group_store r ! gi) (group_store r' ! gi))"

lemma evolves_refl [simp]: "evolves r r"
  by (simp add: evolves_def group_static_refl)

lemma evolves_trans: "evolves r r' \<Longrightarrow> evolves r' r'' \<Longrightarrow> evolves r r''"
  unfolding evolves_def by (auto intro: group_static_trans)

lemma evolves_update_group:
  "group_static (group_store r ! gi) g' \<Longrightarrow> evolves r (update_group gi g' r)"
  by (simp add: evolves_def update_group_nth group_static_refl)

lemma group_static_outcome:
  "group_static g (g\<lparr>upstreams := (upstreams g)[i :=
      (upstreams g ! i)\<lparr>circuit_breaker := breaker_exec now c (circuit_breaker (upstreams g ! i))\<rparr>]\<rparr>)"
  by (rule group_static_upstreamsI) (auto simp: nth_list_update_idx binding_static_def inv_exec)

lemma evolves_outcome:
  "evolves r (update_upstream (GroupUpstream gi i)
      (\<lambda>b. b\<lparr>circuit_breaker := breaker_exec now c (circuit_breaker b)\<rparr>) r)"
  by (simp add: update_upstream_def Let_def evolves_update_group group_static_outcome)

lemma evolves_select: "evolves r (snd (registry_select ops now mid key rt ac m r))"
proof (cases "get_protocol_group mid (case ac of Some a \<Rightarrow> api_compatibility_str a | None \<Rightarrow> ''openai'') r")
  case (Some gi)
  obtain w g' where sel: "select_with_min_priority ops now key rt ac m (group_store r ! gi) = (w, g')"
    by force
  have "group_static (group_store r ! gi) g'"
    using select_with_min_priority_static [of "group_store r ! gi" ops now key rt ac m] sel by simp
  from evolves_update_group [OF this] show ?thesis
    by (simp only: registry_select_def Let_def Some sel option.case prod.case snd_conv)
qed (simp add: registry_select_def)

lemma evolves_find_in_protocols: "evolves r (snd (find_in_protocols now mid pid ps r))"
proof (induction ps arbitrary: r)
  case (Cons p ps)
  show ?case
  proof (cases "get_protocol_group mid p r")
    case None
    with Cons show ?thesis by simp
  next
    case (Some gi)
    let ?g = "group_store r ! gi"
    obtain w bs' where f: "find_available_provider now pid [0..<length (upstreams ?g)] (upstreams ?g) = (w, bs')"
      by force
    have "group_static ?g (?g\<lparr>upstreams := bs'\<rparr>)"
      using find_available_provider_static [OF f] group_staticI [of bs' ?g "hash_cursor ?g"] by simp
    then have "evolves r (update_group gi (?g\<lparr>upstreams := bs'\<rparr>) r)" by (rule evolves_update_group)
    with evolves_trans [OF _ Cons.IH] Some f show ?thesis by (simp add: Let_def split: option.split)
  qed
qed simp

lemma evolves_find_by_provider_id: "evolves r (snd (find_by_provider_id now mid pid r))"
  unfolding find_by_provider_id_def by (rule evolves_find_in_protocols)

section \<open>What a picked upstream was configured with\<close>

text \<open>
  \<open>u\<close> is a binding, enabled and healthy, of a stored group registered for \<open>mid\<close> under one of
  the protocols \<open>ps\<close>, and satisfies \<open>P\<close>, a condition on its node and its tier.
\<close>

definition assigned ::
    "string \<Rightarrow> string set \<Rightarrow> (upstream_node \<Rightarrow> u8 \<Rightarrow> bool) \<Rightarrow> registry \<Rightarrow> upstream_ref \<Rightarrow> bool" where
  "assigned mid ps P r u \<longleftrightarrow>
     (\<exists>gi i. u = GroupUpstream gi i \<and> gi < length (group_store r) \<and> i < length (upstreams (group_store r ! gi))
        \<and> (\<exists>p \<in> ps. serves (group_store r ! gi) mid p)
        \<and> (let b = upstreams (group_store r ! gi) ! i
           in enabled b \<and> healthy (node b) \<and> P (node b) (priority b)))"

lemma group_static_nth:
  assumes "group_static g g'" "i < length (upstreams g)"
  shows "i < length (upstreams g')" "node (upstreams g' ! i) = node (upstreams g ! i)"
    "enabled (upstreams g' ! i) = enabled (upstreams g ! i)"
    "priority (upstreams g' ! i) = priority (upstreams g ! i)"
proof -
  have m: "map binding_static (upstreams g') = map binding_static (upstreams g)"
    using assms(1) by (simp add: group_static_def)
  then have l: "length (upstreams g') = length (upstreams g)" by (rule map_eq_imp_length_eq)
  with assms(2) show i: "i < length (upstreams g')" by simp
  from m have "binding_static (upstreams g' ! i) = binding_static (upstreams g ! i)"
    using i assms(2) by (metis nth_map)
  then show "node (upstreams g' ! i) = node (upstreams g ! i)"
    "enabled (upstreams g' ! i) = enabled (upstreams g ! i)"
    "priority (upstreams g' ! i) = priority (upstreams g ! i)"
    by (simp_all add: binding_static_def)
qed

lemma group_static_serves: "group_static g g' \<Longrightarrow> serves g' mid p = serves g mid p"
  by (simp add: serves_def group_static_infer group_static_matches)

lemma group_static_length: "group_static g g' \<Longrightarrow> length (upstreams g') = length (upstreams g)"
  unfolding group_static_def by (metis length_map)

lemma evolves_at:
  assumes "evolves r r'" "gi < length (group_store r)"
  shows "length (upstreams (group_store r' ! gi)) = length (upstreams (group_store r ! gi))"
    and "serves (group_store r' ! gi) mid p = serves (group_store r ! gi) mid p"
    and "i < length (upstreams (group_store r ! gi)) \<Longrightarrow>
           node (upstreams (group_store r' ! gi) ! i) = node (upstreams (group_store r ! gi) ! i)
         \<and> enabled (upstreams (group_store r' ! gi) ! i) = enabled (upstreams (group_store r ! gi) ! i)
         \<and> priority (upstreams (group_store r' ! gi) ! i) = priority (upstreams (group_store r ! gi) ! i)"
proof -
  from assms have st: "group_static (group_store r ! gi) (group_store r' ! gi)" by (simp add: evolves_def)
  then show "length (upstreams (group_store r' ! gi)) = length (upstreams (group_store r ! gi))"
    and "serves (group_store r' ! gi) mid p = serves (group_store r ! gi) mid p"
    by (rule group_static_length, rule group_static_serves)
  assume "i < length (upstreams (group_store r ! gi))"
  from group_static_nth [OF st this]
  show "node (upstreams (group_store r' ! gi) ! i) = node (upstreams (group_store r ! gi) ! i)
         \<and> enabled (upstreams (group_store r' ! gi) ! i) = enabled (upstreams (group_store r ! gi) ! i)
         \<and> priority (upstreams (group_store r' ! gi) ! i) = priority (upstreams (group_store r ! gi) ! i)"
    by simp
qed

lemma evolves_assigned: "evolves r r' \<Longrightarrow> assigned mid ps P r' u = assigned mid ps P r u"
  unfolding assigned_def Let_def
proof (intro ex_cong1 conj_cong refl)
  assume e: "evolves r r'"
  then show l: "gi < length (group_store r') \<longleftrightarrow> gi < length (group_store r)" for gi
    by (simp add: evolves_def)
  fix gi i assume "gi < length (group_store r)"
  note at = evolves_at [OF e this]
  show "i < length (upstreams (group_store r' ! gi)) \<longleftrightarrow> i < length (upstreams (group_store r ! gi))"
    "(\<exists>p \<in> ps. serves (group_store r' ! gi) mid p) = (\<exists>p \<in> ps. serves (group_store r ! gi) mid p)"
    by (simp_all only: at(1,2))
  assume "i < length (upstreams (group_store r ! gi))"
  from at(3) [OF this]
  show "enabled (upstreams (group_store r' ! gi) ! i) = enabled (upstreams (group_store r ! gi) ! i)"
    "healthy (node (upstreams (group_store r' ! gi) ! i)) = healthy (node (upstreams (group_store r ! gi) ! i))"
    "P (node (upstreams (group_store r' ! gi) ! i)) (priority (upstreams (group_store r' ! gi) ! i))
     = P (node (upstreams (group_store r ! gi) ! i)) (priority (upstreams (group_store r ! gi) ! i))"
    by simp_all
qed

lemma evolves_node: "evolves r r' \<Longrightarrow> assigned mid ps P r u \<Longrightarrow> node (deref r' u) = node (deref r u)"
  by (auto simp: assigned_def deref_def evolves_at(3))

lemma registry_select_assigned:
  assumes "registry_inv r" "registry_select ops now mid key rt (Some ac) m r = (Some u, r')"
  shows "assigned mid {api_compatibility_str ac}
           (\<lambda>n p. m \<le> p \<and> profile_api_compatibility (profile n) = ac \<and> opt_eq rt (profile_runtime_type (profile n))) r u"
  using registry_select_chosen [OF assms]
  by (auto simp: assigned_def Let_def is_available_fst)

lemma find_available_provider_found:
  "find_available_provider now pid is bs = (Some i, bs') \<Longrightarrow> set is \<subseteq> {..<length bs} \<Longrightarrow>
     i \<in> set is \<and> enabled (bs ! i) \<and> healthy (node (bs ! i)) \<and> provider_id (bs ! i) = pid"
proof (induction "is" arbitrary: bs)
  case (Cons k "is")
  let ?b = "is_available now (bs ! k)"
  let ?hit = "fst ?b \<and> provider_id (bs ! k) = pid"
  have step: "find_available_provider now pid (k # is) bs =
      (if ?hit then (Some k, bs[k := snd ?b]) else find_available_provider now pid is (bs[k := snd ?b]))"
    by (simp add: case_prod_beta Let_def)
  show ?case
  proof (cases ?hit)
    case True
    with Cons.prems(1) have "i = k" unfolding step by simp
    with True show ?thesis by (simp add: is_available_fst)
  next
    case False
    with Cons.prems(1) have "find_available_provider now pid is (bs[k := snd ?b]) = (Some i, bs')"
      unfolding step by simp
    with Cons.IH [of "bs[k := snd ?b]"] Cons.prems(2) show ?thesis
      by (cases "i = k") (auto simp: nth_list_update_idx)
  qed
qed simp

lemma find_in_protocols_assigned:
  assumes "find_in_protocols now mid pid ps r = (Some u, r')" "registry_inv r"
    and "\<forall>p \<in> set ps. CHR 0x00 \<notin> set p"
  shows "assigned mid (set ps) (\<lambda>n _. cred_name (profile_credential (profile n)) = pid) r u"
  using assms
proof (induction ps arbitrary: r)
  case (Cons p ps)
  have mono: "assigned mid (set ps) Q q u \<Longrightarrow> assigned mid (set (p # ps)) Q q u" for Q q
    by (fastforce simp: assigned_def)
  show ?case
  proof (cases "get_protocol_group mid p r")
    case None
    with Cons mono show ?thesis by simp
  next
    case (Some gi)
    let ?g = "group_store r ! gi"
    obtain w bs' where f: "find_available_provider now pid [0..<length (upstreams ?g)] (upstreams ?g) = (w, bs')"
      by force
    have st: "group_static ?g (?g\<lparr>upstreams := bs'\<rparr>)"
      using find_available_provider_static [OF f] group_staticI [of bs' ?g "hash_cursor ?g"] by simp
    show ?thesis
    proof (cases w)
      case None
      with Cons.prems Some f have
        "find_in_protocols now mid pid ps (update_group gi (?g\<lparr>upstreams := bs'\<rparr>) r) = (Some u, r')"
        by (simp add: Let_def)
      from Cons.IH [OF this registry_inv_update_group [OF Cons.prems(2) st]] Cons.prems(3)
      show ?thesis
        using evolves_assigned [OF evolves_update_group [OF st]] mono by auto
    next
      case (Some i)
      with Cons.prems \<open>get_protocol_group mid p r = Some gi\<close> f have u: "u = GroupUpstream gi i"
        by (simp add: Let_def)
      have "gi < length (group_store r) \<and> (\<exists>mid'. group_matches ?g mid'
          \<and> group_key mid p = group_key mid' (infer_protocol ?g))"
        using Cons.prems(2) \<open>get_protocol_group mid p r = Some gi\<close>
        by (auto simp: registry_inv_def groups_ok_def get_protocol_group_def)
      then have "gi < length (group_store r)" "serves ?g mid p"
        using group_key_inject [OF _ infer_protocol_no_nul, of p] Cons.prems(3)
        by (auto simp: serves_def)
      with find_available_provider_found [OF f [unfolded Some]] u show ?thesis
        by (fastforce simp: assigned_def Let_def atLeast0LessThan)
    qed
  qed
qed simp

lemma find_by_provider_id_assigned:
  assumes "registry_inv r" "find_by_provider_id now mid pid r = (Some u, r')"
  shows "assigned mid {''openai'', ''anthropic''} (\<lambda>n _. cred_name (profile_credential (profile n)) = pid) r u"
  using find_in_protocols_assigned [OF assms(2) [unfolded find_by_provider_id_def] assms(1)] by simp

section \<open>References\<close>

text \<open>
  A reference to a stored binding stays good, and keeps leading to the same node, whatever requests
  and reloads do: the code holds an \<open>Arc\<close>.
\<close>

definition stored :: "registry \<Rightarrow> upstream_ref \<Rightarrow> bool" where
  "stored r u =
     (case u of
        GroupUpstream gi i \<Rightarrow> gi < length (group_store r) \<and> i < length (upstreams (group_store r ! gi))
      | ProviderUpstream pi \<Rightarrow> pi < length (provider_store r))"

definition persists :: "registry \<Rightarrow> registry \<Rightarrow> bool" where
  "persists r r' \<longleftrightarrow> (\<forall>u. stored r u \<longrightarrow> stored r' u \<and> node (deref r' u) = node (deref r u))"

lemma persistsD: "persists r r' \<Longrightarrow> stored r u \<Longrightarrow> stored r' u \<and> node (deref r' u) = node (deref r u)"
  by (simp add: persists_def)

lemma persists_refl [simp]: "persists r r"
  by (simp add: persists_def)

lemma persists_trans: "persists r r' \<Longrightarrow> persists r' r'' \<Longrightarrow> persists r r''"
  by (auto simp: persists_def)

lemma persists_evolves: "evolves r r' \<Longrightarrow> persists r r'"
  unfolding persists_def
proof (intro allI impI)
  fix u assume e: "evolves r r'" and s: "stored r u"
  show "stored r' u \<and> node (deref r' u) = node (deref r u)"
  proof (cases u)
    case (GroupUpstream gi i)
    with e s have "gi < length (group_store r)" "gi < length (group_store r')" by (simp_all add: stored_def evolves_def)
    with GroupUpstream s evolves_at [OF e] show ?thesis by (simp add: stored_def deref_def)
  next
    case (ProviderUpstream pi)
    with e s show ?thesis by (simp add: stored_def deref_def evolves_def)
  qed
qed

lemma persists_provider:
  "node b' = node (provider_store r ! pi) \<Longrightarrow> persists r (r\<lparr>provider_store := (provider_store r)[pi := b']\<rparr>)"
  unfolding persists_def stored_def deref_def
  by (auto simp: nth_list_update_idx split: upstream_ref.split)

lemma persists_outcome:
  "persists r (update_upstream u (\<lambda>b. b\<lparr>circuit_breaker := breaker_exec now c (circuit_breaker b)\<rparr>) r)"
proof (cases u)
  case (GroupUpstream gi i)
  then show ?thesis by (simp add: persists_evolves evolves_outcome)
next
  case (ProviderUpstream pi)
  then show ?thesis by (simp add: update_upstream_def persists_provider)
qed

lemma persists_append:
  "group_store r' = group_store r @ gs \<Longrightarrow> provider_store r' = provider_store r @ bs \<Longrightarrow> persists r r'"
  by (auto simp: persists_def stored_def deref_def nth_append split: upstream_ref.split)

lemma fold_add_provider_appends: "\<exists>bs. provider_store (fold (add_provider now) xs r) = provider_store r @ bs"
proof (induction xs arbitrary: r)
  case (Cons b xs)
  from Cons.IH [of "add_provider now b r"] show ?case
    by (cases "reg_providers r (provider_id b)") (auto simp: add_provider_def Let_def)
qed simp

lemma fold_store_group_appends:
  "\<exists>xs. group_store (fold store_group gs r) = group_store r @ xs \<and> provider_store (fold store_group gs r) = provider_store r"
proof (induction gs arbitrary: r)
  case (Cons g gs)
  from Cons.IH [of "store_group g r"] show ?case by auto
qed simp

lemma persists_reload: "persists r (reload_all now gs r)"
proof -
  let ?init = "r\<lparr>reg_groups := Map.empty, reg_model_ids := {}\<rparr>"
  let ?base = "(fold store_group gs ?init)\<lparr>reg_providers := Map.empty\<rparr>"
  obtain xs where xs: "group_store ?base = group_store r @ xs" "provider_store ?base = provider_store r"
    using fold_store_group_appends [of gs ?init] by auto
  obtain bs where "provider_store (fold (add_provider now) (concat (map upstreams gs)) ?base) = provider_store ?base @ bs"
    using fold_add_provider_appends by blast
  with xs show ?thesis unfolding reload_all_eq by (intro persists_append) simp_all
qed

lemma persists_find_for_responses: "persists r (snd (find_for_responses now pid r))"
proof (cases "reg_providers r pid")
  case (Some pi)
  obtain ok b' where a: "is_available now (provider_store r ! pi) = (ok, b')" by force
  then have "node b' = node (provider_store r ! pi)"
    using is_available_frame(1) [of now "provider_store r ! pi"] by simp
  with Some a show ?thesis by (simp add: find_for_responses_def persists_provider)
qed (simp add: find_for_responses_def persists_def)

section \<open>The contract of a pick\<close>

locale upstream_picker =
  fixes pick :: "nat \<Rightarrow> registry \<Rightarrow> upstream_ref option \<times> registry"
    and good :: "registry \<Rightarrow> upstream_ref \<Rightarrow> bool"
  assumes pick_evolves: "registry_inv r \<Longrightarrow> evolves r (snd (pick now r)) \<and> registry_inv (snd (pick now r))"
    and pick_good: "registry_inv r \<Longrightarrow> pick now r = (Some u, r') \<Longrightarrow> good r u"
    and good_group: "good r u \<Longrightarrow> \<exists>gi i. u = GroupUpstream gi i
           \<and> gi < length (group_store r) \<and> i < length (upstreams (group_store r ! gi))"
    and good_stable: "evolves r r' \<Longrightarrow> good r' u = good r u"
    and good_node: "evolves r r' \<Longrightarrow> good r u \<Longrightarrow> node (deref r' u) = node (deref r u)"
begin

lemma pick_step:
  assumes "evolves r0 r" "registry_inv r" "pick now r = (Some u, r')"
  shows "evolves r0 r' \<and> registry_inv r' \<and> good r0 u \<and> node (deref r' u) = node (deref r0 u)"
proof -
  from pick_evolves [OF assms(2), of now] assms(3) have e: "evolves r r'" "registry_inv r'" by simp_all
  have "good r0 u" using pick_good [OF assms(2,3)] good_stable [OF assms(1)] by simp
  moreover have "evolves r0 r'" using assms(1) e(1) by (rule evolves_trans)
  ultimately show ?thesis using e(2) good_node by blast
qed

end

text \<open>Picking by model, protocol and tier, and picking by provider.\<close>

definition model_good :: "string \<Rightarrow> api_compatibility \<Rightarrow> u8 \<Rightarrow> registry \<Rightarrow> upstream_ref \<Rightarrow> bool" where
  "model_good mid ac m =
     assigned mid {api_compatibility_str ac}
       (\<lambda>n p. m \<le> p \<and> profile_api_compatibility (profile n) = ac \<and> profile_runtime_type (profile n) = External)"

definition provider_good :: "string \<Rightarrow> string \<Rightarrow> registry \<Rightarrow> upstream_ref \<Rightarrow> bool" where
  "provider_good mid pid =
     assigned mid {''openai'', ''anthropic''} (\<lambda>n _. cred_name (profile_credential (profile n)) = pid)"

interpretation model_picker: upstream_picker
    "\<lambda>now. registry_select ops now mid key (Some External) (Some ac) m" "model_good mid ac m"
  for ops mid key ac m
proof
  show "model_good mid ac m r u" if "registry_inv r"
      "registry_select ops now mid key (Some External) (Some ac) m r = (Some u, r')" for r now u r'
    using registry_select_assigned [OF that] by (simp add: model_good_def opt_eq_def)
  show "\<exists>gi i. u = GroupUpstream gi i \<and> gi < length (group_store r) \<and> i < length (upstreams (group_store r ! gi))"
    if "model_good mid ac m r u" for r u
    using that by (auto simp: model_good_def assigned_def)
qed (simp_all add: evolves_select registry_inv_select model_good_def evolves_assigned evolves_node)

interpretation provider_picker: upstream_picker
    "\<lambda>now. find_by_provider_id now mid pid" "provider_good mid pid" for mid pid
proof
  show "\<exists>gi i. u = GroupUpstream gi i \<and> gi < length (group_store r) \<and> i < length (upstreams (group_store r ! gi))"
    if "provider_good mid pid r u" for r u
    using that by (auto simp: provider_good_def assigned_def)
qed (simp_all add: evolves_find_by_provider_id registry_inv_find_by_provider_id provider_good_def
    evolves_assigned evolves_node find_by_provider_id_assigned)

end
