(* ===== verification/Rate_Limit.thy ===== *)
theory Rate_Limit
  imports Gateway_Prelude
begin

text \<open>
  The rate-limit interface of \<^verbatim>\<open>core/src/rate_limit.rs\<close>: bucket keys, decisions, the
  trait \<open>RateLimiter\<close> as a record of operations over a limiter state, and the context that
  records token usage after a response.  The locale \<open>rate_limiter\<close> states what a client of the
  trait may rely on; \<open>Rate_Limit_Memory\<close> interprets it.  Both limiters share the textual bucket
  names, so they are defined here.
\<close>

datatype rate_limit_key =
    KeyModel string string      \<comment> \<open>API key id, model id\<close>
  | ModelBucket string          \<comment> \<open>model id\<close>
  | PrimaryTier string string   \<comment> \<open>model id, protocol\<close>

datatype rate_limit_decision = Allow | Denied u64

text \<open>A clock reading (milliseconds, \<open>i64\<close>) is an argument of each operation.\<close>

record 's limiter_ops =
  check_rpm :: "int \<Rightarrow> rate_limit_key \<Rightarrow> u32 \<Rightarrow> 's \<Rightarrow> rate_limit_decision \<times> 's"
  check_tpm :: "int \<Rightarrow> rate_limit_key \<Rightarrow> u32 \<Rightarrow> 's \<Rightarrow> rate_limit_decision \<times> 's"
  record_tokens :: "int \<Rightarrow> rate_limit_key \<Rightarrow> u32 \<Rightarrow> 's \<Rightarrow> 's"

section \<open>Bucket names\<close>

fun bucket_name :: "rate_limit_key \<Rightarrow> string" where
  "bucket_name (KeyModel api_key_id mid) = ''rl:key:'' @ api_key_id @ '':model:'' @ mid"
| "bucket_name (ModelBucket mid) = ''rl:model:'' @ mid"
| "bucket_name (PrimaryTier mid protocol) = ''rl:model:'' @ mid @ '':proto:'' @ protocol @ '':primary''"

definition rpm_key :: "rate_limit_key \<Rightarrow> string" where
  "rpm_key k =
     (case k of
        KeyModel api_key_id mid \<Rightarrow> ''rl:key:'' @ api_key_id @ '':model:'' @ mid @ '':rpm''
      | ModelBucket mid \<Rightarrow> ''rl:model:'' @ mid @ '':rpm''
      | PrimaryTier mid protocol \<Rightarrow> ''rl:model:'' @ mid @ '':proto:'' @ protocol @ '':primary:rpm'')"

definition tpm_key :: "rate_limit_key \<Rightarrow> string" where
  "tpm_key k =
     (case k of
        KeyModel api_key_id mid \<Rightarrow> ''rl:key:'' @ api_key_id @ '':model:'' @ mid @ '':tpm''
      | ModelBucket mid \<Rightarrow> ''rl:model:'' @ mid @ '':tpm''
      | PrimaryTier mid protocol \<Rightarrow> ''rl:model:'' @ mid @ '':proto:'' @ protocol @ '':primary:tpm'')"

lemma bucket_keys: "rpm_key k = bucket_name k @ '':rpm''" "tpm_key k = bucket_name k @ '':tpm''"
  by (cases k; simp add: rpm_key_def tpm_key_def)+

lemma bucket_keys_eq_iff:
  "rpm_key k = rpm_key k' \<longleftrightarrow> bucket_name k = bucket_name k'"
  "tpm_key k = tpm_key k' \<longleftrightarrow> bucket_name k = bucket_name k'"
  by (simp_all add: bucket_keys)

section \<open>Recording tokens after a response\<close>

record rate_limit_ctx =
  ctx_model_id :: string
  ctx_protocol :: string
  record_key_tpm :: bool
  record_model_tpm :: bool
  record_primary_tpm :: bool

definition ctx_record_tokens ::
    "'s limiter_ops \<Rightarrow> int \<Rightarrow> rate_limit_ctx \<Rightarrow> string \<Rightarrow> u32 \<Rightarrow> 's \<Rightarrow> 's" where
  "ctx_record_tokens L now ctx api_key_id tokens s =
     (if tokens = 0 then s
      else
        (let s1 = (if record_key_tpm ctx
                   then record_tokens L now (KeyModel api_key_id (ctx_model_id ctx)) tokens s else s);
             s2 = (if record_model_tpm ctx
                   then record_tokens L now (ModelBucket (ctx_model_id ctx)) tokens s1 else s1)
         in if record_primary_tpm ctx
            then record_tokens L now (PrimaryTier (ctx_model_id ctx) (ctx_protocol ctx)) tokens s2
            else s2))"

section \<open>The contract of a limiter\<close>

text \<open>
  A limiter shows, at a clock reading, how many requests and how many tokens count in the window of
  each bucket.  \<open>room n\<close> is the provider's invariant, with space left for \<open>n\<close> more token
  entries (the provider's token sums are machine integers).
\<close>

locale rate_limiter =
  fixes L :: "'s limiter_ops"
    and room :: "nat \<Rightarrow> 's \<Rightarrow> bool"
    and rpm_used :: "int \<Rightarrow> string \<Rightarrow> 's \<Rightarrow> nat"
    and tpm_used :: "int \<Rightarrow> string \<Rightarrow> 's \<Rightarrow> nat"
    and retry :: "'s \<Rightarrow> u64"
  assumes check_rpm_decision:
    "room n s \<Longrightarrow> fst (check_rpm L now k l s) =
       (if rpm_used now (bucket_name k) s < unat l then Allow else Denied (retry s))"
  and check_rpm_used:
    "room n s \<Longrightarrow> rpm_used now b (snd (check_rpm L now k l s)) =
       rpm_used now b s + (if b = bucket_name k \<and> rpm_used now b s < unat l then 1 else 0)"
  and check_rpm_tpm: "room n s \<Longrightarrow> tpm_used now b (snd (check_rpm L now k l s)) = tpm_used now b s"
  and check_tpm_decision:
    "room n s \<Longrightarrow> fst (check_tpm L now k l s) =
       (if tpm_used now (bucket_name k) s < unat l then Allow else Denied (retry s))"
  and check_tpm_frame:
    "room n s \<Longrightarrow> rpm_used now b (snd (check_tpm L now k l s)) = rpm_used now b s"
    "room n s \<Longrightarrow> tpm_used now b (snd (check_tpm L now k l s)) = tpm_used now b s"
  and record_tokens_used:
    "room (Suc n) s \<Longrightarrow> tpm_used now b (record_tokens L now k t s) =
       tpm_used now b s + (if b = bucket_name k then unat t else 0)"
    "room (Suc n) s \<Longrightarrow> rpm_used now b (record_tokens L now k t s) = rpm_used now b s"
  and room_ops:
    "room n s \<Longrightarrow> room n (snd (check_rpm L now k l s))"
    "room n s \<Longrightarrow> room n (snd (check_tpm L now k l s))"
    "room (Suc n) s \<Longrightarrow> room n (record_tokens L now k t s)"
  and room_less: "room (Suc n) s \<Longrightarrow> room n s"
begin

lemma record_if:
  assumes "room (Suc n) s" "s' = (if c then record_tokens L now k t s else s)"
  shows "room n s'" "rpm_used now b s' = rpm_used now b s"
    and "tpm_used now b s' = tpm_used now b s + (if c \<and> b = bucket_name k then unat t else 0)"
  using room_ops(3) [OF assms(1)] room_less [OF assms(1)] record_tokens_used [OF assms(1)] assms(2)
  by simp_all

text \<open>The context adds the tokens of a response to exactly the buckets it is told to.\<close>

lemma ctx_record_tokens_used:
  assumes "room (Suc (Suc (Suc n))) s"
  shows "tpm_used now b (ctx_record_tokens L now ctx kid t s) =
           tpm_used now b s
           + (if record_key_tpm ctx \<and> b = bucket_name (KeyModel kid (ctx_model_id ctx)) then unat t else 0)
           + (if record_model_tpm ctx \<and> b = bucket_name (ModelBucket (ctx_model_id ctx)) then unat t else 0)
           + (if record_primary_tpm ctx \<and> b = bucket_name (PrimaryTier (ctx_model_id ctx) (ctx_protocol ctx))
              then unat t else 0)"
    and "rpm_used now b (ctx_record_tokens L now ctx kid t s) = rpm_used now b s"
    and "room n (ctx_record_tokens L now ctx kid t s)"
proof -
  define s1 where "s1 = (if record_key_tpm ctx \<and> t \<noteq> 0
    then record_tokens L now (KeyModel kid (ctx_model_id ctx)) t s else s)"
  define s2 where "s2 = (if record_model_tpm ctx \<and> t \<noteq> 0
    then record_tokens L now (ModelBucket (ctx_model_id ctx)) t s1 else s1)"
  define s3 where "s3 = (if record_primary_tpm ctx \<and> t \<noteq> 0
    then record_tokens L now (PrimaryTier (ctx_model_id ctx) (ctx_protocol ctx)) t s2 else s2)"
  have eq: "ctx_record_tokens L now ctx kid t s = s3"
    by (simp add: ctx_record_tokens_def Let_def s1_def s2_def s3_def)
  note r1 = record_if [OF assms s1_def]
  note r2 = record_if [OF r1(1) s2_def]
  note r3 = record_if [OF r2(1) s3_def]
  show "room n (ctx_record_tokens L now ctx kid t s)" unfolding eq by (rule r3(1))
  show "rpm_used now b (ctx_record_tokens L now ctx kid t s) = rpm_used now b s"
    unfolding eq r3(2) r2(2) r1(2) ..
  show "tpm_used now b (ctx_record_tokens L now ctx kid t s) =
           tpm_used now b s
           + (if record_key_tpm ctx \<and> b = bucket_name (KeyModel kid (ctx_model_id ctx)) then unat t else 0)
           + (if record_model_tpm ctx \<and> b = bucket_name (ModelBucket (ctx_model_id ctx)) then unat t else 0)
           + (if record_primary_tpm ctx \<and> b = bucket_name (PrimaryTier (ctx_model_id ctx) (ctx_protocol ctx))
              then unat t else 0)"
    unfolding eq r3(3) r2(3) r1(3) by (cases "t = 0") (simp_all del: bucket_name.simps)
qed

end

section \<open>When bucket names collide\<close>

definition no_colon :: "string \<Rightarrow> bool" where
  "no_colon s \<longleftrightarrow> CHR '':'' \<notin> set s"

fun key_parts_plain :: "rate_limit_key \<Rightarrow> bool" where
  "key_parts_plain (KeyModel kid mid) \<longleftrightarrow> no_colon kid \<and> no_colon mid"
| "key_parts_plain (ModelBucket mid) \<longleftrightarrow> no_colon mid"
| "key_parts_plain (PrimaryTier mid p) \<longleftrightarrow> no_colon mid \<and> no_colon p"

lemma no_colon_takeWhile: "no_colon x \<Longrightarrow> takeWhile (\<lambda>c. c \<noteq> CHR '':'') (x @ CHR '':'' # u) = x"
  by (induction x) (auto simp: no_colon_def)

lemma no_colon_split:
  assumes "no_colon x" "no_colon y"
  shows "x @ CHR '':'' # u = y @ CHR '':'' # v \<longleftrightarrow> x = y \<and> u = v"
  using no_colon_takeWhile [OF assms(1), of u] no_colon_takeWhile [OF assms(2), of v] by auto

lemma no_colon_split_end: "no_colon x \<Longrightarrow> no_colon y \<Longrightarrow> x = y @ CHR '':'' # v \<longleftrightarrow> False"
  by (auto simp: no_colon_def)

lemma no_colon_append [simp]: "\<not> no_colon (x @ CHR '':'' # y)"
  by (simp add: no_colon_def)

lemma bucket_name_inject:
  assumes "key_parts_plain k" "key_parts_plain k'"
  shows "bucket_name k = bucket_name k' \<longleftrightarrow> k = k'"
  using assms
  by (cases k; cases k') (auto simp: no_colon_split no_colon_split_end dest: sym)

section \<open>Properties\<close>

text \<open>
  C33. Buckets are told apart by their names: for API key ids, model ids and protocols without a
  colon, two rate-limit keys share a request or token window only if they are the same key.  Ids
  with colons defeat this: the capacity bucket of a model is the model bucket of another model
  whose id spells out the suffix, and a colon moves between API key id and model id.
\<close>

theorem rate_limit_buckets_separate:
  assumes "key_parts_plain k" "key_parts_plain k'"
  shows "(rpm_key k = rpm_key k' \<longleftrightarrow> k = k') \<and> (tpm_key k = tpm_key k' \<longleftrightarrow> k = k')
       \<and> rpm_key (PrimaryTier m p) = rpm_key (ModelBucket (m @ '':proto:'' @ p @ '':primary''))
       \<and> rpm_key (KeyModel (a @ '':model:'' @ b) c) = rpm_key (KeyModel a (b @ '':model:'' @ c))"
  using bucket_name_inject [OF assms] by (simp add: bucket_keys)

lemma rate_limit_buckets_separate_witness:
  "rpm_key (KeyModel ''k1'' ''m'') \<noteq> rpm_key (KeyModel ''k2'' ''m'')
   \<and> rpm_key (PrimaryTier ''m'' ''openai'') = rpm_key (ModelBucket ''m:proto:openai:primary'')"
  using rate_limit_buckets_separate [of "KeyModel ''k1'' ''m''" "KeyModel ''k2'' ''m''" "''m''" "''openai''" "''a''" "''b''" "''c''"]
  by (simp add: no_colon_def)

end
