(* ===== verification/Rate_Limit_Memory.thy ===== *)
theory Rate_Limit_Memory
  imports Rate_Limit "HOL-Library.Signed_Division"
begin

text \<open>
  The in-process limiter of \<^verbatim>\<open>server/src/rate_limit_memory.rs\<close>.  The two \<open>DashMap\<close>s are
  partial maps from bucket names to windows, oldest entry first; timestamps are \<open>i64\<close>
  milliseconds, modelled as integers (a clock reading is far from the ends of \<open>i64\<close>).  Each
  operation is one step here; \<open>Rate_Limit_Races\<close> cuts them at the locks, where the race that the
  source documents at \<open>cleanup_stale\<close> is.
\<close>

section \<open>State and operations\<close>

record mem_limiter =
  window_ms :: int
  rpm_windows :: "string \<rightharpoonup> int list"
  tpm_windows :: "string \<rightharpoonup> (int \<times> u32) list"

definition mem_limiter_new :: "u64 \<Rightarrow> mem_limiter" where
  "mem_limiter_new window_secs =
     \<lparr>window_ms = sint (window_secs * 1000), rpm_windows = Map.empty, tpm_windows = Map.empty\<rparr>"

text \<open>Pop entries from the front while they are at or before the cutoff.\<close>

definition evict_rpm :: "int \<Rightarrow> int list \<Rightarrow> int list" where
  "evict_rpm cutoff deque = dropWhile (\<lambda>t. t \<le> cutoff) deque"

definition evict_tpm :: "int \<Rightarrow> (int \<times> u32) list \<Rightarrow> (int \<times> u32) list" where
  "evict_tpm cutoff deque = dropWhile (\<lambda>(t, _). t \<le> cutoff) deque"

text \<open>\<open>retain\<close> over both maps; between operations every inner lock is free.\<close>

definition cleanup_stale :: "int \<Rightarrow> mem_limiter \<Rightarrow> mem_limiter" where
  "cleanup_stale now s =
     (let cutoff = now - window_ms s in
      s\<lparr>rpm_windows := (\<lambda>k. case rpm_windows s k of None \<Rightarrow> None
            | Some deque \<Rightarrow> (let d = evict_rpm cutoff deque in if d = [] then None else Some d)),
        tpm_windows := (\<lambda>k. case tpm_windows s k of None \<Rightarrow> None
            | Some deque \<Rightarrow> (let d = evict_tpm cutoff deque in if d = [] then None else Some d))\<rparr>)"

definition rpm_window :: "string \<Rightarrow> mem_limiter \<Rightarrow> int list" where
  "rpm_window k s = (case rpm_windows s k of Some d \<Rightarrow> d | None \<Rightarrow> [])"

definition tpm_window :: "string \<Rightarrow> mem_limiter \<Rightarrow> (int \<times> u32) list" where
  "tpm_window k s = (case tpm_windows s k of Some d \<Rightarrow> d | None \<Rightarrow> [])"

definition retry_after :: "mem_limiter \<Rightarrow> u64" where
  "retry_after s = word_of_int (window_ms s sdiv 1000)"

definition mem_check_rpm ::
    "int \<Rightarrow> rate_limit_key \<Rightarrow> u32 \<Rightarrow> mem_limiter \<Rightarrow> rate_limit_decision \<times> mem_limiter" where
  "mem_check_rpm now key limit s =
     (let k = rpm_key key;
          deque = evict_rpm (now - window_ms s) (rpm_window k s) in
      if limit \<le> word_of_nat (length deque)
      then (Denied (retry_after s), s\<lparr>rpm_windows := (rpm_windows s)(k \<mapsto> deque)\<rparr>)
      else (Allow, s\<lparr>rpm_windows := (rpm_windows s)(k \<mapsto> deque @ [now])\<rparr>))"

definition mem_check_tpm ::
    "int \<Rightarrow> rate_limit_key \<Rightarrow> u32 \<Rightarrow> mem_limiter \<Rightarrow> rate_limit_decision \<times> mem_limiter" where
  "mem_check_tpm now key limit s =
     (let k = tpm_key key;
          deque = evict_tpm (now - window_ms s) (tpm_window k s);
          total = (sum_list (map (\<lambda>(_, tokens). ucast tokens) deque) :: u64);
          s' = s\<lparr>tpm_windows := (tpm_windows s)(k \<mapsto> deque)\<rparr> in
      if ucast limit \<le> total then (Denied (retry_after s), s') else (Allow, s'))"

definition mem_record_tokens :: "int \<Rightarrow> rate_limit_key \<Rightarrow> u32 \<Rightarrow> mem_limiter \<Rightarrow> mem_limiter" where
  "mem_record_tokens now key tokens s =
     (if tokens = 0 then s
      else (let k = tpm_key key
            in s\<lparr>tpm_windows := (tpm_windows s)(k \<mapsto> tpm_window k s @ [(now, tokens)])\<rparr>))"

definition mem_ops :: "mem_limiter limiter_ops" where
  "mem_ops = \<lparr>check_rpm = mem_check_rpm, check_tpm = mem_check_tpm, record_tokens = mem_record_tokens\<rparr>"

section \<open>The contract\<close>

definition mem_room :: "nat \<Rightarrow> mem_limiter \<Rightarrow> bool" where
  "mem_room n s \<longleftrightarrow>
     (\<forall>k. length (rpm_window k s) < 2 ^ 32) \<and> (\<forall>k. length (tpm_window k s) + n \<le> 2 ^ 32)
   \<and> 0 < window_ms s"

text \<open>Names of windows and names of buckets differ by a fixed suffix.\<close>

definition mem_rpm_used :: "int \<Rightarrow> string \<Rightarrow> mem_limiter \<Rightarrow> nat" where
  "mem_rpm_used now b s = length (evict_rpm (now - window_ms s) (rpm_window (b @ '':rpm'') s))"

definition mem_tpm_used :: "int \<Rightarrow> string \<Rightarrow> mem_limiter \<Rightarrow> nat" where
  "mem_tpm_used now b s =
     sum_list (map (\<lambda>(_, t). unat t) (evict_tpm (now - window_ms s) (tpm_window (b @ '':tpm'') s)))"

lemma evict_evict:
  assumes "c \<le> c'"
  shows "evict_rpm c' (evict_rpm c d) = evict_rpm c' d"
    and "evict_tpm c' (evict_tpm c e) = evict_tpm c' e"
proof -
  show "evict_rpm c' (evict_rpm c d) = evict_rpm c' d"
    using assms by (induction d) (auto simp: evict_rpm_def)
  show "evict_tpm c' (evict_tpm c e) = evict_tpm c' e"
    using assms by (induction e) (auto simp: evict_tpm_def)
qed

lemma evict_length: "length (evict_rpm c d) \<le> length d" "length (evict_tpm c e) \<le> length e"
  by (simp_all add: evict_rpm_def evict_tpm_def length_dropWhile_le)

lemma window_upd [simp]:
  "rpm_window k (s\<lparr>rpm_windows := (rpm_windows s)(k' \<mapsto> d)\<rparr>) = (if k = k' then d else rpm_window k s)"
  "tpm_window k (s\<lparr>rpm_windows := m\<rparr>) = tpm_window k s"
  "tpm_window k (s\<lparr>tpm_windows := (tpm_windows s)(k' \<mapsto> e)\<rparr>) = (if k = k' then e else tpm_window k s)"
  "rpm_window k (s\<lparr>tpm_windows := m'\<rparr>) = rpm_window k s"
  by (simp_all add: rpm_window_def tpm_window_def)

text \<open>Appending an entry inside the window makes it count, whatever was evicted.\<close>

lemma dropWhile_snoc: "\<not> P x \<Longrightarrow> dropWhile P (xs @ [x]) = dropWhile P xs @ [x]"
  by (induction xs) auto

lemma evict_rpm_snoc: "c < t \<Longrightarrow> evict_rpm c (d @ [t]) = evict_rpm c d @ [t]"
  by (simp add: evict_rpm_def dropWhile_snoc)

lemma evict_tpm_snoc: "c < t \<Longrightarrow> evict_tpm c (e @ [(t, n)]) = evict_tpm c e @ [(t, n)]"
  by (simp add: evict_tpm_def dropWhile_snoc)

text \<open>Below \<open>2^32\<close> entries neither the \<open>as u32\<close> of the length nor the sum in \<open>u64\<close> loses anything.\<close>

lemma length_as_u32: "length d < 2 ^ 32 \<Longrightarrow> l \<le> (word_of_nat (length d) :: u32) \<longleftrightarrow> unat l \<le> length d"
  by (simp add: word_le_nat_alt unat_of_nat)

lemma token_sum:
  fixes e :: "(int \<times> u32) list"
  assumes "length e \<le> 2 ^ 32"
  shows "unat (sum_list (map (\<lambda>(_, t). ucast t) e) :: u64) = sum_list (map (\<lambda>(_, t). unat t) e)"
proof -
  have le: "sum_list (map (\<lambda>(_, t). unat t) e) \<le> length e * (2 ^ 32 - 1)" for e :: "(int \<times> u32) list"
  proof (induction e)
    case (Cons a e)
    obtain x t where "a = (x, t)" by force
    moreover have "unat t < 2 ^ LENGTH(32)" by (rule unsigned_less)
    ultimately show ?case using Cons by simp
  qed simp
  have "unat (sum_list (map (\<lambda>(_, t). ucast t) e) :: u64) = sum_list (map (\<lambda>(_, t). unat t) e) mod 2 ^ 64"
    for e :: "(int \<times> u32) list"
  proof (induction e)
    case (Cons a e)
    obtain x t where "a = (x, t)" by force
    then show ?case using Cons by (simp add: unat_word_ariths mod_add_right_eq)
  qed simp
  moreover have "length e * (2 ^ 32 - 1) < 2 ^ 64" using assms by (simp add: mult_le_mono1 order_le_less_trans)
  ultimately show ?thesis using le [of e] by simp
qed

lemma mem_room_less: "mem_room (Suc n) s \<Longrightarrow> mem_room n s"
proof -
  assume r: "mem_room (Suc n) s"
  then have "length (tpm_window k s) + n \<le> 2 ^ 32" for k
    unfolding mem_room_def by (elim conjE allE [of _ k]) linarith
  with r show ?thesis by (simp add: mem_room_def)
qed

interpretation mem: rate_limiter mem_ops mem_room mem_rpm_used mem_tpm_used retry_after
proof (unfold_locales, goal_cases)
  case (1 n s now k l)
  have "length (evict_rpm (now - window_ms s) (rpm_window (rpm_key k) s)) < 2 ^ 32"
    using 1 evict_length(1) by (auto simp: mem_room_def intro: order_le_less_trans)
  then show ?case
    by (auto simp: mem_ops_def mem_check_rpm_def Let_def length_as_u32 mem_rpm_used_def bucket_keys)
next
  case (2 n s now b k l)
  have "length (evict_rpm (now - window_ms s) (rpm_window (rpm_key k) s)) < 2 ^ 32"
    using 2 evict_length(1) by (auto simp: mem_room_def intro: order_le_less_trans)
  with 2 show ?case
    by (auto simp: mem_ops_def mem_check_rpm_def Let_def length_as_u32 mem_rpm_used_def bucket_keys
        evict_evict evict_rpm_snoc mem_room_def)
next
  case (3 n s now b k l)
  show ?case by (simp add: mem_ops_def mem_check_rpm_def Let_def mem_tpm_used_def)
next
  case (4 n s now k l)
  have "length (evict_tpm (now - window_ms s) (tpm_window (tpm_key k) s)) \<le> 2 ^ 32"
    using 4 evict_length(2) [of "now - window_ms s" "tpm_window (tpm_key k) s"]
    unfolding mem_room_def by (meson add_leD1 order_trans)
  from token_sum [OF this] show ?case
    by (auto simp: mem_ops_def mem_check_tpm_def Let_def mem_tpm_used_def bucket_keys word_le_nat_alt)
next
  case (5 n s now b k l)
  show ?case by (simp add: mem_ops_def mem_check_tpm_def Let_def mem_rpm_used_def)
next
  case (6 n s now b k l)
  show ?case by (simp add: mem_ops_def mem_check_tpm_def Let_def mem_tpm_used_def bucket_keys evict_evict)
next
  case (7 n s now b k t)
  then show ?case
    by (auto simp: mem_ops_def mem_record_tokens_def Let_def mem_tpm_used_def bucket_keys evict_tpm_snoc
        mem_room_def)
next
  case (8 n s now b k t)
  show ?case by (simp add: mem_ops_def mem_record_tokens_def Let_def mem_rpm_used_def)
next
  case (9 n s now k l)
  have "length (evict_rpm (now - window_ms s) (rpm_window (rpm_key k) s)) < 2 ^ 32"
    using 9 evict_length(1) by (auto simp: mem_room_def intro: order_le_less_trans)
  with 9 unat_u32_bound [of l] show ?case
    by (auto simp: mem_ops_def mem_check_rpm_def Let_def length_as_u32 mem_room_def)
next
  case (10 n s now k l)
  have "length (evict_tpm (now - window_ms s) (tpm_window (tpm_key k) s)) + n \<le> 2 ^ 32"
    using 10 evict_length(2) [of "now - window_ms s" "tpm_window (tpm_key k) s"]
    unfolding mem_room_def by (meson add_right_mono order_trans)
  with 10 show ?case by (auto simp: mem_ops_def mem_check_tpm_def Let_def mem_room_def)
next
  case (11 n s now k t)
  then show ?case using mem_room_less [OF 11]
    by (auto simp: mem_ops_def mem_record_tokens_def Let_def mem_room_def)
next
  case (12 n s)
  then show ?case by (rule mem_room_less)
qed

section \<open>Sequences of calls\<close>

datatype limiter_call =
    CheckRpm rate_limit_key u32
  | CheckTpm rate_limit_key u32
  | RecordTokens rate_limit_key u32
  | CleanupStale

fun mem_exec :: "int \<Rightarrow> limiter_call \<Rightarrow> mem_limiter \<Rightarrow> rate_limit_decision option \<times> mem_limiter" where
  "mem_exec now (CheckRpm k l) s = (case mem_check_rpm now k l s of (d, s') \<Rightarrow> (Some d, s'))"
| "mem_exec now (CheckTpm k l) s = (case mem_check_tpm now k l s of (d, s') \<Rightarrow> (Some d, s'))"
| "mem_exec now (RecordTokens k t) s = (None, mem_record_tokens now k t s)"
| "mem_exec now CleanupStale s = (None, cleanup_stale now s)"

fun mem_run :: "(int \<times> limiter_call) list \<Rightarrow> mem_limiter \<Rightarrow> mem_limiter" where
  "mem_run [] s = s"
| "mem_run ((now, c) # tr) s = mem_run tr (snd (mem_exec now c s))"

text \<open>The times at which requests of a bucket were admitted, and the tokens recorded for it.\<close>

definition admits :: "string \<Rightarrow> limiter_call \<Rightarrow> rate_limit_decision option \<Rightarrow> bool" where
  "admits b c d \<longleftrightarrow> d = Some Allow \<and> (\<exists>k l. c = CheckRpm k l \<and> bucket_name k = b)"

fun admissions :: "string \<Rightarrow> (int \<times> limiter_call) list \<Rightarrow> mem_limiter \<Rightarrow> int list" where
  "admissions b [] s = []"
| "admissions b ((now, c) # tr) s =
     (if admits b c (fst (mem_exec now c s)) then [now] else []) @ admissions b tr (snd (mem_exec now c s))"

fun records :: "string \<Rightarrow> (int \<times> limiter_call) list \<Rightarrow> (int \<times> u32) list" where
  "records b [] = []"
| "records b ((now, RecordTokens k t) # tr) =
     (if bucket_name k = b \<and> t \<noteq> 0 then [(now, t)] else []) @ records b tr"
| "records b (x # tr) = records b tr"

text \<open>
  A window holds the tail of everything that happened; what it lost is older than the window.
\<close>

definition tail_of :: "('a \<Rightarrow> int) \<Rightarrow> int \<Rightarrow> int \<Rightarrow> 'a list \<Rightarrow> 'a list \<Rightarrow> bool" where
  "tail_of f w now hist deque \<longleftrightarrow>
     (\<exists>lost. hist = lost @ deque \<and> (\<forall>x \<in> set lost. f x \<le> now - w))
   \<and> sorted (map f hist) \<and> (\<forall>x \<in> set hist. f x \<le> now)"

lemma sorted_dropWhile_filter:
  "sorted (map f xs) \<Longrightarrow> dropWhile (\<lambda>x. f x \<le> c) xs = filter (\<lambda>x. c < f x) xs"
  for f :: "'a \<Rightarrow> int"
proof (induction xs)
  case (Cons x xs)
  show ?case
  proof (cases "f x \<le> c")
    case False
    with Cons.prems have "\<forall>y \<in> set xs. c < f y" by fastforce
    then have "filter (\<lambda>x. c < f x) xs = xs" by (simp add: filter_id_conv)
    with False show ?thesis by simp
  qed (use Cons in simp)
qed simp

lemma tail_of_evict:
  assumes "tail_of f w t hist deque" "t \<le> now"
  shows "dropWhile (\<lambda>x. f x \<le> now - w) deque = filter (\<lambda>x. now - w < f x) hist"
    and "tail_of f w now hist (dropWhile (\<lambda>x. f x \<le> now - w) deque)"
    and "tail_of f w now hist deque"
proof -
  from assms obtain lost where l: "hist = lost @ deque" "\<forall>x \<in> set lost. f x \<le> now - w"
    "sorted (map f hist)" "\<forall>x \<in> set hist. f x \<le> now"
    unfolding tail_of_def by fastforce
  have "filter (\<lambda>x. now - w < f x) lost = []" using l(2) by (auto simp: filter_empty_conv)
  moreover have "sorted (map f deque)" using l(1,3) by (simp add: sorted_append)
  ultimately show "dropWhile (\<lambda>x. f x \<le> now - w) deque = filter (\<lambda>x. now - w < f x) hist"
    by (simp add: l(1) sorted_dropWhile_filter)
  have split: "hist = (lost @ takeWhile (\<lambda>x. f x \<le> now - w) deque) @ dropWhile (\<lambda>x. f x \<le> now - w) deque"
    by (simp add: l(1))
  have "\<forall>x \<in> set (lost @ takeWhile (\<lambda>x. f x \<le> now - w) deque). f x \<le> now - w"
    using l(2) by (auto dest: set_takeWhileD)
  then show "tail_of f w now hist (dropWhile (\<lambda>x. f x \<le> now - w) deque)"
    unfolding tail_of_def using split l(3,4) by blast
  show "tail_of f w now hist deque"
    unfolding tail_of_def using l by blast
qed

lemma tail_of_snoc:
  assumes "tail_of f w now hist deque" "f x = now"
  shows "tail_of f w now (hist @ [x]) (deque @ [x])"
  using assms unfolding tail_of_def by (auto simp: sorted_append)

lemma evict_Nil: "evict_rpm c [] = []" "evict_tpm c [] = []"
  by (simp_all add: evict_rpm_def evict_tpm_def)

lemma cleanup_window:
  "rpm_window k (cleanup_stale now s) = evict_rpm (now - window_ms s) (rpm_window k s)"
  "tpm_window k (cleanup_stale now s) = evict_tpm (now - window_ms s) (tpm_window k s)"
  by (simp_all add: cleanup_stale_def rpm_window_def tpm_window_def Let_def evict_Nil split: option.split)

lemma mem_exec_window_ms [simp]: "window_ms (snd (mem_exec now c s)) = window_ms s"
  by (cases c) (simp_all add: mem_check_rpm_def mem_check_tpm_def mem_record_tokens_def cleanup_stale_def Let_def)

lemma mem_run_window_ms [simp]: "window_ms (mem_run tr s) = window_ms s"
  by (induction tr s rule: mem_run.induct) simp_all

definition rpm_small :: "mem_limiter \<Rightarrow> bool" where
  "rpm_small s \<longleftrightarrow> (\<forall>k. length (rpm_window k s) < 2 ^ 32)"

lemma rpm_small_exec: "rpm_small s \<Longrightarrow> rpm_small (snd (mem_exec now c s))"
proof -
  assume sm: "rpm_small s"
  have ev: "length (evict_rpm cu (rpm_window k s)) < 2 ^ 32" for cu k
    using sm evict_length(1) [of cu "rpm_window k s"] by (metis order_le_less_trans rpm_small_def)
  show ?thesis
  proof (cases c)
    case (CheckRpm k l)
    have "length (evict_rpm (now - window_ms s) (rpm_window (rpm_key k) s)) < unat l \<Longrightarrow>
        length (evict_rpm (now - window_ms s) (rpm_window (rpm_key k) s)) + 1 < 2 ^ 32"
      using unat_u32_bound [of l] by simp
    with sm ev CheckRpm show ?thesis
      by (auto simp: rpm_small_def mem_check_rpm_def Let_def length_as_u32)
  qed (use sm ev in \<open>auto simp: rpm_small_def mem_check_tpm_def mem_record_tokens_def cleanup_window Let_def\<close>)
qed

text \<open>One call, seen from the request window of one bucket.\<close>

lemma rpm_step:
  assumes "tail_of id w t hist (rpm_window (b @ '':rpm'') s)" "w = window_ms s" "t \<le> now" "rpm_small s"
    and r: "r = mem_exec now c s"
  shows "tail_of id w now (hist @ (if admits b c (fst r) then [now] else [])) (rpm_window (b @ '':rpm'') (snd r))"
    and "c = CheckRpm k l \<Longrightarrow> bucket_name k = b \<Longrightarrow>
           (fst r = Some Allow \<longleftrightarrow> length (filter (\<lambda>x. now - w < x) hist) < unat l)"
proof -
  note ev = tail_of_evict [OF assms(1,3)]
  have evict: "evict_rpm (now - w) (rpm_window (b @ '':rpm'') s) = filter (\<lambda>x. now - w < x) hist"
    "tail_of id w now hist (evict_rpm (now - w) (rpm_window (b @ '':rpm'') s))"
    using ev(1,2) by (simp_all add: evict_rpm_def)
  have small: "length (evict_rpm (now - w) (rpm_window k s)) < 2 ^ 32" for k
    using assms(4) evict_length(1) [of "now - w" "rpm_window k s"] by (metis order_le_less_trans rpm_small_def)
  show "c = CheckRpm k l \<Longrightarrow> bucket_name k = b \<Longrightarrow>
           (fst r = Some Allow \<longleftrightarrow> length (filter (\<lambda>x. now - w < x) hist) < unat l)"
    using small [of "b @ '':rpm''"]
    by (auto simp: r mem_check_rpm_def Let_def bucket_keys length_as_u32 evict(1) assms(2) [symmetric])
  show "tail_of id w now (hist @ (if admits b c (fst r) then [now] else [])) (rpm_window (b @ '':rpm'') (snd r))"
  proof (cases c)
    case (CheckRpm k l)
    have snoc: "tail_of id w now (hist @ [now]) (evict_rpm (now - w) (rpm_window (b @ '':rpm'') s) @ [now])"
      by (rule tail_of_snoc [OF evict(2)]) simp
    show ?thesis
      using CheckRpm snoc evict(2) ev(3) assms(2)
      by (auto simp: r admits_def mem_check_rpm_def Let_def bucket_keys)
  next
    case CleanupStale
    then show ?thesis using evict(2) assms(2) by (simp add: r admits_def cleanup_window)
  qed (use ev(3) in \<open>simp_all add: r admits_def mem_check_tpm_def mem_record_tokens_def Let_def\<close>)
qed

lemma run_tail:
  assumes "tail_of id w t hist (rpm_window (b @ '':rpm'') s)" "rpm_small s" "w = window_ms s"
    and "sorted (t # map fst tr)" "last (t # map fst tr) \<le> now"
  shows "tail_of id w now (hist @ admissions b tr s) (rpm_window (b @ '':rpm'') (mem_run tr s))
       \<and> rpm_small (mem_run tr s)"
  using assms
proof (induction tr arbitrary: s t hist)
  case Nil
  then show ?case using tail_of_evict(3) [OF Nil.prems(1)] by simp
next
  case (Cons x tr)
  obtain u c where x: "x = (u, c)" by force
  have "t \<le> u" using Cons.prems(4) by (simp add: x)
  note st = rpm_step(1) [OF Cons.prems(1,3) this Cons.prems(2) refl, of c]
  have "sorted (u # map fst tr)" "last (u # map fst tr) \<le> now" using Cons.prems(4,5) by (simp_all add: x)
  from Cons.IH [OF st rpm_small_exec [OF Cons.prems(2)] _ this] Cons.prems(3)
  show ?case by (simp add: x)
qed

lemma run_tail_fresh:
  assumes "sorted (map fst tr)" "\<forall>x \<in> set tr. fst x \<le> now"
    and s_def: "s = mem_limiter_new secs"
  shows "tail_of id (window_ms s) now (admissions b tr s) (rpm_window (b @ '':rpm'') (mem_run tr s))"
    and "rpm_small (mem_run tr s)"
proof -
  have fresh: "tail_of id (window_ms s) t [] (rpm_window (b @ '':rpm'') s)" "rpm_small s" for t
    by (simp_all add: s_def mem_limiter_new_def tail_of_def rpm_window_def rpm_small_def)
  have "tail_of id (window_ms s) now ([] @ admissions b tr s) (rpm_window (b @ '':rpm'') (mem_run tr s))
      \<and> rpm_small (mem_run tr s)"
  proof (cases tr)
    case Nil
    then show ?thesis using fresh by simp
  next
    case (Cons x tr')
    show ?thesis
    proof (rule run_tail [OF fresh(1,2) refl, of "fst x"])
      show "sorted (fst x # map fst tr)" using assms(1) by (auto simp: Cons)
      have "last (map fst tr) \<in> set (map fst tr)" by (rule last_in_set) (simp add: Cons)
      then have "last (fst x # map fst tr) \<in> fst ` set tr" by (simp add: Cons)
      then show "last (fst x # map fst tr) \<le> now" using assms(2) by auto
    qed
  qed
  then show "tail_of id (window_ms s) now (admissions b tr s) (rpm_window (b @ '':rpm'') (mem_run tr s))"
    and "rpm_small (mem_run tr s)" by simp_all
qed

lemma run_append:
  "mem_run (tr @ tr') s = mem_run tr' (mem_run tr s)"
  "admissions b (tr @ tr') s = admissions b tr s @ admissions b tr' (mem_run tr s)"
  by (induction tr arbitrary: s) auto

lemma check_exact:
  assumes "sorted (map fst tr)" "\<forall>x \<in> set tr. fst x \<le> now" "s = mem_limiter_new secs"
  shows "fst (mem_check_rpm now key limit (mem_run tr s)) = Allow \<longleftrightarrow>
           length (filter (\<lambda>t. now - window_ms s < t) (admissions (bucket_name key) tr s)) < unat limit"
proof -
  note t = run_tail_fresh [OF assms]
  show ?thesis
    using rpm_step(2) [OF t(1) _ order_refl t(2) refl, of "CheckRpm key limit" key limit]
    by (simp split: prod.splits)
qed

section \<open>Properties\<close>

text \<open>
  C20. The request limit is exact: after any calls at non-decreasing times on a fresh limiter, a
  request is admitted if and only if fewer than \<open>limit\<close> requests of its bucket were admitted
  during the window that ends now.  Calls for other buckets, token bookkeeping and the background
  cleanup make no difference.
\<close>

theorem rpm_check_exact:
  assumes "sorted (map fst tr)" "\<forall>x \<in> set tr. fst x \<le> now" "s = mem_limiter_new secs"
  shows "fst (mem_check_rpm now key limit (mem_run tr s)) = Allow \<longleftrightarrow>
           length (filter (\<lambda>t. now - window_ms s < t) (admissions (bucket_name key) tr s)) < unat limit"
  using check_exact [OF assms] .

lemma rpm_check_exact_witness:
  "fst (mem_check_rpm 5 (ModelBucket ''m'') 2
     (mem_run [(1, CheckRpm (ModelBucket ''m'') 2), (2, CheckRpm (KeyModel ''k'' ''m'') 2), (3, CleanupStale)]
        (mem_limiter_new 60))) = Allow"
  using rpm_check_exact [of "[(1, CheckRpm (ModelBucket ''m'') 2), (2, CheckRpm (KeyModel ''k'' ''m'') 2),
      (3, CleanupStale)]" 5 "mem_limiter_new 60" 60 "ModelBucket ''m''" 2]
  by (simp add: admits_def mem_check_rpm_def mem_limiter_new_def Let_def rpm_window_def evict_rpm_def)

text \<open>
  C30. The token window: right after \<open>ctx_record_tokens\<close>, at the same clock reading, the window of
  each bucket the context names has grown by exactly the tokens used, and no other bucket's token or
  request window has changed; a later check of a bucket denies exactly when its window has reached
  the limit.  (\<open>mem_room 3\<close>: fewer than \<open>2^32 - 2\<close> entries per window.)
\<close>

theorem token_accounting:
  assumes "mem_room 3 s" "s' = ctx_record_tokens mem_ops now ctx kid tokens s"
  shows "mem_tpm_used now b s' = mem_tpm_used now b s
           + (if record_key_tpm ctx \<and> b = bucket_name (KeyModel kid (ctx_model_id ctx)) then unat tokens else 0)
           + (if record_model_tpm ctx \<and> b = bucket_name (ModelBucket (ctx_model_id ctx)) then unat tokens else 0)
           + (if record_primary_tpm ctx \<and> b = bucket_name (PrimaryTier (ctx_model_id ctx) (ctx_protocol ctx))
              then unat tokens else 0)
       \<and> mem_rpm_used now b s' = mem_rpm_used now b s
       \<and> fst (mem_check_tpm later key limit s') =
           (if mem_tpm_used later (bucket_name key) s' < unat limit then Allow else Denied (retry_after s'))"
proof -
  have room: "mem_room (Suc (Suc (Suc 0))) s" using assms(1) by (simp add: numeral_3_eq_3)
  note u = mem.ctx_record_tokens_used [OF room, where now = now and ctx = ctx and kid = kid and t = tokens, folded assms(2)]
  show ?thesis using u(1,2) mem.check_tpm_decision [OF u(3)] by (simp add: mem_ops_def)
qed

lemma token_accounting_witness:
  "mem_tpm_used 10 ''rl:model:m''
     (ctx_record_tokens mem_ops 10 \<lparr>ctx_model_id = ''m'', ctx_protocol = ''openai'', record_key_tpm = False,
        record_model_tpm = True, record_primary_tpm = False\<rparr> ''k'' 7 (mem_limiter_new 60)) = 7"
  using token_accounting [of "mem_limiter_new 60" _ 10 "\<lparr>ctx_model_id = ''m'', ctx_protocol = ''openai'',
        record_key_tpm = False, record_model_tpm = True, record_primary_tpm = False\<rparr>" "''k''" 7 "''rl:model:m''",
      OF _ refl]
  by (simp add: mem_room_def mem_limiter_new_def rpm_window_def tpm_window_def mem_tpm_used_def evict_tpm_def)

end
