(* ===== verification/Rate_Limit_Races.thy ===== *)
theory Rate_Limit_Races
  imports Rate_Limit_Memory
begin

text \<open>
  The request windows of \<^verbatim>\<open>server/src/rate_limit_memory.rs\<close> under concurrent calls.
  \<open>Rate_Limit_Memory\<close> runs every call in one step; here a call is the two steps it has in the code,
  taking the \<open>Arc\<close> of its window out of the map and then locking it, and the background cleanup visits
  one entry at a time, with a cutoff it read earlier.  In between, an entry may be dropped from the map
  while a caller holds its \<open>Arc\<close>: the race the comment of \<open>cleanup_stale\<close> describes.  A caller that
  cleanup finds holding the lock is skipped, which is no step.
\<close>

section \<open>State and steps\<close>

text \<open>
  An \<open>Arc\<close> is an index into the windows ever made.  \<open>grants\<close> is a ghost: who was admitted, when, on
  which \<open>Arc\<close>, and whether that had been dropped from the map by then.
\<close>

record grant =
  g_bucket :: string
  g_time :: int
  g_arc :: nat
  g_orphan :: bool

record race_state =
  arcs :: "int list list"
  mapped :: "string \<rightharpoonup> nat"
  waiting :: "(rate_limit_key \<times> u32 \<times> nat) list"
  race_clock :: int
  grants :: "grant list"

definition race_new :: "int \<Rightarrow> race_state" where
  "race_new now = \<lparr>arcs = [], mapped = Map.empty, waiting = [], race_clock = now, grants = []\<rparr>"

text \<open>\<open>rpm_window\<close>: get or insert, and clone the \<open>Arc\<close>.\<close>

definition acquire_window :: "rate_limit_key \<Rightarrow> u32 \<Rightarrow> race_state \<Rightarrow> race_state" where
  "acquire_window key limit s =
     (case mapped s (rpm_key key) of
        Some i \<Rightarrow> s\<lparr>waiting := waiting s @ [(key, limit, i)]\<rparr>
      | None \<Rightarrow> s\<lparr>arcs := arcs s @ [[]], mapped := (mapped s)(rpm_key key \<mapsto> length (arcs s)),
               waiting := waiting s @ [(key, limit, length (arcs s))]\<rparr>)"

text \<open>The rest of \<open>check_rpm\<close>, under the lock of the window; the answer is \<open>Allow\<close> when a grant is added.\<close>

definition locked_check :: "int \<Rightarrow> nat \<Rightarrow> race_state \<Rightarrow> race_state" where
  "locked_check w j s =
     (if j < length (waiting s)
      then (case waiting s ! j of (key, limit, i) \<Rightarrow>
        (let now = race_clock s;
             deque = evict_rpm (now - w) (arcs s ! i);
             s1 = s\<lparr>waiting := take j (waiting s) @ drop (Suc j) (waiting s)\<rparr>
         in if limit \<le> word_of_nat (length deque) then s1\<lparr>arcs := (arcs s)[i := deque]\<rparr>
            else s1\<lparr>arcs := (arcs s)[i := deque @ [now]],
                   grants := grants s @ [\<lparr>g_bucket = bucket_name key, g_time = now, g_arc = i,
                     g_orphan = (mapped s (rpm_key key) \<noteq> Some i)\<rparr>]\<rparr>))
      else s)"

text \<open>One entry of the \<open>retain\<close> over the request windows, under the locks of the map and the window.\<close>

definition cleanup_entry :: "int \<Rightarrow> int \<Rightarrow> string \<Rightarrow> race_state \<Rightarrow> race_state" where
  "cleanup_entry w cutoff k s =
     (case mapped s k of
        None \<Rightarrow> s
      | Some i \<Rightarrow>
          (let deque = evict_rpm cutoff (arcs s ! i) in
           s\<lparr>arcs := (arcs s)[i := deque],
             mapped := (if deque = [] then (mapped s)(k := None) else mapped s)\<rparr>))"

text \<open>A cleanup read its clock before now; the clock does not go back.\<close>

datatype race_event =
    Acquire rate_limit_key u32
  | LockAndCheck nat
  | CleanupEntry int string     \<comment> \<open>the time the cleanup read, the entry it visits\<close>
  | ClockTo int

fun race_exec :: "int \<Rightarrow> race_event \<Rightarrow> race_state \<Rightarrow> race_state" where
  "race_exec w (Acquire key limit) s = acquire_window key limit s"
| "race_exec w (LockAndCheck j) s = locked_check w j s"
| "race_exec w (CleanupEntry t k) s = (if t \<le> race_clock s then cleanup_entry w (t - w) k s else s)"
| "race_exec w (ClockTo t) s = (if race_clock s \<le> t then s\<lparr>race_clock := t\<rparr> else s)"

fun race_run :: "int \<Rightarrow> race_event list \<Rightarrow> race_state \<Rightarrow> race_state" where
  "race_run w [] s = s"
| "race_run w (e # es) s = race_run w es (race_exec w e s)"

text \<open>The grants of a bucket in the window that ends at \<open>T\<close>.\<close>

definition in_window :: "int \<Rightarrow> int \<Rightarrow> string \<Rightarrow> grant \<Rightarrow> bool" where
  "in_window w T b g \<longleftrightarrow> g_bucket g = b \<and> T - w < g_time g \<and> g_time g \<le> T"

section \<open>Without interleaving\<close>

text \<open>The sequential limiter a state shows, and a call whose two steps nothing separates.\<close>

definition race_limiter :: "int \<Rightarrow> race_state \<Rightarrow> mem_limiter" where
  "race_limiter w s = \<lparr>window_ms = w, rpm_windows = (\<lambda>k. map_option (\<lambda>i. arcs s ! i) (mapped s k)), tpm_windows = Map.empty\<rparr>"

definition arcs_ok :: "race_state \<Rightarrow> bool" where
  "arcs_ok s \<longleftrightarrow> (\<forall>k i. mapped s k = Some i \<longrightarrow> i < length (arcs s)) \<and> inj_on (mapped s) (dom (mapped s))
     \<and> (\<forall>(key, l, i) \<in> set (waiting s). i < length (arcs s))"

lemma mapped_inj: "arcs_ok s \<Longrightarrow> mapped s k = Some i \<Longrightarrow> mapped s k' = Some i \<Longrightarrow> k = k'"
  by (rule inj_onD [of "mapped s" "dom (mapped s)"]) (simp_all add: arcs_ok_def dom_def)

lemma atomic_check_refines:
  assumes "arcs_ok s"
  shows "race_limiter w (locked_check w (length (waiting s)) (acquire_window key limit s))
           = snd (mem_check_rpm (race_clock s) key limit (race_limiter w s))"
    and "(\<exists>g. grants (locked_check w (length (waiting s)) (acquire_window key limit s)) = grants s @ [g] \<and> \<not> g_orphan g)
           \<longleftrightarrow> fst (mem_check_rpm (race_clock s) key limit (race_limiter w s)) = Allow"
proof -
  have old: "mapped s k = Some i \<Longrightarrow> i < length (arcs s)" for k i using assms by (simp add: arcs_ok_def)
  show "race_limiter w (locked_check w (length (waiting s)) (acquire_window key limit s))
      = snd (mem_check_rpm (race_clock s) key limit (race_limiter w s))"
  proof (cases "mapped s (rpm_key key)")
    case None
    with old show ?thesis
      by (auto simp: race_limiter_def locked_check_def acquire_window_def mem_check_rpm_def rpm_window_def
          Let_def fun_eq_iff nth_append evict_Nil list_update_append intro!: option.map_cong)
  next
    case (Some i)
    with old mapped_inj [OF assms] show ?thesis
      by (auto simp: race_limiter_def locked_check_def acquire_window_def mem_check_rpm_def rpm_window_def
          Let_def fun_eq_iff nth_list_update intro!: option.map_cong)
  qed
  show "(\<exists>g. grants (locked_check w (length (waiting s)) (acquire_window key limit s)) = grants s @ [g] \<and> \<not> g_orphan g)
      \<longleftrightarrow> fst (mem_check_rpm (race_clock s) key limit (race_limiter w s)) = Allow"
    by (auto simp: race_limiter_def locked_check_def acquire_window_def mem_check_rpm_def rpm_window_def
        Let_def nth_append split: option.split)
qed

lemma cleanup_entry_refines:
  assumes "arcs_ok s"
  shows "rpm_windows (race_limiter w (cleanup_entry w (now - w) k s)) k'
       = (if k' = k then rpm_windows (cleanup_stale now (race_limiter w s)) k else rpm_windows (race_limiter w s) k')"
  using assms mapped_inj [OF assms]
  by (auto simp: race_limiter_def cleanup_entry_def cleanup_stale_def Let_def arcs_ok_def nth_list_update
      split: option.split intro!: option.map_cong)

section \<open>The invariant\<close>

text \<open>
  For the windows of one bucket \<open>b\<close>, \<open>A\<close> the set of its \<open>Arc\<close>s: each window holds the tail of the
  grants made on it, and no window of length \<open>w\<close> has seen more than \<open>L\<close> grants on it; what was granted
  before an \<open>Arc\<close> was dropped is a window older than what is granted on its successor.
\<close>

definition arc_times :: "race_state \<Rightarrow> nat \<Rightarrow> int list" where
  "arc_times s i = map g_time (filter (\<lambda>g. g_arc g = i) (grants s))"

definition arcs_shape :: "string \<Rightarrow> nat \<Rightarrow> nat set \<Rightarrow> race_state \<Rightarrow> bool" where
  "arcs_shape b L A s \<longleftrightarrow>
     (\<forall>i \<in> A. i < length (arcs s))
   \<and> (\<forall>key l i. (key, l, i) \<in> set (waiting s) \<longrightarrow>
        i < length (arcs s) \<and> (bucket_name key = b \<longleftrightarrow> i \<in> A) \<and> (i \<in> A \<longrightarrow> unat l \<le> L))
   \<and> (\<forall>k i. mapped s k = Some i \<longrightarrow> i < length (arcs s) \<and> (k = b @ '':rpm'' \<longleftrightarrow> i \<in> A))
   \<and> (\<forall>g \<in> set (grants s). g_arc g < length (arcs s) \<and> (g_bucket g = b \<longleftrightarrow> g_arc g \<in> A))"

definition arcs_bounded :: "int \<Rightarrow> nat \<Rightarrow> nat set \<Rightarrow> race_state \<Rightarrow> bool" where
  "arcs_bounded w L A s \<longleftrightarrow>
     (\<forall>i \<in> A. tail_of id w (race_clock s) (arc_times s i) (arcs s ! i) \<and> length (arcs s ! i) < 2 ^ 32
        \<and> (\<forall>T. length (filter (\<lambda>t. T - w < t \<and> t \<le> T) (arc_times s i)) \<le> L))"

definition counted :: "string \<Rightarrow> race_state \<Rightarrow> grant set" where
  "counted b s = {g \<in> set (grants s). g_bucket g = b \<and> \<not> g_orphan g}"

definition grants_apart :: "int \<Rightarrow> string \<Rightarrow> race_state \<Rightarrow> bool" where
  "grants_apart w b s \<longleftrightarrow>
     (\<forall>g \<in> counted b s. mapped s (b @ '':rpm'') = Some (g_arc g) \<or> g_time g \<le> race_clock s - w)
   \<and> (\<forall>g \<in> counted b s. \<forall>g' \<in> counted b s. g_arc g = g_arc g' \<or> g_time g \<le> g_time g' - w \<or> g_time g' \<le> g_time g - w)"

definition race_inv :: "int \<Rightarrow> string \<Rightarrow> nat \<Rightarrow> nat set \<Rightarrow> race_state \<Rightarrow> bool" where
  "race_inv w b L A s \<longleftrightarrow> arcs_shape b L A s \<and> arcs_bounded w L A s \<and> grants_apart w b s"

text \<open>Evicting with an older cutoff keeps the tail.\<close>

lemma tail_of_evict_early:
  assumes "tail_of id w now hist deque" "c \<le> now - w"
  shows "tail_of id w now hist (evict_rpm c deque)"
proof -
  obtain lost where l: "hist = lost @ deque" "\<forall>x \<in> set lost. x \<le> now - w"
    using assms(1) unfolding tail_of_def by auto
  have "deque = takeWhile (\<lambda>t. t \<le> c) deque @ evict_rpm c deque" by (simp add: evict_rpm_def)
  then have "hist = (lost @ takeWhile (\<lambda>t. t \<le> c) deque) @ evict_rpm c deque" using l(1) by simp
  moreover have "\<forall>x \<in> set (lost @ takeWhile (\<lambda>t. t \<le> c) deque). x \<le> now - w"
    using l(2) assms(2) by (fastforce dest: set_takeWhileD)
  ultimately show ?thesis using assms(1) unfolding tail_of_def by (metis id_apply)
qed

lemma race_inv_new: "race_inv w b L {} (race_new now)"
  by (simp add: race_inv_def arcs_shape_def arcs_bounded_def grants_apart_def counted_def race_new_def)

lemma race_inv_acquire:
  assumes "race_inv w b L A s" "bucket_name key = b \<longrightarrow> unat l \<le> L"
  shows "\<exists>A'. race_inv w b L A' (acquire_window key l s)"
proof (cases "mapped s (rpm_key key)")
  case (Some i)
  let ?s = "acquire_window key l s"
  have same: "arc_times ?s = arc_times s" "arcs ?s = arcs s" "race_clock ?s = race_clock s" "counted b ?s = counted b s"
    "mapped ?s = mapped s" using Some by (auto simp: acquire_window_def arc_times_def counted_def fun_eq_iff)
  have "arcs_shape b L A ?s"
    using assms Some unfolding race_inv_def arcs_shape_def by (auto simp: acquire_window_def bucket_keys)
  with assms(1) have "race_inv w b L A ?s"
    unfolding race_inv_def arcs_bounded_def grants_apart_def same by simp
  then show ?thesis by blast
next
  case None
  let ?n = "length (arcs s)" and ?s = "acquire_window key l s"
  let ?A = "if bucket_name key = b then insert ?n A else A"
  have sh: "arcs_shape b L A s" using assms(1) by (simp add: race_inv_def)
  then have fresh: "i \<in> A \<Longrightarrow> i < ?n" "g \<in> set (grants s) \<Longrightarrow> g_arc g < ?n" for i g
    by (auto simp: arcs_shape_def)
  have same: "arcs ?s = arcs s @ [[]]" "race_clock ?s = race_clock s" "counted b ?s = counted b s" "grants ?s = grants s"
    "mapped ?s = (mapped s)(rpm_key key \<mapsto> ?n)" "waiting ?s = waiting s @ [(key, l, ?n)]"
    using None by (simp_all add: acquire_window_def counted_def)
  have times: "arc_times ?s i = arc_times s i" for i by (simp add: arc_times_def same)
  have "arc_times s ?n = []" using fresh(2) by (fastforce simp: arc_times_def filter_empty_conv)
  then have "arcs_bounded w L ?A ?s"
    using assms(1) fresh(1) unfolding race_inv_def arcs_bounded_def times same
    by (auto simp: nth_append tail_of_def)
  moreover have "arcs_shape b L ?A ?s"
    using sh assms(2) fresh unfolding arcs_shape_def same
    by (intro conjI) (fastforce simp: bucket_keys less_Suc_eq split: if_splits)+
  moreover have "grants_apart w b ?s"
    using assms(1) None unfolding race_inv_def grants_apart_def same by (auto simp: bucket_keys)
  ultimately have "race_inv w b L ?A ?s" by (simp add: race_inv_def)
  then show ?thesis by blast
qed

lemma race_inv_clock:
  assumes "race_inv w b L A s" "race_clock s \<le> t"
  shows "race_inv w b L A (s\<lparr>race_clock := t\<rparr>)"
proof -
  have "tail_of id w t hist deque" if "tail_of id w (race_clock s) hist deque" for hist deque
    by (rule tail_of_evict(3) [OF that assms(2)])
  moreover have "arc_times (s\<lparr>race_clock := t\<rparr>) = arc_times s" "counted b (s\<lparr>race_clock := t\<rparr>) = counted b s"
    by (simp_all add: arc_times_def counted_def fun_eq_iff)
  moreover have "x \<le> t - w" if "x \<le> race_clock s - w" for x using that assms(2) by simp
  ultimately show ?thesis
    using assms(1) unfolding race_inv_def arcs_shape_def arcs_bounded_def grants_apart_def by simp blast
qed

lemma race_inv_cleanup:
  assumes "race_inv w b L A s" "c \<le> race_clock s - w"
  shows "race_inv w b L A (cleanup_entry w c k s)"
proof (cases "mapped s k")
  case None
  then show ?thesis using assms(1) by (simp add: cleanup_entry_def)
next
  case (Some i)
  let ?s = "cleanup_entry w c k s" and ?d = "evict_rpm c (arcs s ! i)"
  have inv: "arcs_shape b L A s" "arcs_bounded w L A s" "grants_apart w b s" using assms(1) by (simp_all add: race_inv_def)
  have i: "i < length (arcs s)" "k = b @ '':rpm'' \<longleftrightarrow> i \<in> A" using inv(1) Some by (auto simp: arcs_shape_def)
  have same: "arcs ?s = (arcs s)[i := ?d]" "race_clock ?s = race_clock s" "counted b ?s = counted b s"
    "grants ?s = grants s" "arc_times ?s = arc_times s" "waiting ?s = waiting s"
    "mapped ?s = (if ?d = [] then (mapped s)(k := None) else mapped s)"
    using Some by (simp_all add: cleanup_entry_def Let_def arc_times_def counted_def fun_eq_iff)
  have shape: "arcs_shape b L A ?s" using inv(1) unfolding arcs_shape_def same by auto
  have tail: "tail_of id w (race_clock s) (arc_times s i) ?d \<and> length ?d < 2 ^ 32" if "i \<in> A"
    using inv(2) that tail_of_evict_early [OF _ assms(2)] evict_length(1) [of c "arcs s ! i"]
    unfolding arcs_bounded_def by (meson order_le_less_trans)
  have bounded: "arcs_bounded w L A ?s"
    using inv(2) tail i(1) unfolding arcs_bounded_def same by (auto simp: nth_list_update)
  have gone: "g_time g \<le> race_clock s - w" if "?d = []" "g \<in> counted b s" "k = b @ '':rpm''" "g_arc g = i" for g
  proof -
    have "g_time g \<in> set (arc_times s i)" using that(2,4) by (auto simp: arc_times_def counted_def)
    then show ?thesis using tail that(1,3) i(2) by (auto simp: tail_of_def)
  qed
  have "grants_apart w b ?s"
    using inv(3) gone Some unfolding grants_apart_def same by (auto split: if_splits)
  with shape bounded show ?thesis by (simp add: race_inv_def)
qed

text \<open>A grant on an \<open>Arc\<close> of the bucket.\<close>

lemma window_count_snoc:
  fixes now :: int
  assumes "length (filter (\<lambda>t. now - w < t) ts) < L" "\<forall>T. length (filter (\<lambda>t. T - w < t \<and> t \<le> T) ts) \<le> L"
  shows "length (filter (\<lambda>t. T - w < t \<and> t \<le> T) (ts @ [now])) \<le> L"
proof (cases "T - w < now \<and> now \<le> T")
  case True
  then have "filter (\<lambda>t. T - w < t \<and> t \<le> T) ts = filter (\<lambda>t. T - w < t \<and> t \<le> T) (filter (\<lambda>t. now - w < t) ts)"
    by (auto intro!: filter_cong)
  then have "length (filter (\<lambda>t. T - w < t \<and> t \<le> T) ts) \<le> length (filter (\<lambda>t. now - w < t) ts)"
    by (metis length_filter_le)
  with assms(1) True show ?thesis by simp
qed (use assms(2) in auto)

lemma locked_check_decision:
  assumes "race_inv w b L A s" "i \<in> A" "deque = evict_rpm (race_clock s - w) (arcs s ! i)"
  shows "tail_of id w (race_clock s) (arc_times s i) deque" "length deque < 2 ^ 32"
    and "length deque = length (filter (\<lambda>t. race_clock s - w < t) (arc_times s i))"
proof -
  have t: "tail_of id w (race_clock s) (arc_times s i) (arcs s ! i)" "length (arcs s ! i) < 2 ^ 32"
    using assms(1,2) by (simp_all add: race_inv_def arcs_bounded_def)
  show "tail_of id w (race_clock s) (arc_times s i) deque" unfolding assms(3) by (rule tail_of_evict_early [OF t(1)]) simp
  show "length deque < 2 ^ 32" unfolding assms(3) using evict_length(1) t(2) by (rule order_le_less_trans)
  show "length deque = length (filter (\<lambda>t. race_clock s - w < t) (arc_times s i))"
    using tail_of_evict(1) [OF t(1) order_refl] by (simp add: assms(3) evict_rpm_def)
qed

lemma race_inv_check:
  assumes "race_inv w b L A s"
  shows "race_inv w b L A (locked_check w j s)"
proof (cases "j < length (waiting s)")
  case False
  then show ?thesis using assms by (simp add: locked_check_def)
next
  case True
  obtain key l i where e: "waiting s ! j = (key, l, i)" by (rule prod_cases3)
  let ?now = "race_clock s" and ?d = "evict_rpm (race_clock s - w) (arcs s ! i)" and ?s = "locked_check w j s"
  let ?w = "take j (waiting s) @ drop (Suc j) (waiting s)"
  let ?g = "\<lparr>g_bucket = bucket_name key, g_time = ?now, g_arc = i, g_orphan = (mapped s (rpm_key key) \<noteq> Some i)\<rparr>"
  have inv: "arcs_shape b L A s" "arcs_bounded w L A s" "grants_apart w b s" using assms by (simp_all add: race_inv_def)
  have "(key, l, i) \<in> set (waiting s)" using True e by (metis nth_mem)
  then have i: "i < length (arcs s)" "bucket_name key = b \<longleftrightarrow> i \<in> A" "i \<in> A \<longrightarrow> unat l \<le> L"
    using inv(1) by (auto simp: arcs_shape_def)
  have sub: "set ?w \<subseteq> set (waiting s)" by (auto dest: in_set_takeD in_set_dropD)
  have waits: "\<forall>key l i. (key, l, i) \<in> set ?w \<longrightarrow>
      i < length (arcs s) \<and> (bucket_name key = b \<longleftrightarrow> i \<in> A) \<and> (i \<in> A \<longrightarrow> unat l \<le> L)"
    using inv(1) sub unfolding arcs_shape_def by blast
  note dec = locked_check_decision [OF assms _ refl, of i]
  have base: "race_clock ?s = ?now" "mapped ?s = mapped s" "waiting ?s = ?w"
    using True e by (simp_all add: locked_check_def Let_def)
  show ?thesis
  proof (cases "l \<le> word_of_nat (length ?d)")
    case deny: True
    have same: "arcs ?s = (arcs s)[i := ?d]" "grants ?s = grants s" "arc_times ?s = arc_times s" "counted b ?s = counted b s"
      using True e deny by (simp_all add: locked_check_def Let_def arc_times_def counted_def fun_eq_iff)
    have "arcs_shape b L A ?s" using inv(1) waits unfolding arcs_shape_def same base by simp
    moreover have "arcs_bounded w L A ?s"
      using inv(2) dec(1,2) i(1) unfolding arcs_bounded_def same base by (auto simp: nth_list_update)
    ultimately show ?thesis using inv(3) unfolding race_inv_def grants_apart_def same base by simp
  next
    case allow: False
    have same: "arcs ?s = (arcs s)[i := ?d @ [?now]]" "grants ?s = grants s @ [?g]"
      using True e allow by (simp_all add: locked_check_def Let_def)
    have times: "arc_times ?s i' = (if i' = i then arc_times s i @ [?now] else arc_times s i')" for i'
      by (simp add: arc_times_def same)
    have shape: "arcs_shape b L A ?s" using inv(1) waits i unfolding arcs_shape_def same base by simp
    have on_arc: "tail_of id w ?now (arc_times s i @ [?now]) (?d @ [?now])" "length (?d @ [?now]) < 2 ^ 32"
      "length (filter (\<lambda>t. T - w < t \<and> t \<le> T) (arc_times s i @ [?now])) \<le> L" if "i \<in> A" for T
    proof -
      have lt: "length ?d < unat l" using allow dec(2) [OF that] by (simp add: length_as_u32)
      show "tail_of id w ?now (arc_times s i @ [?now]) (?d @ [?now])"
        by (rule tail_of_snoc [OF dec(1) [OF that]]) simp
      show "length (?d @ [?now]) < 2 ^ 32" using lt unat_u32_bound [of l] by simp
      show "length (filter (\<lambda>t. T - w < t \<and> t \<le> T) (arc_times s i @ [?now])) \<le> L"
        using window_count_snoc [of ?now w "arc_times s i" L T] lt dec(3) [OF that] i(3) that inv(2)
        by (simp add: arcs_bounded_def)
    qed
    have bounded: "arcs_bounded w L A ?s"
      using inv(2) on_arc i(1) unfolding arcs_bounded_def same base times by (auto simp: nth_list_update)
    have "counted b ?s = (if bucket_name key = b \<and> mapped s (rpm_key key) = Some i then insert ?g (counted b s) else counted b s)"
      by (auto simp: counted_def same)
    then have "grants_apart w b ?s"
      using inv(3) unfolding grants_apart_def base by (auto simp: bucket_keys)
    with shape bounded show ?thesis by (simp add: race_inv_def)
  qed
qed

lemma race_inv_run:
  assumes "race_inv w b L A s" "\<forall>key l. Acquire key l \<in> set es \<longrightarrow> bucket_name key = b \<longrightarrow> unat l \<le> L"
  shows "\<exists>A'. race_inv w b L A' (race_run w es s)"
  using assms
proof (induction es arbitrary: s A)
  case (Cons e es)
  have "\<exists>A'. race_inv w b L A' (race_exec w e s)"
  proof (cases e)
    case (Acquire key l)
    with Cons.prems race_inv_acquire [OF Cons.prems(1), of key l] show ?thesis by simp
  qed (use Cons.prems(1) race_inv_check race_inv_cleanup race_inv_clock in \<open>auto intro!: exI [of _ A]\<close>)
  then obtain A' where "race_inv w b L A' (race_exec w e s)" by blast
  from Cons.IH [OF this] Cons.prems(2) show ?case by simp
qed auto

section \<open>Properties\<close>

text \<open>On one \<open>Arc\<close>, and all the grants that later callers see.\<close>

lemma arc_window_count:
  assumes "race_inv w b L A s"
  shows "length (filter (\<lambda>g. in_window w T b g \<and> g_arc g = i) (grants s)) \<le> L"
proof (cases "i \<in> A")
  case True
  have "filter (\<lambda>g. in_window w T b g \<and> g_arc g = i) (grants s)
      = filter (\<lambda>g. T - w < g_time g \<and> g_time g \<le> T) (filter (\<lambda>g. g_arc g = i) (grants s))"
    using assms True by (auto simp: in_window_def race_inv_def arcs_shape_def intro!: filter_cong)
  then have "length (filter (\<lambda>g. in_window w T b g \<and> g_arc g = i) (grants s))
      = length (filter (\<lambda>t. T - w < t \<and> t \<le> T) (arc_times s i))"
    by (simp add: arc_times_def filter_map comp_def)
  then show ?thesis using assms True by (simp add: race_inv_def arcs_bounded_def)
next
  case False
  then have "filter (\<lambda>g. in_window w T b g \<and> g_arc g = i) (grants s) = []"
    using assms by (auto simp: filter_empty_conv in_window_def race_inv_def arcs_shape_def)
  then show ?thesis by simp
qed

lemma seen_window_count:
  assumes "race_inv w b L A s"
  shows "length (filter (\<lambda>g. in_window w T b g \<and> \<not> g_orphan g) (grants s)) \<le> L"
proof (cases "\<exists>g \<in> counted b s. in_window w T b g")
  case True
  then obtain g where g: "g \<in> counted b s" "in_window w T b g" by blast
  have same: "g_arc g' = g_arc g" if "g' \<in> counted b s" "in_window w T b g'" for g'
  proof (rule ccontr)
    assume "g_arc g' \<noteq> g_arc g"
    with assms g(1) that(1) have "g_time g' \<le> g_time g - w \<or> g_time g \<le> g_time g' - w"
      unfolding race_inv_def grants_apart_def by blast
    with g(2) that(2) show False unfolding in_window_def by linarith
  qed
  have eq: "(in_window w T b x \<and> \<not> g_orphan x) = ((in_window w T b x \<and> g_arc x = g_arc g) \<and> \<not> g_orphan x)"
    if "x \<in> set (grants s)" for x
    using same [of x] that by (auto simp: counted_def in_window_def)
  have "filter (\<lambda>g. in_window w T b g \<and> \<not> g_orphan g) (grants s)
      = filter (\<lambda>g. \<not> g_orphan g) (filter (\<lambda>g'. in_window w T b g' \<and> g_arc g' = g_arc g) (grants s))"
    unfolding filter_filter by (rule filter_cong [OF refl eq])
  then show ?thesis
    using arc_window_count [OF assms, of T "g_arc g"] by (simp only: order_trans [OF length_filter_le])
next
  case False
  then have "filter (\<lambda>g. in_window w T b g \<and> \<not> g_orphan g) (grants s) = []"
    by (auto simp: filter_empty_conv counted_def in_window_def)
  then show ?thesis by simp
qed

lemma length_filter_split:
  "length (filter P xs) = length (filter (\<lambda>x. P x \<and> \<not> Q x) xs) + length (filter (\<lambda>x. P x \<and> Q x) xs)"
  by (induction xs) auto

text \<open>
  C11. How hard the request limit is under concurrent calls, for any interleaving of calls and cleanup
  while the clock does not go back: if the limits a bucket is checked against are at most \<open>L\<close> (a reload
  may change them), then in no window have more than \<open>L\<close> of its requests been admitted, apart from
  those lost to the race the code documents: callers who took the window's \<open>Arc\<close> before cleanup dropped
  it from the map, and locked it after.  Those are counted, by \<open>g_orphan\<close>, and are at most \<open>L\<close> for each
  \<open>Arc\<close> that was dropped.
\<close>

theorem rpm_hard_but_for_races:
  assumes "s = race_run w es (race_new start)"
    and "\<forall>key limit. Acquire key limit \<in> set es \<longrightarrow> bucket_name key = b \<longrightarrow> unat limit \<le> L"
  shows "length (filter (in_window w T b) (grants s))
           \<le> L + length (filter (\<lambda>g. in_window w T b g \<and> g_orphan g) (grants s))
       \<and> length (filter (\<lambda>g. in_window w T b g \<and> g_arc g = i) (grants s)) \<le> L"
proof -
  obtain A where A: "race_inv w b L A s" using race_inv_run [OF race_inv_new assms(2)] assms(1) by blast
  show ?thesis
    using seen_window_count [OF A, of T] arc_window_count [OF A, of T i]
      length_filter_split [of "in_window w T b" "grants s" g_orphan] by simp
qed

text \<open>
  The race, with limit 2.  A request at time 0 leaves the window; two callers take its \<open>Arc\<close>, cleanup
  drops it, and two more callers find a new window: four requests are admitted at time 100, two of them
  unseen.  The comment of \<open>cleanup_stale\<close> expects one extra request.
\<close>

definition race_example :: "race_event list" where
  "race_example =
     (let m = ModelBucket ''m'' in
      [Acquire m 2, LockAndCheck 0, ClockTo 100, Acquire m 2, Acquire m 2, CleanupEntry 100 ''rl:model:m:rpm'',
       LockAndCheck 0, LockAndCheck 0, Acquire m 2, LockAndCheck 0, Acquire m 2, LockAndCheck 0, Acquire m 2, LockAndCheck 0])"

lemma race_example_grants:
  "map (\<lambda>g. (g_time g, g_arc g, g_orphan g)) (grants (race_run 60 race_example (race_new 0)))
     = [(0, 0, False), (100, 0, True), (100, 0, True), (100, 1, False), (100, 1, False)]"
  by code_simp

lemma rpm_hard_but_for_races_witness:
  "let gs = grants (race_run 60 race_example (race_new 0))
   in length (filter (in_window 60 120 ''rl:model:m'') gs) \<le> 2 + length (filter (\<lambda>g. in_window 60 120 ''rl:model:m'' g \<and> g_orphan g) gs)
    \<and> length (filter (in_window 60 59 ''rl:model:m'') gs) \<le> 2 + length (filter (\<lambda>g. in_window 60 59 ''rl:model:m'' g \<and> g_orphan g) gs)"
proof -
  have lim: "\<forall>key limit. Acquire key limit \<in> set race_example \<longrightarrow> bucket_name key = ''rl:model:m'' \<longrightarrow> unat limit \<le> 2"
    by (simp add: race_example_def Let_def)
  show ?thesis unfolding Let_def
    using rpm_hard_but_for_races [OF refl lim, of 60 120 0] rpm_hard_but_for_races [OF refl lim, of 60 59 0] by blast
qed

text \<open>
  The clock of the code is the wall clock.  When it goes back after entries were evicted, the limit is
  exceeded without any race: with limit 1, requests at 0 and, after a cleanup that read 100, at 10.
\<close>

lemma clock_back_exceeds_limit:
  "admissions ''rl:model:m'' [(0, CheckRpm (ModelBucket ''m'') 1), (100000, CleanupStale), (10, CheckRpm (ModelBucket ''m'') 1)]
     (mem_limiter_new 60) = [0, 10]"
  by (simp add: admits_def mem_check_rpm_def mem_limiter_new_def Let_def rpm_window_def evict_rpm_def cleanup_stale_def
      rpm_key_def)

end
