(* ===== verification/Rate_Limit_Redis.thy ===== *)
theory Rate_Limit_Redis
  imports Rate_Limit "HOL-Library.Signed_Division"
begin

text \<open>
  The Redis-backed limiter of \<^verbatim>\<open>server/src/rate_limit_redis.rs\<close>: the three Lua scripts
  and their callers.  The Redis commands the scripts issue, the Lua number conversion, the
  transport (\<open>invoke_async\<close>, which runs a script on the server or fails) and the UUID generator are
  parameters, the fields of \<open>redis_ops\<close>; \<open>'r\<close> is the state of the server and of the generator.
  \<open>Rate_Limit_Redis_Spec\<close> states what Redis documents of them and what follows.
\<close>

record 'r redis_ops =
  zremrangebyscore :: "string \<Rightarrow> int \<Rightarrow> int \<Rightarrow> 'r \<Rightarrow> 'r"
  zcard :: "string \<Rightarrow> 'r \<Rightarrow> int"
  zadd :: "string \<Rightarrow> int \<Rightarrow> string \<Rightarrow> 'r \<Rightarrow> 'r"
  zrange_all :: "string \<Rightarrow> 'r \<Rightarrow> string list"
  pexpire :: "string \<Rightarrow> int \<Rightarrow> 'r \<Rightarrow> 'r"
  lua_tonumber :: "string \<Rightarrow> int"
  invoke_script :: "('r \<Rightarrow> int \<times> 'r) \<Rightarrow> 'r \<Rightarrow> (string + int) \<times> 'r"
  uuid_v4 :: "'r \<Rightarrow> string \<times> 'r"

section \<open>The scripts\<close>

definition RPM_SCRIPT :: "'r redis_ops \<Rightarrow> string \<Rightarrow> int \<Rightarrow> int \<Rightarrow> int \<Rightarrow> string \<Rightarrow> 'r \<Rightarrow> int \<times> 'r" where
  "RPM_SCRIPT R key now window limit member r =
     (let r1 = zremrangebyscore R key 0 (now - window) r;
          count = zcard R key r1 in
      if limit \<le> count then (0, r1)
      else (1, pexpire R key (window + 1000) (zadd R key now member r1)))"

text \<open>\<open>string.sub(v, sep + 1)\<close> after \<open>string.find(v, ':', 1, true)\<close>: what follows the first colon.\<close>

definition after_colon :: "string \<Rightarrow> string option" where
  "after_colon v = (case dropWhile (\<lambda>c. c \<noteq> CHR '':'') v of [] \<Rightarrow> None | _ # rest \<Rightarrow> Some rest)"

definition TPM_CHECK_SCRIPT :: "'r redis_ops \<Rightarrow> string \<Rightarrow> int \<Rightarrow> int \<Rightarrow> 'r \<Rightarrow> int \<times> 'r" where
  "TPM_CHECK_SCRIPT R key now window r =
     (let r1 = zremrangebyscore R key 0 (now - window) r;
          total = foldl (\<lambda>total v. case after_colon v of None \<Rightarrow> total
                           | Some n \<Rightarrow> total + lua_tonumber R n) 0 (zrange_all R key r1)
      in (total, r1))"

definition TPM_RECORD_SCRIPT :: "'r redis_ops \<Rightarrow> string \<Rightarrow> int \<Rightarrow> string \<Rightarrow> int \<Rightarrow> 'r \<Rightarrow> int \<times> 'r" where
  "TPM_RECORD_SCRIPT R key now member window r =
     (1, pexpire R key (window + 1000) (zadd R key now member r))"

section \<open>The client\<close>

definition redis_window_ms :: "u64 \<Rightarrow> int" where
  "redis_window_ms window_secs = sint (window_secs * 1000)"

definition redis_retry_after :: "int \<Rightarrow> u64" where
  "redis_retry_after w = word_of_int (w sdiv 1000)"

definition redis_check_rpm ::
    "'r redis_ops \<Rightarrow> int \<Rightarrow> int \<Rightarrow> rate_limit_key \<Rightarrow> u32 \<Rightarrow> 'r \<Rightarrow> rate_limit_decision \<times> 'r" where
  "redis_check_rpm R w now key limit r =
     (case uuid_v4 R r of (member, r1) \<Rightarrow>
        (case invoke_script R (RPM_SCRIPT R (rpm_key key) now w (uint limit) member) r1 of
           (Inl e, r2) \<Rightarrow> (Allow, r2)
         | (Inr allowed, r2) \<Rightarrow> (if allowed = 0 then Denied (redis_retry_after w) else Allow, r2)))"

definition redis_check_tpm ::
    "'r redis_ops \<Rightarrow> int \<Rightarrow> int \<Rightarrow> rate_limit_key \<Rightarrow> u32 \<Rightarrow> 'r \<Rightarrow> rate_limit_decision \<times> 'r" where
  "redis_check_tpm R w now key limit r =
     (case invoke_script R (TPM_CHECK_SCRIPT R (tpm_key key) now w) r of
        (Inl e, r1) \<Rightarrow> (Allow, r1)
      | (Inr current_tokens, r1) \<Rightarrow>
          (if uint limit \<le> current_tokens then Denied (redis_retry_after w) else Allow, r1))"

definition redis_record_tokens ::
    "'r redis_ops \<Rightarrow> int \<Rightarrow> int \<Rightarrow> rate_limit_key \<Rightarrow> u32 \<Rightarrow> 'r \<Rightarrow> 'r" where
  "redis_record_tokens R w now key tokens r =
     (if tokens = 0 then r
      else
        (case uuid_v4 R r of (u, r1) \<Rightarrow>
           snd (invoke_script R
                  (TPM_RECORD_SCRIPT R (tpm_key key) now (u @ '':'' @ show_nat (unat tokens)) w) r1)))"

definition redis_limiter_ops :: "'r redis_ops \<Rightarrow> int \<Rightarrow> 'r limiter_ops" where
  "redis_limiter_ops R w =
     \<lparr>check_rpm = redis_check_rpm R w, check_tpm = redis_check_tpm R w,
      record_tokens = redis_record_tokens R w\<rparr>"

end
