(* ===== verification/Rate_Limit_Redis_Spec.thy ===== *)
theory Rate_Limit_Redis_Spec
  imports Rate_Limit_Redis
begin

text \<open>
  The token limit on Redis, from the calls that record usage to the check that sums it.  What Redis
  documents of its commands is \<open>redis_laws\<close>, over a view of the server: the sorted set of each key
  (member to score), its clock, the deadline a key expires at, the UUIDs issued so far and the fate of
  a script sent now.  Time passes by \<open>lapse\<close>, which also removes the keys whose deadline has come.
\<close>

section \<open>The server\<close>

datatype script_fate =
    Answered       \<comment> \<open>run, and the answer arrives\<close>
  | AnswerLost     \<comment> \<open>run, but the client sees an error\<close>
  | NotRun         \<comment> \<open>not run: the server cannot be reached\<close>

record 'r redis_view =
  zset :: "'r \<Rightarrow> string \<Rightarrow> (string \<rightharpoonup> int)"
  clock :: "'r \<Rightarrow> int"
  deadline :: "'r \<Rightarrow> string \<Rightarrow> int option"
  issued :: "'r \<Rightarrow> string set"
  fate :: "'r \<Rightarrow> script_fate"
  lapse :: "int \<Rightarrow> 'r \<Rightarrow> 'r"

definition expired :: "'r redis_view \<Rightarrow> int \<Rightarrow> 'r \<Rightarrow> string \<Rightarrow> bool" where
  "expired V t r k \<longleftrightarrow> (case deadline V r k of None \<Rightarrow> False | Some d \<Rightarrow> d \<le> t)"

text \<open>
  \<open>ZREMRANGEBYSCORE\<close> removes the members with a score in the closed range, and the key with its last
  member; \<open>ZADD\<close> adds a member or changes its score; \<open>ZRANGE 0 -1\<close> lists each member once;
  \<open>PEXPIRE\<close> sets the deadline of a key; the other keys stay as they are.
\<close>

definition zset_laws :: "'r redis_ops \<Rightarrow> 'r redis_view \<Rightarrow> bool" where
  "zset_laws R V \<longleftrightarrow>
     (\<forall>k a b r. zset V (zremrangebyscore R k a b r) = (zset V r)(k := (\<lambda>m.
        case zset V r k m of None \<Rightarrow> None | Some s \<Rightarrow> if a \<le> s \<and> s \<le> b then None else Some s)))
   \<and> (\<forall>k s m r. zset V (zadd R k s m r) = (zset V r)(k := (zset V r k)(m \<mapsto> s)))
   \<and> (\<forall>k r. distinct (zrange_all R k r) \<and> set (zrange_all R k r) = dom (zset V r k))
   \<and> (\<forall>k ms r. 0 < ms \<longrightarrow> zset V (pexpire R k ms r) = zset V r)
   \<and> (\<forall>t r. zset V (lapse V t r) = (\<lambda>k. if expired V t r k then Map.empty else zset V r k))
   \<and> (\<forall>r. zset V (snd (uuid_v4 R r)) = zset V r)"

definition deadline_laws :: "'r redis_ops \<Rightarrow> 'r redis_view \<Rightarrow> bool" where
  "deadline_laws R V \<longleftrightarrow>
     (\<forall>k a b r k'. deadline V (zremrangebyscore R k a b r) k' =
        (if k' = k \<and> zset V (zremrangebyscore R k a b r) k = Map.empty then None else deadline V r k'))
   \<and> (\<forall>k s m r. deadline V (zadd R k s m r) = deadline V r)
   \<and> (\<forall>k ms r. 0 < ms \<longrightarrow> zset V r k \<noteq> Map.empty \<longrightarrow>
        deadline V (pexpire R k ms r) = (deadline V r)(k \<mapsto> clock V r + ms))
   \<and> (\<forall>t r. deadline V (lapse V t r) = (\<lambda>k. if expired V t r k then None else deadline V r k))
   \<and> (\<forall>r. deadline V (snd (uuid_v4 R r)) = deadline V r)"

text \<open>Only \<open>lapse\<close> moves the clock and only the generator issues UUIDs, each new and without a colon.\<close>

definition frame_laws :: "'r redis_ops \<Rightarrow> 'r redis_view \<Rightarrow> bool" where
  "frame_laws R V \<longleftrightarrow>
     (\<forall>k a b r. clock V (zremrangebyscore R k a b r) = clock V r \<and> issued V (zremrangebyscore R k a b r) = issued V r)
   \<and> (\<forall>k s m r. clock V (zadd R k s m r) = clock V r \<and> issued V (zadd R k s m r) = issued V r)
   \<and> (\<forall>k ms r. clock V (pexpire R k ms r) = clock V r \<and> issued V (pexpire R k ms r) = issued V r)
   \<and> (\<forall>t r. clock V (lapse V t r) = t \<and> issued V (lapse V t r) = issued V r)
   \<and> (\<forall>r. clock V (snd (uuid_v4 R r)) = clock V r \<and> fate V (snd (uuid_v4 R r)) = fate V r)
   \<and> (\<forall>r. issued V (snd (uuid_v4 R r)) = insert (fst (uuid_v4 R r)) (issued V r)
        \<and> fst (uuid_v4 R r) \<notin> issued V r \<and> CHR '':'' \<notin> set (fst (uuid_v4 R r)))"

text \<open>The client: a script runs at most once, and \<open>tonumber\<close> reads a decimal \<open>u32\<close>.\<close>

definition client_laws :: "'r redis_ops \<Rightarrow> 'r redis_view \<Rightarrow> bool" where
  "client_laws R V \<longleftrightarrow>
     (\<forall>f r. invoke_script R f r =
        (case fate V r of
           Answered \<Rightarrow> (Inr (fst (f r)), snd (f r))
         | AnswerLost \<Rightarrow> (Inl ''connection lost'', snd (f r))
         | NotRun \<Rightarrow> (Inl ''connection refused'', r)))
   \<and> (\<forall>n < 2 ^ 32. lua_tonumber R (show_nat n) = int n)"

definition redis_laws :: "'r redis_ops \<Rightarrow> 'r redis_view \<Rightarrow> bool" where
  "redis_laws R V \<longleftrightarrow> zset_laws R V \<and> deadline_laws R V \<and> frame_laws R V \<and> client_laws R V"

section \<open>Calls\<close>

text \<open>The calls of all gateways that share the server, in the order it serves them, each at its time.\<close>

datatype redis_call =
    RedisRpm rate_limit_key u32
  | RedisTpm rate_limit_key u32
  | RedisRecord rate_limit_key u32

fun redis_exec :: "'r redis_ops \<Rightarrow> int \<Rightarrow> int \<Rightarrow> redis_call \<Rightarrow> 'r \<Rightarrow> 'r" where
  "redis_exec R w now (RedisRpm k l) r = snd (redis_check_rpm R w now k l r)"
| "redis_exec R w now (RedisTpm k l) r = snd (redis_check_tpm R w now k l r)"
| "redis_exec R w now (RedisRecord k t) r = redis_record_tokens R w now k t r"

fun redis_run :: "'r redis_ops \<Rightarrow> 'r redis_view \<Rightarrow> int \<Rightarrow> (int \<times> redis_call) list \<Rightarrow> 'r \<Rightarrow> 'r" where
  "redis_run R V w [] r = r"
| "redis_run R V w ((now, c) # tr) r = redis_run R V w tr (redis_exec R w now c (lapse V now r))"

text \<open>What the server was told of a bucket: the records of its tokens whose script ran.\<close>

fun recorded :: "'r redis_view \<Rightarrow> string \<Rightarrow> int \<Rightarrow> redis_call \<Rightarrow> 'r \<Rightarrow> (int \<times> nat) list" where
  "recorded V b now (RedisRecord k t) r =
     (if bucket_name k = b \<and> t \<noteq> 0 \<and> fate V r \<noteq> NotRun then [(now, unat t)] else [])"
| "recorded V b now c r = []"

fun redis_recorded ::
    "'r redis_ops \<Rightarrow> 'r redis_view \<Rightarrow> int \<Rightarrow> string \<Rightarrow> (int \<times> redis_call) list \<Rightarrow> 'r \<Rightarrow> (int \<times> nat) list" where
  "redis_recorded R V w b [] r = []"
| "redis_recorded R V w b ((now, c) # tr) r =
     recorded V b now c (lapse V now r) @ redis_recorded R V w b tr (redis_exec R w now c (lapse V now r))"

section \<open>Reading back a member\<close>

lemma after_colon_member:
  "CHR '':'' \<notin> set u \<Longrightarrow> after_colon (u @ CHR '':'' # n) = Some n"
proof -
  assume "CHR '':'' \<notin> set u"
  then have "dropWhile (\<lambda>c. c \<noteq> CHR '':'') (u @ CHR '':'' # n) = CHR '':'' # n"
    by (induction u) auto
  then show ?thesis by (simp add: after_colon_def)
qed

lemma before_colon_member:
  "CHR '':'' \<notin> set u \<Longrightarrow> takeWhile (\<lambda>c. c \<noteq> CHR '':'') (u @ CHR '':'' # n) = u"
  by (induction u) auto

text \<open>The member \<open>record_tokens\<close> writes for an entry: its UUID, a colon and its count.\<close>

type_synonym entry = "string \<times> int \<times> nat"

definition member_of :: "entry \<Rightarrow> string" where
  "member_of e = (case e of (u, t, n) \<Rightarrow> u @ '':'' @ show_nat n)"

lemma member_of_inj:
  assumes "member_of e = member_of e'" "CHR '':'' \<notin> set (fst e)" "CHR '':'' \<notin> set (fst e')"
  shows "fst e = fst e'"
  using arg_cong [OF assms(1), of "takeWhile (\<lambda>c. c \<noteq> CHR '':'')"] assms(2,3)
  by (simp add: member_of_def before_colon_member split: prod.splits)

text \<open>The sum of the script over members that list a set of entries, each once.\<close>

lemma script_sum:
  assumes "distinct ms" "set ms = member_of ` E" "inj_on member_of E" "finite E"
    and "\<forall>(u, t, n) \<in> E. CHR '':'' \<notin> set u \<and> lua_tonumber R (show_nat n) = int n"
  shows "foldl (\<lambda>total v. case after_colon v of None \<Rightarrow> total | Some n \<Rightarrow> total + lua_tonumber R n) 0 ms
       = int (\<Sum>(u, t, n) \<in> E. n)"
proof -
  let ?f = "\<lambda>v. case after_colon v of None \<Rightarrow> 0 | Some n \<Rightarrow> lua_tonumber R n"
  have "(\<lambda>total v. case after_colon v of None \<Rightarrow> total | Some n \<Rightarrow> total + lua_tonumber R n) = (\<lambda>total v. total + ?f v)"
    by (auto simp: fun_eq_iff split: option.split)
  moreover have "foldl (\<lambda>total v. total + ?f v) x ms = x + sum_list (map ?f ms)" for x
    by (induction ms arbitrary: x) (simp_all add: add.assoc)
  moreover have "sum_list (map ?f ms) = sum ?f (set ms)" using assms(1) by (rule sum_list_distinct_conv_sum_set)
  moreover have "sum ?f (set ms) = (\<Sum>e \<in> E. ?f (member_of e))"
    unfolding assms(2) by (subst sum.reindex [OF assms(3)]) simp
  moreover have "(\<Sum>e \<in> E. ?f (member_of e)) = (\<Sum>(u, t, n) \<in> E. int n)"
    using assms(5) by (intro sum.cong) (auto simp: member_of_def after_colon_member)
  ultimately show ?thesis by (simp add: case_prod_unfold)
qed

section \<open>What a token key holds\<close>

lemma redis_lawsD:
  assumes "redis_laws R V"
  shows "zset V (zremrangebyscore R k a b r) = (zset V r)(k := (\<lambda>m.
        case zset V r k m of None \<Rightarrow> None | Some s \<Rightarrow> if a \<le> s \<and> s \<le> b then None else Some s))"
    and "zset V (zadd R k s m r) = (zset V r)(k := (zset V r k)(m \<mapsto> s))"
    and "distinct (zrange_all R k r)" "set (zrange_all R k r) = dom (zset V r k)"
    and "0 < ms \<Longrightarrow> zset V (pexpire R k ms r) = zset V r"
    and "zset V (lapse V t r) = (\<lambda>k. if expired V t r k then Map.empty else zset V r k)"
    and "zset V (snd (uuid_v4 R r)) = zset V r"
    and "deadline V (zremrangebyscore R k a b r) k' =
        (if k' = k \<and> zset V (zremrangebyscore R k a b r) k = Map.empty then None else deadline V r k')"
    and "deadline V (zadd R k s m r) = deadline V r"
    and "0 < ms \<Longrightarrow> zset V r k \<noteq> Map.empty \<Longrightarrow> deadline V (pexpire R k ms r) = (deadline V r)(k \<mapsto> clock V r + ms)"
    and "deadline V (lapse V t r) = (\<lambda>k. if expired V t r k then None else deadline V r k)"
    and "deadline V (snd (uuid_v4 R r)) = deadline V r"
  using assms [unfolded redis_laws_def zset_laws_def deadline_laws_def] by simp_all

lemma redis_frameD:
  assumes "redis_laws R V"
  shows "clock V (zremrangebyscore R k a b r) = clock V r" "issued V (zremrangebyscore R k a b r) = issued V r"
    and "clock V (zadd R k s m r) = clock V r" "issued V (zadd R k s m r) = issued V r"
    and "clock V (pexpire R k ms r) = clock V r" "issued V (pexpire R k ms r) = issued V r"
    and "clock V (lapse V t r) = t" "issued V (lapse V t r) = issued V r"
    and "clock V (snd (uuid_v4 R r)) = clock V r" "fate V (snd (uuid_v4 R r)) = fate V r"
    and "issued V (snd (uuid_v4 R r)) = insert (fst (uuid_v4 R r)) (issued V r)"
    and "fst (uuid_v4 R r) \<notin> issued V r" "CHR '':'' \<notin> set (fst (uuid_v4 R r))"
    and "invoke_script R f r =
        (case fate V r of
           Answered \<Rightarrow> (Inr (fst (f r)), snd (f r))
         | AnswerLost \<Rightarrow> (Inl ''connection lost'', snd (f r))
         | NotRun \<Rightarrow> (Inl ''connection refused'', r))"
    and "n < 2 ^ 32 \<Longrightarrow> lua_tonumber R (show_nat n) = int n"
  using assms [unfolded redis_laws_def frame_laws_def client_laws_def] by simp_all

text \<open>
  The members of a token key are those of the entries \<open>E\<close> recorded for it, with their times as scores;
  an entry that is gone has left the window; a deadline leaves every member its window.
\<close>

definition sane_entry :: "'r redis_view \<Rightarrow> 'r \<Rightarrow> entry \<Rightarrow> bool" where
  "sane_entry V r e \<longleftrightarrow>
     CHR '':'' \<notin> set (fst e) \<and> fst e \<in> issued V r \<and> 0 \<le> fst (snd e) \<and> fst (snd e) \<le> clock V r
   \<and> snd (snd e) < 2 ^ 32"

definition token_inv :: "'r redis_view \<Rightarrow> int \<Rightarrow> string \<Rightarrow> 'r \<Rightarrow> entry list \<Rightarrow> bool" where
  "token_inv V w k r E \<longleftrightarrow>
     distinct (map fst E) \<and> (\<forall>e \<in> set E. sane_entry V r e)
   \<and> (\<forall>m s. zset V r k m = Some s \<longrightarrow> (\<exists>e \<in> set E. m = member_of e \<and> s = fst (snd e)))
   \<and> (\<forall>e \<in> set E. clock V r - w < fst (snd e) \<longrightarrow> zset V r k (member_of e) = Some (fst (snd e)))
   \<and> (\<forall>d m s. deadline V r k = Some d \<longrightarrow> zset V r k m = Some s \<longrightarrow> s + w + 1000 \<le> d)"

text \<open>Changes that keep the clock and only lose members that have left the window keep it.\<close>

lemma token_inv_shrink:
  assumes "token_inv V w k r E" "clock V r \<le> clock V r'" "issued V r \<subseteq> issued V r'"
    and "\<And>m s. zset V r' k m = Some s \<Longrightarrow> zset V r k m = Some s"
    and "\<And>m s. zset V r k m = Some s \<Longrightarrow> clock V r' - w < s \<Longrightarrow> zset V r' k m = Some s"
    and "deadline V r' k = None \<or> deadline V r' k = deadline V r k \<or> zset V r' k = Map.empty"
  shows "token_inv V w k r' E"
proof -
  have "sane_entry V r' e" if "e \<in> set E" for e
    using assms(1-3) that by (auto simp: token_inv_def sane_entry_def split: prod.splits)
  moreover have "zset V r' k (member_of e) = Some (fst (snd e))"
    if "e \<in> set E" "clock V r' - w < fst (snd e)" for e
  proof (rule assms(5) [OF _ that(2)])
    show "zset V r k (member_of e) = Some (fst (snd e))"
      using assms(1,2) that unfolding token_inv_def by auto
  qed
  moreover have "s + w + 1000 \<le> d" if "deadline V r' k = Some d" "zset V r' k m = Some s" for d m s
  proof -
    have "deadline V r k = Some d" using assms(6) that by auto
    with assms(1) assms(4) [OF that(2)] show ?thesis unfolding token_inv_def by blast
  qed
  moreover have "\<exists>e \<in> set E. m = member_of e \<and> s = fst (snd e)" if "zset V r' k m = Some s" for m s
    using assms(1) assms(4) [OF that] unfolding token_inv_def by blast
  moreover have "distinct (map fst E)" using assms(1) by (simp add: token_inv_def)
  ultimately show ?thesis unfolding token_inv_def by blast
qed

lemma token_inv_steps:
  assumes L: "redis_laws R V" and I: "token_inv V w k r E"
  shows "clock V r \<le> t \<Longrightarrow> 0 \<le> w \<Longrightarrow> token_inv V w k (lapse V t r) E"
    and "token_inv V w k (snd (uuid_v4 R r)) E"
    and "token_inv V w k (zremrangebyscore R k' 0 (clock V r - w) r) E"
    and "k \<noteq> k' \<Longrightarrow> 0 \<le> w \<Longrightarrow> token_inv V w k (pexpire R k' (w + 1000) (zadd R k' s m r)) E"
proof -
  note L = redis_lawsD [OF L] redis_frameD [OF L]
  show "token_inv V w k (lapse V t r) E" if "clock V r \<le> t" "0 \<le> w"
  proof (rule token_inv_shrink [OF I])
    show "zset V (lapse V t r) k m = Some s" if z: "zset V r k m = Some s" "clock V (lapse V t r) - w < s" for m s
    proof -
      have d: "s + w + 1000 \<le> d" if "deadline V r k = Some d" for d
        using I z(1) that unfolding token_inv_def by blast
      have "\<not> expired V t r k"
      proof (cases "deadline V r k")
        case (Some d)
        with d [OF Some] z(2) \<open>0 \<le> w\<close> show ?thesis by (simp add: expired_def L)
      qed (simp add: expired_def)
      with z show ?thesis by (simp add: L)
    qed
  qed (use that in \<open>auto simp: L split: if_splits\<close>)
  show "token_inv V w k (snd (uuid_v4 R r)) E"
    by (rule token_inv_shrink [OF I]) (auto simp: L)
  show "token_inv V w k (zremrangebyscore R k' 0 (clock V r - w) r) E"
    by (rule token_inv_shrink [OF I]) (auto simp: L split: option.splits if_splits)
  show "token_inv V w k (pexpire R k' (w + 1000) (zadd R k' s m r)) E" if "k \<noteq> k'" "0 \<le> w"
    by (rule token_inv_shrink [OF I]) (use that in \<open>auto simp: L\<close>)
qed

lemma token_inv_record:
  assumes L: "redis_laws R V" and I: "token_inv V w k r E" and "0 \<le> w" "0 \<le> clock V r" "n < 2 ^ 32"
    and u: "uuid_v4 R r = (u, r1)"
  shows "token_inv V w k
           (pexpire R k (w + 1000) (zadd R k (clock V r) (u @ '':'' @ show_nat n) r1)) (E @ [(u, clock V r, n)])"
    (is "token_inv V w k ?r' ?E'")
proof -
  obtain r' where r': "?r' = r'" by simp
  note laws = redis_lawsD [OF L] redis_frameD [OF L]
  have u': "zset V r1 = zset V r" "deadline V r1 = deadline V r" "clock V r1 = clock V r"
    "issued V r1 = insert u (issued V r)" "u \<notin> issued V r" "CHR '':'' \<notin> set u"
    using laws(7,12,21,23,24,25) [of r] u by simp_all
  let ?m = "member_of (u, clock V r, n)"
  have m: "u @ CHR '':'' # show_nat n = ?m" by (simp add: member_of_def)
  have z: "zset V r' k = (zset V r k)(?m \<mapsto> clock V r)" using assms(3) unfolding r' [symmetric] by (simp add: laws u' m)
  have d: "deadline V r' k = Some (clock V r + (w + 1000))" using assms(3) unfolding r' [symmetric] by (simp add: laws u')
  have c: "clock V r' = clock V r" "issued V r' = insert u (issued V r)" unfolding r' [symmetric] by (simp_all add: laws u')
  have old: "fst e \<in> issued V r \<and> CHR '':'' \<notin> set (fst e) \<and> fst (snd e) \<le> clock V r" if "e \<in> set E" for e
    using I that by (auto simp: token_inv_def sane_entry_def split: prod.splits)
  have other: "member_of e \<noteq> ?m" if "e \<in> set E" for e
    using member_of_inj [of e "(u, clock V r, n)"] old [OF that] u'(5,6) by auto
  have "distinct (map fst ?E')" using I old u'(5) by (auto simp: token_inv_def)
  moreover have "sane_entry V r' e" if "e \<in> set ?E'" for e
    using I that assms(4,5) u'(6) by (auto simp: token_inv_def sane_entry_def c split: prod.splits)
  moreover have "\<exists>e \<in> set ?E'. x = member_of e \<and> s = fst (snd e)" if "zset V r' k x = Some s" for x s
    using I that unfolding z by (auto simp: token_inv_def split: if_splits)
  moreover have "zset V r' k (member_of e) = Some (fst (snd e))"
    if "e \<in> set ?E'" "clock V r' - w < fst (snd e)" for e
  proof (cases "e \<in> set E")
    case True
    with I that(2) other [OF True] show ?thesis unfolding z c(1) token_inv_def by simp
  qed (use that(1) in \<open>simp add: z\<close>)
  moreover have "s + w + 1000 \<le> clock V r + (w + 1000)" if "zset V r' k x = Some s" for x s
  proof -
    have "\<exists>e \<in> set E. s = fst (snd e)" if "zset V r k x = Some s"
      using I that unfolding token_inv_def by blast
    with that old show ?thesis unfolding z by (auto split: if_splits)
  qed
  ultimately show ?thesis unfolding r' token_inv_def d by simp
qed

section \<open>Runs\<close>

lemma token_inv_check_script:
  assumes "redis_laws R V" "token_inv V w k r E"
  shows "token_inv V w k (snd (TPM_CHECK_SCRIPT R k' (clock V r) w r)) E"
  using token_inv_steps(3) [OF assms] by (simp add: TPM_CHECK_SCRIPT_def Let_def)

lemma token_inv_rpm_script:
  assumes "redis_laws R V" "token_inv V w k r E" "k \<noteq> k'" "0 \<le> w"
  shows "token_inv V w k (snd (RPM_SCRIPT R k' (clock V r) w l m r)) E"
  using token_inv_steps(3) [OF assms(1,2)] token_inv_steps(4) [OF assms(1) token_inv_steps(3) [OF assms(1,2)] assms(3,4)]
  by (simp add: RPM_SCRIPT_def Let_def)

text \<open>One call at the server's time, seen from one token key.\<close>

lemma token_inv_call:
  assumes L: "redis_laws R V" and I: "token_inv V w (b @ '':tpm'') r E" and "0 \<le> w" "0 \<le> clock V r"
  shows "\<exists>E'. token_inv V w (b @ '':tpm'') (redis_exec R w (clock V r) c r) E'
       \<and> map snd E' = map snd E @ recorded V b (clock V r) c r"
proof -
  note laws = redis_frameD [OF L]
  have I1: "token_inv V w (b @ '':tpm'') (snd (uuid_v4 R r)) E" by (rule token_inv_steps(2) [OF L I])
  obtain u r1 where u: "uuid_v4 R r = (u, r1)" by force
  then have c1: "clock V r1 = clock V r" "fate V r1 = fate V r" using laws(9,10) [of r] by simp_all
  show ?thesis
  proof (cases c)
    case (RedisRpm key l)
    have "rpm_key key \<noteq> b @ '':tpm''" by (auto simp: bucket_keys dest: arg_cong [of _ _ rev])
    then have "token_inv V w (b @ '':tpm'') (snd (RPM_SCRIPT R (rpm_key key) (clock V r) w (uint l) u r1)) E"
      using token_inv_rpm_script [OF L I1 _ assms(3)] u c1 by simp
    with I1 RedisRpm u show ?thesis
      by (intro exI [of _ E]) (auto simp: redis_check_rpm_def laws(14) c1 split: script_fate.split)
  next
    case (RedisTpm key l)
    with I token_inv_check_script [OF L I] show ?thesis
      by (intro exI [of _ E]) (auto simp: redis_check_tpm_def laws(14) split: script_fate.split)
  next
    case (RedisRecord key t)
    let ?r2 = "pexpire R (tpm_key key) (w + 1000) (zadd R (tpm_key key) (clock V r) (u @ '':'' @ show_nat (unat t)) r1)"
    have script: "TPM_RECORD_SCRIPT R (tpm_key key) (clock V r) (u @ '':'' @ show_nat (unat t)) w r1 = (1, ?r2)"
      by (simp add: TPM_RECORD_SCRIPT_def)
    have run: "redis_exec R w (clock V r) c r = (if t = 0 then r else if fate V r = NotRun then r1 else ?r2)"
      using RedisRecord u script by (auto simp: redis_record_tokens_def laws(14) c1 split: script_fate.split)
    show ?thesis
    proof (cases "bucket_name key = b")
      case True
      then have "token_inv V w (b @ '':tpm'') ?r2 (E @ [(u, clock V r, unat t)])"
        using token_inv_record [OF L I assms(3,4) unat_u32_bound u] by (simp add: bucket_keys)
      moreover have "token_inv V w (b @ '':tpm'') r1 E" using I1 u by simp
      ultimately show ?thesis using I True RedisRecord unfolding run
        by (cases "t = 0 \<or> fate V r = NotRun") (auto intro: exI [of _ E] exI [of _ "E @ [(u, clock V r, unat t)]"])
    next
      case False
      then have "b @ '':tpm'' \<noteq> tpm_key key" by (simp add: bucket_keys)
      then have "token_inv V w (b @ '':tpm'') ?r2 E" "token_inv V w (b @ '':tpm'') r1 E"
        using token_inv_steps(4) [OF L I1 _ assms(3)] I1 u by simp_all
      with I False RedisRecord show ?thesis unfolding run by (intro exI [of _ E]) auto
    qed
  qed
qed

lemma clock_exec: "redis_laws R V \<Longrightarrow> clock V (redis_exec R w now c r) = clock V r"
proof -
  assume L: "redis_laws R V"
  note laws = redis_frameD [OF L]
  obtain u r1 where u: "uuid_v4 R r = (u, r1)" by force
  then have c1: "clock V r1 = clock V r" using laws(9) [of r] by simp
  show ?thesis
    by (cases c) (auto simp: redis_check_rpm_def redis_check_tpm_def redis_record_tokens_def laws u c1
        RPM_SCRIPT_def TPM_CHECK_SCRIPT_def TPM_RECORD_SCRIPT_def Let_def split: script_fate.split)
qed

lemma token_inv_run:
  assumes L: "redis_laws R V" and "0 \<le> w" "0 \<le> clock V r" "sorted (clock V r # map fst tr)"
    and "token_inv V w (b @ '':tpm'') r E"
  shows "\<exists>E'. token_inv V w (b @ '':tpm'') (redis_run R V w tr r) E'
       \<and> map snd E' = map snd E @ redis_recorded R V w b tr r"
    and "clock V (redis_run R V w tr r) = last (clock V r # map fst tr)"
proof -
  have "(\<exists>E'. token_inv V w (b @ '':tpm'') (redis_run R V w tr r) E'
         \<and> map snd E' = map snd E @ redis_recorded R V w b tr r)
      \<and> clock V (redis_run R V w tr r) = last (clock V r # map fst tr)"
    using assms(3-)
  proof (induction tr arbitrary: r E)
    case (Cons x tr)
    obtain now c where x: "x = (now, c)" by force
    let ?r = "lapse V now r"
    have clk: "clock V ?r = now" "clock V r \<le> now" using Cons.prems(2) by (simp_all add: redis_frameD [OF L] x)
    have "token_inv V w (b @ '':tpm'') ?r E"
      by (rule token_inv_steps(1) [OF L Cons.prems(3) clk(2) assms(2)])
    from token_inv_call [OF L this assms(2), of c] clk Cons.prems(1) obtain E' where
      E': "token_inv V w (b @ '':tpm'') (redis_exec R w now c ?r) E'"
        "map snd E' = map snd E @ recorded V b now c ?r" by auto
    have "clock V (redis_exec R w now c ?r) = now" by (simp add: clock_exec [OF L] clk)
    with Cons.IH [of "redis_exec R w now c ?r" E'] E' clk Cons.prems(1,2) show ?case by (auto simp: x)
  qed auto
  then show "\<exists>E'. token_inv V w (b @ '':tpm'') (redis_run R V w tr r) E'
       \<and> map snd E' = map snd E @ redis_recorded R V w b tr r"
    and "clock V (redis_run R V w tr r) = last (clock V r # map fst tr)" by blast+
qed

text \<open>What the check script adds up: the entries recorded within the window.\<close>

lemma check_script_total:
  assumes L: "redis_laws R V" and I: "token_inv V w k r E"
  shows "fst (TPM_CHECK_SCRIPT R k (clock V r) w r)
       = int (sum_list (map snd (filter (\<lambda>(t, n). clock V r - w < t) (map snd E))))"
proof -
  note laws = redis_lawsD [OF L] redis_frameD [OF L]
  let ?r = "zremrangebyscore R k 0 (clock V r - w) r"
  let ?E = "{e \<in> set E. clock V r - w < fst (snd e)}"
  have sane: "sane_entry V r e" if "e \<in> set E" for e using I that by (simp add: token_inv_def)
  have dist: "distinct (map fst E)" using I by (simp add: token_inv_def)
  have inj: "inj_on member_of ?E"
  proof (rule inj_onI)
    fix e e' assume m: "e \<in> ?E" "e' \<in> ?E" "member_of e = member_of e'"
    then have "fst e = fst e'" using member_of_inj sane by (auto simp: sane_entry_def)
    with m dist show "e = e'" by (auto simp: distinct_map dest: inj_onD)
  qed
  have "dom (zset V ?r k) = member_of ` ?E"
  proof (intro equalityI subsetI)
    fix m assume "m \<in> dom (zset V ?r k)"
    then obtain s where s: "zset V r k m = Some s" "\<not> (0 \<le> s \<and> s \<le> clock V r - w)"
      by (auto simp: laws split: option.splits if_splits)
    with I obtain e where e: "e \<in> set E" "m = member_of e" "s = fst (snd e)" unfolding token_inv_def by blast
    with s sane [OF e(1)] show "m \<in> member_of ` ?E" by (auto simp: sane_entry_def)
  next
    fix m assume "m \<in> member_of ` ?E"
    then obtain e where e: "e \<in> set E" "clock V r - w < fst (snd e)" "m = member_of e" by auto
    with I have "zset V r k m = Some (fst (snd e))" unfolding token_inv_def by simp
    with e(2) show "m \<in> dom (zset V ?r k)" by (simp add: laws dom_def)
  qed
  then have "set (zrange_all R k ?r) = member_of ` ?E" by (simp add: laws)
  moreover have "\<forall>(u, t, n) \<in> ?E. CHR '':'' \<notin> set u \<and> lua_tonumber R (show_nat n) = int n"
    using sane by (auto simp: sane_entry_def laws)
  ultimately have "fst (TPM_CHECK_SCRIPT R k (clock V r) w r) = int (\<Sum>(u, t, n) \<in> ?E. n)"
    unfolding TPM_CHECK_SCRIPT_def Let_def fst_conv
    by (intro script_sum [OF redis_lawsD(3) [OF L] _ inj]) simp_all
  also have "(\<Sum>(u, t, n) \<in> ?E. n) = sum_list (map (snd \<circ> snd) (filter (\<lambda>e. clock V r - w < fst (snd e)) E))"
    using dist by (subst sum_list_distinct_conv_sum_set) (auto simp: distinct_map intro!: sum.cong)
  also have "map (snd \<circ> snd) (filter (\<lambda>e. clock V r - w < fst (snd e)) E)
      = map snd (filter (\<lambda>(t, n). clock V r - w < t) (map snd E))"
    by (simp add: filter_map comp_def case_prod_unfold)
  finally show ?thesis .
qed

section \<open>Properties\<close>

text \<open>
  C34. The token limit on Redis, end to end.  Run any calls of the gateways on a server whose clock they
  share and does not go back, starting without keys: a token check is denied exactly when the server
  answers it and the tokens that \<open>record_tokens\<close> recorded for its bucket during the window that ends
  now add up to the limit or more, and is allowed otherwise (fail open).  Calls for other buckets and
  request checks do not count, a record whose script did not run is lost, one whose answer was lost
  counts once, and the expiry of keys loses nothing of the window.  \<open>redis_laws\<close> is what Redis, Lua and
  the UUID generator document; Lua sums in doubles, exact as here below \<open>2^53\<close> tokens.
\<close>

theorem redis_check_tpm_sums:
  assumes "redis_laws R V" "0 \<le> w" "0 \<le> clock V r" "sorted (clock V r # map fst tr @ [now])"
    and "\<forall>k. zset V r k = Map.empty"
  shows "fst (redis_check_tpm R w now key limit (lapse V now (redis_run R V w tr r))) =
           (if fate V (lapse V now (redis_run R V w tr r)) = Answered
               \<and> unat limit \<le> sum_list (map snd
                   (filter (\<lambda>(t, n). now - w < t) (redis_recorded R V w (bucket_name key) tr r)))
            then Denied (redis_retry_after w) else Allow)"
proof -
  let ?k = "bucket_name key @ '':tpm''"
  let ?r = "redis_run R V w tr r" and ?rec = "redis_recorded R V w (bucket_name key) tr r"
  have I0: "token_inv V w ?k r []" using assms(5) by (simp add: token_inv_def)
  have srt: "sorted (clock V r # map fst tr)" using assms(4) by (simp add: sorted_append)
  obtain E where E: "token_inv V w ?k ?r E" "map snd E = ?rec"
    using token_inv_run(1) [OF assms(1-3) srt I0] by auto
  have "last (clock V r # map fst tr) \<le> now"
    using assms(4) last_in_set [of "clock V r # map fst tr"] by (auto simp: sorted_append)
  then have "clock V ?r \<le> now" by (simp only: token_inv_run(2) [OF assms(1-3) srt I0])
  then have "token_inv V w ?k (lapse V now ?r) E" by (rule token_inv_steps(1) [OF assms(1) E(1) _ assms(2)])
  from check_script_total [OF assms(1) this]
  have total: "fst (TPM_CHECK_SCRIPT R (tpm_key key) now w (lapse V now ?r))
      = int (sum_list (map snd (filter (\<lambda>(t, n). now - w < t) ?rec)))"
    by (simp add: redis_frameD [OF assms(1)] bucket_keys E(2))
  have "uint limit \<le> int n \<longleftrightarrow> unat limit \<le> n" for n by (simp only: uint_nat of_nat_le_iff)
  with total show ?thesis
    by (auto simp: redis_check_tpm_def redis_frameD [OF assms(1)] split: script_fate.split prod.splits)
qed

text \<open>
  A server for the example: the members of each key with their scores, newest first, the deadlines, the
  clock and the number of UUIDs issued.  It cannot be reached at time 3.
\<close>

record example_redis =
  ex_members :: "string \<Rightarrow> (string \<times> int) list"
  ex_deadline :: "string \<Rightarrow> int option"
  ex_clock :: int
  ex_issued :: nat

definition ex_remove :: "string \<Rightarrow> int \<Rightarrow> int \<Rightarrow> example_redis \<Rightarrow> example_redis" where
  "ex_remove k a b r =
     (let ms = filter (\<lambda>(m, s). \<not> (case map_of (ex_members r k) m of None \<Rightarrow> False | Some s \<Rightarrow> a \<le> s \<and> s \<le> b)) (ex_members r k)
      in r\<lparr>ex_members := (ex_members r)(k := ms),
           ex_deadline := (if ms = [] then (ex_deadline r)(k := None) else ex_deadline r)\<rparr>)"

definition ex_lapse :: "int \<Rightarrow> example_redis \<Rightarrow> example_redis" where
  "ex_lapse t r =
     (let gone = (\<lambda>k. case ex_deadline r k of None \<Rightarrow> False | Some d \<Rightarrow> d \<le> t)
      in r\<lparr>ex_members := (\<lambda>k. if gone k then [] else ex_members r k),
           ex_deadline := (\<lambda>k. if gone k then None else ex_deadline r k), ex_clock := t\<rparr>)"

definition ex_fate :: "example_redis \<Rightarrow> script_fate" where
  "ex_fate r = (if ex_clock r = 3 then NotRun else Answered)"

fun ex_number :: "nat \<Rightarrow> string \<Rightarrow> nat" where
  "ex_number acc [] = acc"
| "ex_number acc (c # s) = ex_number (10 * acc + ((of_char c :: nat) - 48)) s"

definition example_redis_ops :: "example_redis redis_ops" where
  "example_redis_ops =
     \<lparr>zremrangebyscore = ex_remove, zcard = (\<lambda>k r. int (length (remdups (map fst (ex_members r k))))),
      zadd = (\<lambda>k s m r. r\<lparr>ex_members := (ex_members r)(k := (m, s) # ex_members r k)\<rparr>),
      zrange_all = (\<lambda>k r. remdups (map fst (ex_members r k))),
      pexpire = (\<lambda>k ms r. if ex_members r k = [] then r
                           else r\<lparr>ex_deadline := (ex_deadline r)(k \<mapsto> ex_clock r + ms)\<rparr>),
      lua_tonumber = (\<lambda>s. int (ex_number 0 s)),
      invoke_script = (\<lambda>f r. if ex_fate r = NotRun then (Inl ''connection refused'', r) else (Inr (fst (f r)), snd (f r))),
      uuid_v4 = (\<lambda>r. (replicate (ex_issued r) CHR ''u'', r\<lparr>ex_issued := Suc (ex_issued r)\<rparr>))\<rparr>"

definition example_redis_view :: "example_redis redis_view" where
  "example_redis_view =
     \<lparr>zset = (\<lambda>r k. map_of (ex_members r k)), clock = ex_clock, deadline = ex_deadline,
      issued = (\<lambda>r. (\<lambda>i. replicate i CHR ''u'') ` {..<ex_issued r}), fate = ex_fate, lapse = ex_lapse\<rparr>"

lemma ex_number_snoc: "ex_number acc (s @ [c]) = 10 * ex_number acc s + ((of_char c :: nat) - 48)"
  by (induction acc s rule: ex_number.induct) simp_all

lemma ex_number_show: "ex_number 0 (show_nat n) = n"
proof (induction n rule: show_nat.induct)
  case (1 n)
  have d: "(of_char (digit_char m) :: nat) - 48 = m" if "m < 10" for m
    using that by (simp add: digit_char_def of_char_of)
  show ?case
  proof (cases "n < 10")
    case True
    then show ?thesis by (subst show_nat.simps) (simp add: d)
  next
    case False
    with 1 show ?thesis by (subst show_nat.simps) (simp add: ex_number_snoc d del: show_nat.simps)
  qed
qed

lemma map_of_filter_key: "map_of (filter (\<lambda>(m, s). P m) ms) = (\<lambda>m. if P m then map_of ms m else None)"
  by (induction ms) (auto simp: fun_eq_iff)

lemma map_of_empty_iff: "map_of ms = Map.empty \<longleftrightarrow> ms = []"
  by (cases ms) (auto simp: fun_eq_iff)

lemma example_redis_laws: "redis_laws example_redis_ops example_redis_view"
proof -
  have rem: "map_of (ex_members (ex_remove k a b r) k') = (if k' = k then (\<lambda>m.
        case map_of (ex_members r k) m of None \<Rightarrow> None | Some s \<Rightarrow> if a \<le> s \<and> s \<le> b then None else Some s)
      else map_of (ex_members r k'))" for k a b r k'
    by (auto simp: ex_remove_def Let_def map_of_filter_key fun_eq_iff split: option.split)
  have dl: "ex_deadline (ex_remove k a b r) k' =
      (if k' = k \<and> map_of (ex_members (ex_remove k a b r) k) = Map.empty then None else ex_deadline r k')" for k a b r k'
    by (simp add: map_of_empty_iff) (simp add: ex_remove_def Let_def)
  have "zset_laws example_redis_ops example_redis_view"
    by (auto simp: zset_laws_def example_redis_ops_def example_redis_view_def rem fun_eq_iff dom_map_of_conv_image_fst
        expired_def ex_lapse_def Let_def split: option.split)
  moreover have "deadline_laws example_redis_ops example_redis_view"
    unfolding deadline_laws_def example_redis_ops_def example_redis_view_def
    by (auto simp: dl map_of_empty_iff expired_def ex_lapse_def Let_def fun_eq_iff split: option.split)
  moreover have "frame_laws example_redis_ops example_redis_view"
    by (auto simp: frame_laws_def example_redis_ops_def example_redis_view_def ex_remove_def ex_lapse_def ex_fate_def
        Let_def lessThan_Suc dest: arg_cong [of _ _ length])
  moreover have "client_laws example_redis_ops example_redis_view"
    by (auto simp: client_laws_def example_redis_ops_def example_redis_view_def ex_fate_def ex_number_show)
  ultimately show ?thesis by (simp add: redis_laws_def)
qed

text \<open>
  Of four records two count at time 1004 in a window of 1000: the first is too old, the second was not
  run and the last is another model's.
\<close>

lemma redis_check_tpm_sums_witness:
  "let tr = [(2, RedisRecord (ModelBucket ''m'') 9), (3, RedisRecord (ModelBucket ''m'') 9),
             (5, RedisRecord (ModelBucket ''m'') 4), (6, RedisRecord (ModelBucket ''m'') 12),
             (7, RedisRecord (ModelBucket ''n'') 9)];
       r = redis_run example_redis_ops example_redis_view 1000 tr
             \<lparr>ex_members = (\<lambda>_. []), ex_deadline = (\<lambda>_. None), ex_clock = 0, ex_issued = 0\<rparr>
   in fst (redis_check_tpm example_redis_ops 1000 1004 (ModelBucket ''m'') 16 (ex_lapse 1004 r)) = Denied 1
    \<and> fst (redis_check_tpm example_redis_ops 1000 1004 (ModelBucket ''m'') 17 (ex_lapse 1004 r)) = Allow"
proof -
  let ?r0 = "\<lparr>ex_members = (\<lambda>_. []), ex_deadline = (\<lambda>_. None), ex_clock = 0, ex_issued = 0\<rparr>"
  let ?tr = "[(2, RedisRecord (ModelBucket ''m'') 9), (3, RedisRecord (ModelBucket ''m'') 9),
             (5, RedisRecord (ModelBucket ''m'') 4), (6, RedisRecord (ModelBucket ''m'') 12),
             (7, RedisRecord (ModelBucket ''n'') 9)]"
  have clk: "clock example_redis_view = ex_clock" "fate example_redis_view = ex_fate" "lapse example_redis_view = ex_lapse"
    by (simp_all add: example_redis_view_def)
  have at: "ex_clock (ex_lapse t r) = t" for t r by (simp add: ex_lapse_def Let_def)
  have rec: "redis_recorded example_redis_ops example_redis_view 1000 (bucket_name (ModelBucket ''m'')) ?tr ?r0
      = [(2, 9), (5, 4), (6, 12)]"
    by (simp add: clk at ex_fate_def)
  have srt: "sorted (clock example_redis_view ?r0 # map fst ?tr @ [1004])" "0 \<le> clock example_redis_view ?r0"
    "\<forall>k. zset example_redis_view ?r0 k = Map.empty"
    by (simp_all add: example_redis_view_def)
  have "fst (redis_check_tpm example_redis_ops 1000 1004 (ModelBucket ''m'') l (ex_lapse 1004
          (redis_run example_redis_ops example_redis_view 1000 ?tr ?r0)))
      = (if unat l \<le> 16 then Denied 1 else Allow)" for l
    using redis_check_tpm_sums [OF example_redis_laws _ srt(2,1,3), where w = 1000 and key = "ModelBucket ''m''" and limit = l]
    unfolding rec by (simp add: clk at ex_fate_def redis_retry_after_def del: redis_run.simps)
  then show ?thesis unfolding Let_def by (simp del: redis_run.simps)
qed

end
