(* ===== verification/Http.thy ===== *)
theory Http
  imports Node
begin

text \<open>
  The shared vocabulary of the HTTP side: the library functions the gateway calls as parameters
  (\<open>lib\<close>: JSON values of an abstract type \<open>'j\<close>, header value conversion), headers, requests to
  upstreams, responses to clients, the error responses of \<^verbatim>\<open>server/src/router.rs\<close> and
  \<^verbatim>\<open>server/src/middleware.rs\<close>, and \<open>apply_provider_headers\<close> of
  \<^verbatim>\<open>core/src/header_utils.rs\<close>.  Header names are lower case.
\<close>

section \<open>Library parameters\<close>

record 'j lib =
  j_parse :: "string \<Rightarrow> 'j option"            \<comment> \<open>\<open>from_slice\<close>, \<open>from_str\<close>\<close>
  j_get :: "string \<Rightarrow> 'j \<Rightarrow> 'j option"
  j_get0 :: "'j \<Rightarrow> 'j option"                 \<comment> \<open>\<open>get(0)\<close>\<close>
  j_as_u64 :: "'j \<Rightarrow> u64 option"
  j_as_str :: "'j \<Rightarrow> string option"
  j_as_bool :: "'j \<Rightarrow> bool option"
  j_put :: "string \<Rightarrow> 'j \<Rightarrow> 'j \<Rightarrow> 'j"          \<comment> \<open>\<open>v[k] = x\<close>\<close>
  j_null :: 'j
  j_bool :: "bool \<Rightarrow> 'j"
  j_int :: "int \<Rightarrow> 'j"
  j_str :: "string \<Rightarrow> 'j"
  j_list :: "'j list \<Rightarrow> 'j"
  j_obj :: "(string \<times> 'j) list \<Rightarrow> 'j"
  j_to_string :: "'j \<Rightarrow> string"               \<comment> \<open>\<open>serde_json::to_string\<close>\<close>
  hv_to_str :: "string \<Rightarrow> string option"      \<comment> \<open>\<open>HeaderValue::to_str\<close>\<close>
  hv_from_str :: "string \<Rightarrow> string option"    \<comment> \<open>\<open>HeaderValue::from_str\<close>\<close>

section \<open>Messages\<close>

type_synonym headers = "(string \<times> string) list"

definition header_get :: "string \<Rightarrow> headers \<Rightarrow> string option" where
  "header_get name hs = map_of hs name"

text \<open>\<open>HeaderMap::insert\<close> replaces every value of the name.\<close>

definition header_insert :: "string \<Rightarrow> string \<Rightarrow> headers \<Rightarrow> headers" where
  "header_insert name v hs = (name, v) # filter (\<lambda>(n, _). n \<noteq> name) hs"

datatype 'j body = BodyText string | BodyBytes string | BodyJson 'j | BodyStream

record 'j response =
  status :: nat
  resp_headers :: headers
  body :: "'j body"

definition is_success :: "nat \<Rightarrow> bool" where
  "is_success s \<longleftrightarrow> 200 \<le> s \<and> s < 300"

text \<open>\<open>StatusCode::from_u16(s).unwrap_or(INTERNAL_SERVER_ERROR)\<close>.\<close>

definition status_from_u16 :: "nat \<Rightarrow> nat" where
  "status_from_u16 s = (if 100 \<le> s \<and> s < 1000 then s else 500)"

record 'j http_request =
  req_method :: string
  req_url :: string
  req_headers :: headers
  req_json :: "'j option"

section \<open>Error responses of the router\<close>

definition bad_request :: "string \<Rightarrow> 'j response" where
  "bad_request message = \<lparr>status = 400, resp_headers = [], body = BodyText message\<rparr>"

definition internal_error :: "'j lib \<Rightarrow> string \<Rightarrow> 'j response" where
  "internal_error J message =
     \<lparr>status = 500, resp_headers = [],
      body = BodyJson (j_obj J [(''error'', j_obj J
        [(''message'', j_str J message), (''type'', j_str J ''internal_error''),
         (''param'', j_null J), (''code'', j_str J ''storage_error'')])])\<rparr>"

definition service_unavailable :: "string \<Rightarrow> 'j response" where
  "service_unavailable message = \<lparr>status = 503, resp_headers = [], body = BodyText message\<rparr>"

definition model_not_found :: "'j lib \<Rightarrow> string \<Rightarrow> 'j response" where
  "model_not_found J mid =
     \<lparr>status = 404, resp_headers = [],
      body = BodyJson (j_obj J [(''error'', j_obj J
        [(''message'', j_str J (''No upstream available for model '' @ quoted mid)),
         (''type'', j_str J ''model_not_found'')])])\<rparr>"

definition missing_provider_header :: "'j lib \<Rightarrow> 'j response" where
  "missing_provider_header J =
     \<lparr>status = 400, resp_headers = [],
      body = BodyJson (j_obj J [(''error'', j_obj J
        [(''message'', j_str J (''Missing required header '' @ quoted ''x-mp-provider''
            @ ''. All /v1/responses requests must specify a provider, e.g. ''
            @ quoted ''x-mp-provider: aliyun.beijing'' @ ''.'')),
         (''type'', j_str J ''missing_header''),
         (''code'', j_str J ''missing_x_tp_provider'')])])\<rparr>"

definition provider_not_found :: "'j lib \<Rightarrow> string \<Rightarrow> 'j response" where
  "provider_not_found J pid =
     \<lparr>status = 400, resp_headers = [],
      body = BodyJson (j_obj J [(''error'', j_obj J
        [(''message'', j_str J (''No available upstream found for provider '' @ quoted pid
            @ ''. Check that the provider id matches a configured credential name.'')),
         (''type'', j_str J ''provider_not_found''),
         (''code'', j_str J ''provider_not_found'')])])\<rparr>"

section \<open>Request headers\<close>

definition extract_api_key :: "'j lib \<Rightarrow> headers \<Rightarrow> string option" where
  "extract_api_key J hs =
     (case Option.bind (Option.bind (header_get ''authorization'' hs) (hv_to_str J)) (strip_prefix ''Bearer '') of
        Some token \<Rightarrow>
          (if token \<noteq> [] then Some token else Option.bind (header_get ''x-api-key'' hs) (hv_to_str J))
      | None \<Rightarrow> Option.bind (header_get ''x-api-key'' hs) (hv_to_str J))"

definition nonempty :: "string \<Rightarrow> string option" where
  "nonempty s = (if s = [] then None else Some s)"

definition extract_provider_id :: "'j lib \<Rightarrow> headers \<Rightarrow> string option" where
  "extract_provider_id J hs =
     Option.bind (Option.bind (header_get ''x-mp-provider'' hs) (hv_to_str J)) nonempty"

definition extract_routing_key :: "'j lib \<Rightarrow> headers \<Rightarrow> string option" where
  "extract_routing_key J hs =
     (case Option.bind (Option.bind (header_get ''x-mp-routing-key'' hs) (hv_to_str J)) nonempty of
        Some key \<Rightarrow> Some key
      | None \<Rightarrow> extract_api_key J hs)"

section \<open>Headers for upstreams\<close>

text \<open>\<open>RequestBuilder::header\<close> appends; the argument is the request's headers so far.\<close>

definition apply_provider_headers ::
    "'j lib \<Rightarrow> api_compatibility \<Rightarrow> string option \<Rightarrow> headers \<Rightarrow> headers" where
  "apply_provider_headers J ac auth_header hs =
     (case ac of
        AnthropicApi \<Rightarrow>
          (case auth_header of
             None \<Rightarrow> hs
           | Some auth \<Rightarrow>
               (case hv_to_str J auth of
                  None \<Rightarrow> hs
                | Some auth_str \<Rightarrow>
                    (let api_key = (case strip_prefix ''Bearer '' auth_str of Some k \<Rightarrow> k | None \<Rightarrow> auth_str)
                     in hs @ [(''x-api-key'', api_key), (''anthropic-version'', ''2023-06-01'')])))
      | OpenAiApi \<Rightarrow> (case auth_header of None \<Rightarrow> hs | Some auth \<Rightarrow> hs @ [(''authorization'', auth)])
      | NativeApi \<Rightarrow> (case auth_header of None \<Rightarrow> hs | Some auth \<Rightarrow> hs @ [(''authorization'', auth)]))"

section \<open>An instance of the library parameters\<close>

text \<open>JSON values as trees; the parser stays open.  Used where a statement is evaluated.\<close>

datatype json = JNull | JBool bool | JNum u64 | JNeg int | JStr string | JList "json list"
  | JObj "(string \<times> json) list"

fun json_get :: "string \<Rightarrow> json \<Rightarrow> json option" where
  "json_get k (JObj kvs) = map_of kvs k"
| "json_get k v = None"

fun json_get0 :: "json \<Rightarrow> json option" where
  "json_get0 (JList (v # _)) = Some v"
| "json_get0 v = None"

fun json_as_u64 :: "json \<Rightarrow> u64 option" where
  "json_as_u64 (JNum n) = Some n"
| "json_as_u64 v = None"

fun json_as_str :: "json \<Rightarrow> string option" where
  "json_as_str (JStr s) = Some s"
| "json_as_str v = None"

fun json_as_bool :: "json \<Rightarrow> bool option" where
  "json_as_bool (JBool b) = Some b"
| "json_as_bool v = None"

fun json_put :: "string \<Rightarrow> json \<Rightarrow> json \<Rightarrow> json" where
  "json_put k x (JObj kvs) = JObj ((k, x) # filter (\<lambda>(k', _). k' \<noteq> k) kvs)"
| "json_put k x v = JObj [(k, x)]"

definition json_lib :: "(string \<Rightarrow> json option) \<Rightarrow> json lib" where
  "json_lib parse =
     \<lparr>j_parse = parse, j_get = json_get, j_get0 = json_get0, j_as_u64 = json_as_u64,
      j_as_str = json_as_str, j_as_bool = json_as_bool, j_put = json_put, j_null = JNull,
      j_bool = JBool, j_int = (\<lambda>i. if 0 \<le> i then JNum (of_int i) else JNeg i), j_str = JStr,
      j_list = JList, j_obj = JObj, j_to_string = (\<lambda>_. ''{}''), hv_to_str = Some, hv_from_str = Some\<rparr>"

end
