(* ===== verification/Retry.thy ===== *)
theory Retry
  imports Http "HOL-Library.Signed_Division"
begin

text \<open>
  The retry executor of \<^verbatim>\<open>core/src/upstream/retry.rs\<close>.  The operation and the two
  callbacks are functions over the state they change; the loop counts attempts from 0 and stops at
  \<open>max(max_retries, 1)\<close>, so the attempt number stays below \<open>2^32\<close> and is a \<open>nat\<close> here.
  The floating-point arithmetic of the backoff is a parameter (\<open>f32_ops\<close>), and so is the random
  draw for the jitter.
\<close>

section \<open>Configuration and backoff\<close>

record 'g retry_config =
  max_retries :: u32
  initial_backoff_ms :: u64
  max_backoff_ms :: u64
  backoff_multiplier :: 'g
  jitter_factor :: 'g

record 'g f32_ops =
  g_powi :: "'g \<Rightarrow> int \<Rightarrow> 'g"
  g_mul :: "'g \<Rightarrow> 'g \<Rightarrow> 'g"
  g_of_u64 :: "u64 \<Rightarrow> 'g"
  g_to_u64 :: "'g \<Rightarrow> u64"      \<comment> \<open>\<open>as u64\<close>: saturating, NaN to 0\<close>
  g_to_i64 :: "'g \<Rightarrow> int"      \<comment> \<open>\<open>as i64\<close>\<close>
  g_clamp01 :: "'g \<Rightarrow> 'g"      \<comment> \<open>\<open>clamp(0.0, 1.0)\<close>\<close>
  g_pos :: "'g \<Rightarrow> bool"        \<comment> \<open>\<open>> 0.0\<close>\<close>
  g_neg :: "'g \<Rightarrow> 'g"
  g_round :: "'g \<Rightarrow> 'g"
  g_max :: "'g \<Rightarrow> 'g \<Rightarrow> 'g"

definition default_retry_config :: "'g \<Rightarrow> 'g \<Rightarrow> 'g retry_config" where
  "default_retry_config one_and_half one_fifth =
     \<lparr>max_retries = 5, initial_backoff_ms = 50, max_backoff_ms = 30000,
      backoff_multiplier = one_and_half, jitter_factor = one_fifth\<rparr>"

text \<open>
  \<open>draw j\<close> is the sample from \<open>-j..=j\<close>.  The delay is in milliseconds (with \<open>max_backoff_ms\<close> below
  \<open>2^62\<close> the \<open>i64\<close> sum does not overflow); the final
  \<open>as u64\<close> of a non-negative \<open>i64\<close> is exact.
\<close>

definition calculate_delay :: "'g f32_ops \<Rightarrow> ('g \<Rightarrow> 'g) \<Rightarrow> 'g retry_config \<Rightarrow> nat \<Rightarrow> nat" where
  "calculate_delay F draw cfg attempt =
     (let pow = g_powi F (backoff_multiplier cfg) (sint (of_nat attempt :: u32));
          delay_ms = min (g_to_u64 F (g_mul F (g_of_u64 F (initial_backoff_ms cfg)) pow)) (max_backoff_ms cfg);
          jitter = g_clamp01 F (jitter_factor cfg) in
      if g_pos F jitter then
        (let jitter_scale = draw jitter;
             jitter_ms = g_max F (g_round F (g_mul F (g_of_u64 F delay_ms) jitter_scale))
                           (g_neg F (g_of_u64 F delay_ms))
         in nat (max (sint delay_ms + g_to_i64 F jitter_ms) 0))
      else unat delay_ms)"

definition is_retryable_status :: "nat \<Rightarrow> bool" where
  "is_retryable_status s \<longleftrightarrow> s = 408 \<or> s = 429 \<or> s = 500 \<or> s = 502 \<or> s = 503 \<or> s = 504"

section \<open>The loop\<close>

text \<open>
  \<open>on_backoff\<close> gets the delay, the next attempt and the status, \<open>on_exhausted\<close> nothing.
\<close>

function retry_loop ::
    "nat \<Rightarrow> (nat \<Rightarrow> nat) \<Rightarrow> (nat \<Rightarrow> 's \<Rightarrow> 'r \<times> 's) \<Rightarrow> ('r \<Rightarrow> nat) \<Rightarrow> ('r \<Rightarrow> nat \<Rightarrow> bool)
       \<Rightarrow> (nat \<Rightarrow> nat \<Rightarrow> nat \<Rightarrow> 's \<Rightarrow> 's) \<Rightarrow> ('s \<Rightarrow> 's) \<Rightarrow> nat \<Rightarrow> 's \<Rightarrow> 'r \<times> 's" where
  "retry_loop max_attempts delay_of operation status_of should_retry on_backoff on_exhausted attempt s =
     (case operation attempt s of (response, s1) \<Rightarrow>
        (let is_last = max_attempts \<le> attempt + 1 in
         if \<not> should_retry response attempt then (response, s1)
         else if is_last then (response, on_exhausted s1)
         else
           (let next_attempt = attempt + 1;
                delay = delay_of attempt
            in retry_loop max_attempts delay_of operation status_of should_retry on_backoff on_exhausted
                 next_attempt (on_backoff delay next_attempt (status_of response) s1))))"
  by pat_completeness auto
termination by (relation "measure (\<lambda>(m, _, _, _, _, _, _, a, _). m - a)") auto

declare retry_loop.simps [simp del]

definition execute_response_with_retry ::
    "'g f32_ops \<Rightarrow> ('g \<Rightarrow> 'g) \<Rightarrow> 'g retry_config \<Rightarrow> (nat \<Rightarrow> 's \<Rightarrow> 'r \<times> 's) \<Rightarrow> ('r \<Rightarrow> nat)
       \<Rightarrow> ('r \<Rightarrow> nat \<Rightarrow> bool) \<Rightarrow> (nat \<Rightarrow> nat \<Rightarrow> nat \<Rightarrow> 's \<Rightarrow> 's) \<Rightarrow> ('s \<Rightarrow> 's) \<Rightarrow> 's \<Rightarrow> 'r \<times> 's" where
  "execute_response_with_retry F draw cfg operation status_of should_retry on_backoff on_exhausted s =
     retry_loop (unat (max (max_retries cfg) 1)) (calculate_delay F draw cfg) operation status_of
       should_retry on_backoff on_exhausted 0 s"

section \<open>What a run looks like\<close>

text \<open>
  An attempt whose response is retried, with the state after the backoff callback; a run of such
  attempts; then the attempt that ends the loop.
\<close>

inductive retried ::
    "(nat \<Rightarrow> nat) \<Rightarrow> (nat \<Rightarrow> 's \<Rightarrow> 'r \<times> 's) \<Rightarrow> ('r \<Rightarrow> nat) \<Rightarrow> ('r \<Rightarrow> nat \<Rightarrow> bool)
       \<Rightarrow> (nat \<Rightarrow> nat \<Rightarrow> nat \<Rightarrow> 's \<Rightarrow> 's) \<Rightarrow> nat \<Rightarrow> 's \<Rightarrow> nat \<Rightarrow> 's \<Rightarrow> bool"
  for delay_of operation status_of should_retry on_backoff where
  retried_none: "retried delay_of operation status_of should_retry on_backoff a s a s"
| retried_one: "operation a s = (r, s1) \<Longrightarrow> should_retry r a \<Longrightarrow>
     retried delay_of operation status_of should_retry on_backoff (Suc a)
       (on_backoff (delay_of a) (Suc a) (status_of r) s1) b s' \<Longrightarrow>
     retried delay_of operation status_of should_retry on_backoff a s b s'"

lemma retry_loop_run:
  assumes "a < m"
  shows "\<exists>b s1 r s2. a \<le> b \<and> b < m
       \<and> retried delay_of operation status_of should_retry on_backoff a s b s1
       \<and> operation b s1 = (r, s2)
       \<and> (if should_retry r b
          then Suc b = m \<and> retry_loop m delay_of operation status_of should_retry on_backoff on_exhausted a s
                 = (r, on_exhausted s2)
          else retry_loop m delay_of operation status_of should_retry on_backoff on_exhausted a s = (r, s2))"
  using assms
proof (induction "m - a" arbitrary: a s)
  case (Suc n)
  let ?loop = "retry_loop m delay_of operation status_of should_retry on_backoff on_exhausted"
  let ?retried = "retried delay_of operation status_of should_retry on_backoff"
  obtain r s1 where op: "operation a s = (r, s1)" by force
  have step: "?loop a s =
      (if \<not> should_retry r a then (r, s1)
       else if m \<le> a + 1 then (r, on_exhausted s1)
       else ?loop (a + 1) (on_backoff (delay_of a) (a + 1) (status_of r) s1))"
    by (subst retry_loop.simps) (simp add: op Let_def)
  show ?case
  proof (cases "should_retry r a \<and> \<not> m \<le> a + 1")
    case False
    then show ?thesis
      using step op Suc.prems retried_none
      by (intro exI [of _ a] exI [of _ s] exI [of _ r] exI [of _ s1]) auto
  next
    case True
    let ?s = "on_backoff (delay_of a) (a + 1) (status_of r) s1"
    have "n = m - (a + 1)" "a + 1 < m" using Suc.hyps(2) True by simp_all
    from Suc.hyps(1) [OF this, of ?s] obtain b s2 r2 s3 where IH: "a + 1 \<le> b" "b < m"
      "?retried (a + 1) ?s b s2" "operation b s2 = (r2, s3)"
      "if should_retry r2 b then Suc b = m \<and> ?loop (a + 1) ?s = (r2, on_exhausted s3)
       else ?loop (a + 1) ?s = (r2, s3)" by auto
    have "?retried a s b s2"
      by (rule retried_one [where r = r and ?s1.0 = s1]) (use op True IH(3) in simp_all)
    moreover have "?loop a s = ?loop (a + 1) ?s" using True step by simp
    ultimately show ?thesis using IH
      by (intro exI [of _ b] exI [of _ s2] exI [of _ r2] exI [of _ s3]) auto
  qed
qed simp

section \<open>Properties\<close>

text \<open>
  C26. The executor makes at least one and at most \<open>max(max_retries, 1)\<close> attempts: attempts
  \<open>0, ..., b - 1\<close> answer something to be retried and are each followed by one backoff, attempt \<open>b\<close>
  gives the response that is returned, and \<open>on_exhausted\<close> runs exactly when that response should
  have been retried and \<open>b\<close> was the last attempt allowed.
\<close>

theorem retry_attempts:
  "\<exists>b s1 r s2. b < unat (max (max_retries cfg) 1)
       \<and> retried (calculate_delay F draw cfg) operation status_of should_retry on_backoff 0 s b s1
       \<and> operation b s1 = (r, s2)
       \<and> (if should_retry r b
          then Suc b = unat (max (max_retries cfg) 1)
            \<and> execute_response_with_retry F draw cfg operation status_of should_retry on_backoff on_exhausted s
                = (r, on_exhausted s2)
          else execute_response_with_retry F draw cfg operation status_of should_retry on_backoff on_exhausted s
                = (r, s2))"
proof -
  have "max (max_retries cfg) 1 \<noteq> 0" by (auto simp: max_def)
  then have "0 < unat (max (max_retries cfg) 1)" by (simp add: unat_gt_0)
  from retry_loop_run [OF this, of "calculate_delay F draw cfg" operation status_of should_retry
      on_backoff s on_exhausted]
  obtain b s1 r s2 where run: "b < unat (max (max_retries cfg) 1)"
    "retried (calculate_delay F draw cfg) operation status_of should_retry on_backoff 0 s b s1"
    "operation b s1 = (r, s2)"
    "if should_retry r b
     then Suc b = unat (max (max_retries cfg) 1)
       \<and> execute_response_with_retry F draw cfg operation status_of should_retry on_backoff on_exhausted s
           = (r, on_exhausted s2)
     else execute_response_with_retry F draw cfg operation status_of should_retry on_backoff on_exhausted s
           = (r, s2)"
    unfolding execute_response_with_retry_def by blast
  then show ?thesis
    by (intro exI [of _ b] exI [of _ s1] exI [of _ r] exI [of _ s2]) (simp split: if_split)
qed

end
