(* ===== verification/Sse.thy ===== *)
theory Sse
  imports Http
begin

text \<open>
  Token usage and finish reasons read from upstream bodies, and the line buffer of the streaming
  tasks (\<^verbatim>\<open>server/src/router.rs\<close>).  Bytes are \<open>char\<close> lists.  The checks
  that \<open>std\<close> does on them (UTF-8 validity, \<open>lines\<close>, \<open>trim\<close>) are defined here; JSON stays
  a parameter.
\<close>

section \<open>Text\<close>

abbreviation NL :: char where "NL \<equiv> CHR 0x0A"
abbreviation CR :: char where "CR \<equiv> CHR 0x0D"

text \<open>\<open>str::from_utf8(bytes).is_ok()\<close>: the well-formed sequences of the Unicode standard.\<close>

definition byte :: "char \<Rightarrow> nat" where
  "byte c = of_char c"

definition cont :: "char \<Rightarrow> bool" where
  "cont c \<longleftrightarrow> 0x80 \<le> byte c \<and> byte c \<le> 0xBF"

definition second_of_3 :: "nat \<Rightarrow> char \<Rightarrow> bool" where
  "second_of_3 a b \<longleftrightarrow> cont b \<and> (a = 0xE0 \<longrightarrow> 0xA0 \<le> byte b) \<and> (a = 0xED \<longrightarrow> byte b \<le> 0x9F)"

definition second_of_4 :: "nat \<Rightarrow> char \<Rightarrow> bool" where
  "second_of_4 a b \<longleftrightarrow> cont b \<and> (a = 0xF0 \<longrightarrow> 0x90 \<le> byte b) \<and> (a = 0xF4 \<longrightarrow> byte b \<le> 0x8F)"

text \<open>The number of bytes of the first character, 0 when the first bytes are not one.\<close>

definition char_width :: "string \<Rightarrow> nat" where
  "char_width s =
     (case s of
        [] \<Rightarrow> 0
      | a # t \<Rightarrow>
          (if byte a < 0x80 then 1
           else if 0xC2 \<le> byte a \<and> byte a \<le> 0xDF then
             (case t of b # _ \<Rightarrow> if cont b then 2 else 0 | [] \<Rightarrow> 0)
           else if 0xE0 \<le> byte a \<and> byte a \<le> 0xEF then
             (case t of b # c # _ \<Rightarrow> if second_of_3 (byte a) b \<and> cont c then 3 else 0 | _ \<Rightarrow> 0)
           else if 0xF0 \<le> byte a \<and> byte a \<le> 0xF4 then
             (case t of b # c # d # _ \<Rightarrow> if second_of_4 (byte a) b \<and> cont c \<and> cont d then 4 else 0 | _ \<Rightarrow> 0)
           else 0))"

lemma char_width_Nil [simp]: "char_width [] = 0"
  by (simp add: char_width_def)

function utf8_valid :: "string \<Rightarrow> bool" where
  "utf8_valid s =
     (if s = [] then True
      else if char_width s = 0 then False
      else utf8_valid (drop (char_width s) s))"
  by pat_completeness auto
termination by (relation "measure length") auto

declare utf8_valid.simps [simp del]

text \<open>\<open>lines\<close>: pieces that end with a newline, or the rest; one \<open>\r\<close> before the newline goes too.\<close>

fun split_inclusive :: "string \<Rightarrow> string list" where
  "split_inclusive [] = []"
| "split_inclusive (c # s) =
     (if c = NL then [c] # split_inclusive s
      else (case split_inclusive s of [] \<Rightarrow> [[c]] | l # ls \<Rightarrow> (c # l) # ls))"

definition strip_eol :: "string \<Rightarrow> string" where
  "strip_eol l =
     (case strip_suffix [NL] l of
        None \<Rightarrow> l
      | Some l1 \<Rightarrow> (case strip_suffix [CR] l1 of None \<Rightarrow> l1 | Some l2 \<Rightarrow> l2))"

definition lines_of :: "string \<Rightarrow> string list" where
  "lines_of s = map strip_eol (split_inclusive s)"

text \<open>
  \<open>trim\<close> and \<open>trim_start\<close> drop characters with the Unicode \<open>White_Space\<close> property, given by
  their UTF-8 bytes.
\<close>

definition whitespace_chars :: "string list" where
  "whitespace_chars =
     map (\<lambda>n. [char_of n]) [9, 10, 11, 12, 13, 32 :: nat]
     @ map (map char_of) [[0xC2, 0x85], [0xC2, 0xA0], [0xE1, 0x9A, 0x80 :: nat]]
     @ map (\<lambda>n. map char_of [0xE2, 0x80, n]) ([0x80..<0x8B] @ [0xA8, 0xA9, 0xAF])
     @ map (map char_of) [[0xE2, 0x81, 0x9F], [0xE3, 0x80, 0x80 :: nat]]"

definition drop_any :: "string list \<Rightarrow> string \<Rightarrow> string option" where
  "drop_any ws s =
     (case filter (\<lambda>w. w \<noteq> [] \<and> starts_with w s) ws of [] \<Rightarrow> None | w # _ \<Rightarrow> Some (drop (length w) s))"

lemma drop_any_shorter: "drop_any ws s = Some t \<Longrightarrow> length t < length s"
proof -
  assume "drop_any ws s = Some t"
  then obtain w wl where w: "filter (\<lambda>w. w \<noteq> [] \<and> starts_with w s) ws = w # wl"
    and t: "t = drop (length w) s"
    by (auto simp: drop_any_def split: list.splits)
  from w have "w \<in> set (filter (\<lambda>w. w \<noteq> [] \<and> starts_with w s) ws)" by simp
  then have "w \<noteq> []" "starts_with w s" by auto
  then have "s \<noteq> []" by (auto simp: starts_with_def)
  with \<open>w \<noteq> []\<close> show ?thesis by (simp add: t)
qed

function trim_left :: "string list \<Rightarrow> string \<Rightarrow> string" where
  "trim_left ws s = (case drop_any ws s of None \<Rightarrow> s | Some t \<Rightarrow> trim_left ws t)"
  by pat_completeness auto
termination by (relation "measure (\<lambda>(ws, s). length s)") (auto dest: drop_any_shorter)

declare trim_left.simps [simp del]

definition trim_start :: "string \<Rightarrow> string" where
  "trim_start s = trim_left whitespace_chars s"

definition trim_end :: "string \<Rightarrow> string" where
  "trim_end s = rev (trim_left (map rev whitespace_chars) (rev s))"

definition trim :: "string \<Rightarrow> string" where
  "trim s = trim_end (trim_start s)"

section \<open>Usage in a JSON body\<close>

record token_usage =
  prompt_tokens :: u32
  completion_tokens :: u32
  total_tokens :: u32

definition no_usage :: token_usage where
  "no_usage = \<lparr>prompt_tokens = 0, completion_tokens = 0, total_tokens = 0\<rparr>"

definition opt_u64 :: "'j lib \<Rightarrow> string \<Rightarrow> 'j \<Rightarrow> u64 option" where
  "opt_u64 J k v = Option.bind (j_get J k v) (j_as_u64 J)"

definition opt_str :: "'j lib \<Rightarrow> string \<Rightarrow> 'j \<Rightarrow> string option" where
  "opt_str J k v = Option.bind (j_get J k v) (j_as_str J)"

text \<open>\<open>.unwrap_or(0) as u32\<close>: the cast keeps the low 32 bits.\<close>

definition count_field :: "'j lib \<Rightarrow> string \<Rightarrow> 'j \<Rightarrow> u32" where
  "count_field J k v = ucast (case opt_u64 J k v of Some t \<Rightarrow> t | None \<Rightarrow> 0)"

text \<open>The sums wrap, as in a release build.\<close>

definition chat_usage :: "'j lib \<Rightarrow> 'j \<Rightarrow> token_usage" where
  "chat_usage J usage =
     (let prompt = count_field J ''prompt_tokens'' usage;
          completion = count_field J ''completion_tokens'' usage;
          total = ucast (case opt_u64 J ''total_tokens'' usage of
                           Some t \<Rightarrow> t | None \<Rightarrow> (ucast (prompt + completion) :: u64))
      in \<lparr>prompt_tokens = prompt, completion_tokens = completion, total_tokens = total\<rparr>)"

definition anthropic_usage :: "'j lib \<Rightarrow> 'j \<Rightarrow> token_usage" where
  "anthropic_usage J usage =
     (let prompt = count_field J ''input_tokens'' usage;
          completion = count_field J ''output_tokens'' usage;
          total = prompt + completion
      in \<lparr>prompt_tokens = prompt, completion_tokens = completion, total_tokens = total\<rparr>)"

definition responses_usage :: "'j lib \<Rightarrow> 'j \<Rightarrow> token_usage" where
  "responses_usage J usage =
     (let prompt = count_field J ''input_tokens'' usage;
          completion = count_field J ''output_tokens'' usage;
          total = ucast (case opt_u64 J ''total_tokens'' usage of
                           Some t \<Rightarrow> t | None \<Rightarrow> (ucast (prompt + completion) :: u64))
      in \<lparr>prompt_tokens = prompt, completion_tokens = completion, total_tokens = total\<rparr>)"

definition extract_usage_from_json :: "'j lib \<Rightarrow> string \<Rightarrow> token_usage option" where
  "extract_usage_from_json J bytes =
     Option.bind (j_parse J bytes) (\<lambda>v. map_option (chat_usage J) (j_get J ''usage'' v))"

definition extract_anthropic_usage_from_json :: "'j lib \<Rightarrow> string \<Rightarrow> token_usage option" where
  "extract_anthropic_usage_from_json J bytes =
     Option.bind (j_parse J bytes) (\<lambda>v. map_option (anthropic_usage J) (j_get J ''usage'' v))"

definition extract_responses_usage_from_json :: "'j lib \<Rightarrow> string \<Rightarrow> token_usage option" where
  "extract_responses_usage_from_json J bytes =
     Option.bind (j_parse J bytes) (\<lambda>v. map_option (responses_usage J) (j_get J ''usage'' v))"

section \<open>Finish reason in a JSON body\<close>

definition choice_finish_reason :: "'j lib \<Rightarrow> 'j \<Rightarrow> string option" where
  "choice_finish_reason J v =
     Option.bind (Option.bind (j_get J ''choices'' v) (j_get0 J)) (opt_str J ''finish_reason'')"

definition or_empty :: "string option \<Rightarrow> string" where
  "or_empty r = (case r of Some s \<Rightarrow> s | None \<Rightarrow> '''')"

definition extract_finish_reason_from_json :: "'j lib \<Rightarrow> string \<Rightarrow> string" where
  "extract_finish_reason_from_json J bytes =
     (case j_parse J bytes of None \<Rightarrow> '''' | Some v \<Rightarrow> or_empty (choice_finish_reason J v))"

definition extract_anthropic_finish_reason_from_json :: "'j lib \<Rightarrow> string \<Rightarrow> string" where
  "extract_anthropic_finish_reason_from_json J bytes =
     (case j_parse J bytes of None \<Rightarrow> '''' | Some v \<Rightarrow> or_empty (opt_str J ''stop_reason'' v))"

definition extract_responses_status_from_json :: "'j lib \<Rightarrow> string \<Rightarrow> string" where
  "extract_responses_status_from_json J bytes =
     (case j_parse J bytes of None \<Rightarrow> '''' | Some v \<Rightarrow> or_empty (opt_str J ''status'' v))"

section \<open>Server-sent events\<close>

definition data_payload :: "string \<Rightarrow> string option" where
  "data_payload line = map_option trim_start (strip_prefix ''data:'' line)"

definition counts :: "token_usage \<Rightarrow> bool" where
  "counts u \<longleftrightarrow> 0 < prompt_tokens u \<or> 0 < completion_tokens u"

text \<open>One line of the loop: the usage it gives, if any.\<close>

definition sse_line_usage :: "'j lib \<Rightarrow> ('j \<Rightarrow> token_usage) \<Rightarrow> string \<Rightarrow> token_usage option" where
  "sse_line_usage J usage_of line =
     (case data_payload line of
        None \<Rightarrow> None
      | Some json_str \<Rightarrow>
          (if trim json_str = ''[DONE]'' then None
           else case j_parse J json_str of
                  None \<Rightarrow> None
                | Some v \<Rightarrow>
                    (case j_get J ''usage'' v of
                       None \<Rightarrow> None
                     | Some usage \<Rightarrow> (let u = usage_of usage in if counts u then Some u else None))))"

definition last_found :: "('a \<Rightarrow> 'b option) \<Rightarrow> 'b option \<Rightarrow> 'a list \<Rightarrow> 'b option" where
  "last_found f = foldl (\<lambda>found x. case f x of Some y \<Rightarrow> Some y | None \<Rightarrow> found)"

fun first_found :: "('a \<Rightarrow> 'b option) \<Rightarrow> 'a list \<Rightarrow> 'b option" where
  "first_found f [] = None"
| "first_found f (x # xs) = (case f x of Some y \<Rightarrow> Some y | None \<Rightarrow> first_found f xs)"

definition extract_usage_from_sse_chunk :: "'j lib \<Rightarrow> string \<Rightarrow> token_usage option" where
  "extract_usage_from_sse_chunk J bytes =
     (if utf8_valid bytes
      then last_found (sse_line_usage J (chat_usage J)) None (lines_of bytes) else None)"

definition extract_anthropic_usage_from_sse_chunk :: "'j lib \<Rightarrow> string \<Rightarrow> token_usage option" where
  "extract_anthropic_usage_from_sse_chunk J bytes =
     (if utf8_valid bytes
      then last_found (sse_line_usage J (anthropic_usage J)) None (lines_of bytes) else None)"

definition sse_line_finish_reason :: "'j lib \<Rightarrow> string \<Rightarrow> string option" where
  "sse_line_finish_reason J line =
     (case data_payload line of
        None \<Rightarrow> None
      | Some json_str \<Rightarrow>
          (if trim json_str = ''[DONE]'' then None
           else Option.bind (Option.bind (j_parse J json_str) (choice_finish_reason J)) nonempty))"

definition extract_finish_reason_from_sse_chunk :: "'j lib \<Rightarrow> string \<Rightarrow> string option" where
  "extract_finish_reason_from_sse_chunk J bytes =
     (if utf8_valid bytes then first_found (sse_line_finish_reason J) (lines_of bytes) else None)"

definition sse_line_stop_reason :: "'j lib \<Rightarrow> string \<Rightarrow> string option" where
  "sse_line_stop_reason J line =
     Option.bind (Option.bind (data_payload line) (j_parse J))
       (\<lambda>v. if opt_str J ''type'' v = Some ''message_delta''
            then Option.bind (Option.bind (j_get J ''delta'' v) (opt_str J ''stop_reason'')) nonempty
            else None)"

definition extract_anthropic_finish_reason_from_sse_chunk :: "'j lib \<Rightarrow> string \<Rightarrow> string option" where
  "extract_anthropic_finish_reason_from_sse_chunk J bytes =
     (if utf8_valid bytes then first_found (sse_line_stop_reason J) (lines_of bytes) else None)"

section \<open>Events of the Responses API\<close>

record responses_scan =
  scan_usage :: "token_usage option"
  scan_response_id :: "string option"
  scan_status :: "string option"
  scan_event :: "string option"

definition or_else :: "'a option \<Rightarrow> 'a option \<Rightarrow> 'a option" where
  "or_else a b = (case a of Some x \<Rightarrow> Some x | None \<Rightarrow> b)"

definition on_created :: "'j lib \<Rightarrow> 'j \<Rightarrow> responses_scan \<Rightarrow> responses_scan" where
  "on_created J v st =
     (case or_else (Option.bind (j_get J ''response'' v) (opt_str J ''id'')) (opt_str J ''id'' v) of
        Some i \<Rightarrow> st\<lparr>scan_response_id := Some i\<rparr>
      | None \<Rightarrow> st)"

definition on_completed :: "'j lib \<Rightarrow> 'j \<Rightarrow> responses_scan \<Rightarrow> responses_scan" where
  "on_completed J v st =
     (let st1 = (case or_else (Option.bind (j_get J ''response'' v) (j_get J ''usage'')) (j_get J ''usage'' v) of
                   Some u \<Rightarrow> (let us = responses_usage J u in if counts us then st\<lparr>scan_usage := Some us\<rparr> else st)
                 | None \<Rightarrow> st)
      in case or_else (Option.bind (j_get J ''response'' v) (opt_str J ''status'')) (opt_str J ''status'' v) of
           Some s \<Rightarrow> st1\<lparr>scan_status := Some s\<rparr>
         | None \<Rightarrow> st1)"

definition responses_line :: "'j lib \<Rightarrow> responses_scan \<Rightarrow> string \<Rightarrow> responses_scan" where
  "responses_line J st line =
     (case strip_prefix ''event:'' line of
        Some event_type \<Rightarrow> st\<lparr>scan_event := Some (trim event_type)\<rparr>
      | None \<Rightarrow>
          (case data_payload line of
             Some json_str \<Rightarrow>
               (if trim json_str = ''[DONE]'' then st\<lparr>scan_event := None\<rparr>
                else
                  (let st3 = (case j_parse J json_str of
                                None \<Rightarrow> st
                              | Some v \<Rightarrow>
                                  (let evt = scan_event st;
                                       type_field = opt_str J ''type'' v;
                                       is_created = (evt = Some ''response.created''
                                                   \<or> type_field = Some ''response.created'');
                                       st1 = (if is_created \<and> scan_response_id st = None
                                              then on_created J v st else st);
                                       is_completed = (evt = Some ''response.completed''
                                                     \<or> type_field = Some ''response.completed'')
                                   in if is_completed then on_completed J v st1 else st1))
                   in st3\<lparr>scan_event := None\<rparr>))
           | None \<Rightarrow> if line = [] then st\<lparr>scan_event := None\<rparr> else st))"

definition empty_scan :: responses_scan where
  "empty_scan = \<lparr>scan_usage = None, scan_response_id = None, scan_status = None, scan_event = None\<rparr>"

definition parse_responses_sse_chunk ::
    "'j lib \<Rightarrow> string \<Rightarrow> token_usage option \<times> string option \<times> string option" where
  "parse_responses_sse_chunk J bytes =
     (if utf8_valid bytes
      then (let st = foldl (responses_line J) empty_scan (lines_of bytes)
            in (scan_usage st, scan_response_id st, scan_status st))
      else (None, None, None))"

section \<open>The line buffer\<close>

definition MAX_CARRY :: nat where
  "MAX_CARRY = 1048576"

fun rposition :: "('a \<Rightarrow> bool) \<Rightarrow> 'a list \<Rightarrow> nat option" where
  "rposition p [] = None"
| "rposition p (x # xs) =
     (case rposition p xs of Some i \<Rightarrow> Some (Suc i) | None \<Rightarrow> if p x then Some 0 else None)"

text \<open>\<open>parse\<close> is the closure: it updates what the caller has collected so far.\<close>

definition sse_push :: "(string \<Rightarrow> 'a \<Rightarrow> 'a) \<Rightarrow> string \<Rightarrow> string \<times> 'a \<Rightarrow> string \<times> 'a" where
  "sse_push parse bytes st =
     (case st of (carry0, acc) \<Rightarrow>
       (let carry = carry0 @ bytes;
            (carry1, acc1) = (case rposition (\<lambda>b. b = NL) carry of
                                Some nl \<Rightarrow> (drop (Suc nl) carry, parse (take (Suc nl) carry) acc)
                              | None \<Rightarrow> (carry, acc))
        in (if MAX_CARRY < length carry1 then [] else carry1, acc1)))"

definition sse_flush :: "(string \<Rightarrow> 'a \<Rightarrow> 'a) \<Rightarrow> string \<times> 'a \<Rightarrow> string \<times> 'a" where
  "sse_flush parse st =
     (case st of (carry, acc) \<Rightarrow> if carry = [] then st else ([], parse carry acc))"

section \<open>The closures of the three streaming tasks\<close>

type_synonym collected = "token_usage \<times> string"

definition keep_new :: "'a option \<Rightarrow> 'a \<Rightarrow> 'a" where
  "keep_new r old = (case r of Some x \<Rightarrow> x | None \<Rightarrow> old)"

definition chat_on_span :: "'j lib \<Rightarrow> string \<Rightarrow> collected \<Rightarrow> collected" where
  "chat_on_span J span c =
     (case c of (last_usage, last_finish_reason) \<Rightarrow>
        (keep_new (extract_usage_from_sse_chunk J span) last_usage,
         keep_new (extract_finish_reason_from_sse_chunk J span) last_finish_reason))"

definition messages_on_span :: "'j lib \<Rightarrow> string \<Rightarrow> collected \<Rightarrow> collected" where
  "messages_on_span J span c =
     (case c of (last_usage, last_finish_reason) \<Rightarrow>
        (keep_new (extract_anthropic_usage_from_sse_chunk J span) last_usage,
         keep_new (extract_anthropic_finish_reason_from_sse_chunk J span) last_finish_reason))"

definition responses_on_span :: "'j lib \<Rightarrow> string \<Rightarrow> collected \<Rightarrow> collected" where
  "responses_on_span J span c =
     (case c of (last_usage, last_finish_reason) \<Rightarrow>
        (case parse_responses_sse_chunk J span of (chunk_usage, _, chunk_status) \<Rightarrow>
           (keep_new chunk_usage last_usage, keep_new chunk_status last_finish_reason)))"

definition sse_scan :: "(string \<Rightarrow> 'a \<Rightarrow> 'a) \<Rightarrow> string list \<Rightarrow> 'a \<Rightarrow> 'a" where
  "sse_scan parse chunks acc = snd (sse_flush parse (foldl (\<lambda>st b. sse_push parse b st) ([], acc) chunks))"

end
