(* ===== verification/Sse_Chunking.thy ===== *)
theory Sse_Chunking
  imports Sse
begin

text \<open>
  The streaming tasks see a stream cut into arbitrary chunks.  This theory shows what they collect
  does not depend on the cuts, through a locale (\<open>span_parser\<close>) for the closures that the line
  buffer drives, and shows the one case where it does.
\<close>

section \<open>Cutting at a newline\<close>

lemma cont_NL [simp]: "\<not> cont NL"
  by (simp add: cont_def byte_def)

lemma second_NL [simp]: "\<not> second_of_3 a NL" "\<not> second_of_4 a NL"
  by (simp_all add: second_of_3_def second_of_4_def)

lemma char_width_append_NL: "a \<noteq> [] \<Longrightarrow> char_width (a @ NL # b) = char_width a"
  unfolding char_width_def by (auto split: list.splits)

lemma char_width_le: "char_width a \<le> length a"
  unfolding char_width_def by (auto split: list.splits)

lemma char_width_NL [simp]: "char_width (NL # b) = 1"
  by (simp add: char_width_def byte_def)

lemma utf8_valid_Nil [simp]: "utf8_valid []"
  by (subst utf8_valid.simps) simp

lemma utf8_valid_append_NL: "utf8_valid (a @ NL # b) \<longleftrightarrow> utf8_valid a \<and> utf8_valid b"
proof (induction a rule: utf8_valid.induct)
  case (1 a)
  show ?case
  proof (cases "a = []")
    case True
    then show ?thesis by (subst utf8_valid.simps) simp
  next
    case False
    have d: "drop (char_width a) (a @ NL # b) = drop (char_width a) a @ NL # b"
      using char_width_le [of a] by (simp add: diff_is_0_eq [THEN iffD2])
    show ?thesis
    proof (cases "char_width a = 0")
      case True
      with False show ?thesis
        by (subst (1 2) utf8_valid.simps) (simp add: char_width_append_NL)
    next
      case nz: False
      have "utf8_valid (a @ NL # b) = utf8_valid (drop (char_width a) a @ NL # b)"
        by (subst utf8_valid.simps) (simp only: d char_width_append_NL [OF False] nz if_False
            append_is_Nil_conv list.distinct simp_thms)
      also have "\<dots> \<longleftrightarrow> utf8_valid (drop (char_width a) a) \<and> utf8_valid b"
        by (rule 1) (use False nz in auto)
      also have "utf8_valid (drop (char_width a) a) = utf8_valid a"
        by (subst (2) utf8_valid.simps) (simp add: False nz)
      finally show ?thesis .
    qed
  qed
qed

text \<open>A span: nothing, or something that ends with a newline.\<close>

definition complete :: "string \<Rightarrow> bool" where
  "complete x \<longleftrightarrow> x = [] \<or> last x = NL"

lemma completeE:
  assumes "complete x"
  obtains "x = []" | y where "x = y @ [NL]"
  using assms unfolding complete_def by (metis append_butlast_last_id)

lemma utf8_valid_complete: "complete x \<Longrightarrow> utf8_valid (x @ y) \<longleftrightarrow> utf8_valid x \<and> utf8_valid y"
  using utf8_valid_append_NL [of _ "[]"] utf8_valid_append_NL by (elim completeE) simp_all

lemma split_inclusive_snoc: "split_inclusive (a @ [NL]) \<noteq> []"
  by (induction a) (auto split: list.splits)

lemma split_inclusive_append_NL:
  "split_inclusive (a @ NL # b) = split_inclusive (a @ [NL]) @ split_inclusive b"
proof (induction a)
  case (Cons c a)
  obtain l ls where "split_inclusive (a @ [NL]) = l # ls"
    using split_inclusive_snoc [of a] by (meson list.exhaust)
  with Cons show ?case by simp
qed simp

lemma split_inclusive_complete:
  "complete x \<Longrightarrow> split_inclusive (x @ y) = split_inclusive x @ split_inclusive y"
  using split_inclusive_append_NL [of _ y] by (elim completeE) simp_all

lemma lines_of_complete: "complete x \<Longrightarrow> lines_of (x @ y) = lines_of x @ lines_of y"
  by (simp add: lines_of_def split_inclusive_complete)

lemma split_inclusive_prefix:
  "NL \<notin> set a \<Longrightarrow> a \<noteq> [] \<Longrightarrow> \<exists>l ls. split_inclusive (a @ r) = (a @ l) # ls"
proof (induction a)
  case (Cons c a)
  show ?case
  proof (cases "a = []")
    case True
    then show ?thesis using Cons.prems by (auto split: list.splits)
  next
    case False
    with Cons obtain l ls where "split_inclusive (a @ r) = (a @ l) # ls" by auto
    then show ?thesis using Cons.prems False by auto
  qed
qed simp

lemma rposition_None: "rposition p xs = None \<longleftrightarrow> (\<forall>x \<in> set xs. \<not> p x)"
  by (induction xs) (auto split: option.splits)

lemma rposition_Some:
  "rposition p xs = Some i \<Longrightarrow>
     i < length xs \<and> p (xs ! i) \<and> (\<forall>x \<in> set (drop (Suc i) xs). \<not> p x)"
proof (induction xs arbitrary: i)
  case (Cons x xs)
  then show ?case
    by (cases "rposition p xs") (auto simp: rposition_None split: if_splits)
qed simp

section \<open>Closures that cannot see the cuts\<close>

text \<open>
  The contract: on spans of whole lines (all of them acceptable) the closure may be called once or
  piece by piece.
\<close>

locale span_parser =
  fixes parse :: "string \<Rightarrow> 'a \<Rightarrow> 'a" and okl :: "string \<Rightarrow> bool"
  assumes parse_Nil: "parse [] acc = acc"
    and parse_append: "complete x \<Longrightarrow> utf8_valid (x @ y) \<Longrightarrow> \<forall>l \<in> set (lines_of (x @ y)). okl l
      \<Longrightarrow> parse (x @ y) acc = parse y (parse x acc)"
begin

lemma push_step:
  assumes "complete d" "NL \<notin> set carry"
    and "utf8_valid (d @ carry @ bytes @ rest)" "\<forall>l \<in> set (lines_of (d @ carry @ bytes @ rest)). okl l"
    and "\<forall>l \<in> set (split_inclusive (d @ carry @ bytes @ rest)). length l \<le> MAX_CARRY"
  obtains d' carry' where "sse_push parse bytes (carry, parse d acc) = (carry', parse d' acc)"
    "complete d'" "NL \<notin> set carry'" "d' @ carry' = d @ carry @ bytes"
proof -
  let ?c = "carry @ bytes"
  obtain d' carry' where split: "complete d'" "NL \<notin> set carry'" "d' @ carry' = d @ ?c"
    and res: "(case rposition (\<lambda>b. b = NL) ?c of
                 Some nl \<Rightarrow> (drop (Suc nl) ?c, parse (take (Suc nl) ?c) (parse d acc))
               | None \<Rightarrow> (?c, parse d acc)) = (carry', parse d' acc)"
  proof (cases "rposition (\<lambda>b. b = NL) ?c")
    case None
    then have "NL \<notin> set ?c" by (auto simp: rposition_None)
    then show ?thesis using that [of d ?c] assms(1) None by simp
  next
    case (Some nl)
    let ?s = "take (Suc nl) ?c" and ?t = "drop (Suc nl) ?c"
    from rposition_Some [OF Some] have nl: "nl < length ?c" "?c ! nl = NL" "NL \<notin> set ?t" by auto
    have s: "?s = take nl ?c @ [NL]" using nl by (simp only: take_Suc_conv_app_nth)
    have cd: "complete (d @ ?s)" unfolding s by (simp add: complete_def)
    have whole: "d @ carry @ bytes @ rest = (d @ ?s) @ ?t @ rest"
      by (metis append.assoc append_take_drop_id)
    have "utf8_valid (d @ ?s)" "\<forall>l \<in> set (lines_of (d @ ?s)). okl l"
      using assms(3,4) unfolding whole
      by (auto simp only: utf8_valid_complete [OF cd] lines_of_complete [OF cd] set_append ball_Un)
    from parse_append [OF assms(1) this] have eq: "parse (d @ ?s) acc = parse ?s (parse d acc)" .
    have "(d @ ?s) @ ?t = d @ ?c" by (metis append.assoc append_take_drop_id)
    then show ?thesis by (intro that [OF cd nl(3)]) (simp_all only: Some option.case eq)
  qed
  have "length carry' \<le> MAX_CARRY"
  proof (cases "carry' = []")
    case False
    obtain l ls where "split_inclusive (carry' @ rest) = (carry' @ l) # ls"
      using split_inclusive_prefix [OF split(2) False] by blast
    moreover have "split_inclusive (d @ carry @ bytes @ rest) = split_inclusive d' @ split_inclusive (carry' @ rest)"
      using split_inclusive_complete [OF split(1), of "carry' @ rest"] split(3)
      by (metis append.assoc)
    ultimately show ?thesis using assms(5) by fastforce
  qed (simp add: MAX_CARRY_def)
  then have "sse_push parse bytes (carry, parse d acc) = (carry', parse d' acc)"
    using res by (simp add: sse_push_def Let_def split: prod.split)
  then show ?thesis using that split by simp
qed

lemma feed_chunks:
  assumes "complete d" "NL \<notin> set carry"
    and "utf8_valid (d @ carry @ concat chunks)" "\<forall>l \<in> set (lines_of (d @ carry @ concat chunks)). okl l"
    and "\<forall>l \<in> set (split_inclusive (d @ carry @ concat chunks)). length l \<le> MAX_CARRY"
  shows "\<exists>d' carry'. foldl (\<lambda>st b. sse_push parse b st) (carry, parse d acc) chunks = (carry', parse d' acc)
           \<and> complete d' \<and> NL \<notin> set carry' \<and> d' @ carry' = d @ carry @ concat chunks"
  using assms
proof (induction chunks arbitrary: d carry)
  case (Cons b bs)
  have e: "d @ carry @ concat (b # bs) = d @ carry @ b @ concat bs" by simp
  from push_step [OF Cons.prems(1,2) Cons.prems(3-5) [unfolded e]] obtain d1 c1 where
    p: "sse_push parse b (carry, parse d acc) = (c1, parse d1 acc)" "complete d1" "NL \<notin> set c1"
      "d1 @ c1 = d @ carry @ b" by blast
  have w: "d1 @ c1 @ concat bs = d @ carry @ concat (b # bs)"
    using p(4) by (metis append.assoc concat.simps(2))
  from Cons.IH [OF p(2,3) Cons.prems(3-5) [folded w]] show ?case using p(1) w by simp
qed auto

lemma scan_eq:
  assumes "utf8_valid (concat chunks)" "\<forall>l \<in> set (lines_of (concat chunks)). okl l"
    and "\<forall>l \<in> set (split_inclusive (concat chunks)). length l \<le> MAX_CARRY"
  shows "sse_scan parse chunks acc = parse (concat chunks) acc"
proof -
  have "complete []" by (simp add: complete_def)
  from feed_chunks [OF this, of "[]" chunks acc] assms obtain d carry where
    f: "foldl (\<lambda>st b. sse_push parse b st) ([], acc) chunks = (carry, parse d acc)"
    "complete d" "d @ carry = concat chunks" by (auto simp: parse_Nil)
  have "parse (d @ carry) acc = parse carry (parse d acc)"
    using f(2,3) assms by (intro parse_append) simp_all
  then show ?thesis using f by (auto simp: sse_scan_def sse_flush_def parse_Nil)
qed

end

section \<open>The closures meet the contract\<close>

lemma last_found_append: "last_found f a (xs @ ys) = last_found f (last_found f a xs) ys"
  by (simp add: last_found_def)

lemma last_found_from: "last_found f a xs = or_else (last_found f None xs) a"
  by (induction xs rule: rev_induct) (auto simp: last_found_def or_else_def split: option.splits)

lemma keep_new_last_found:
  "keep_new (last_found f None (xs @ ys)) u = keep_new (last_found f None ys) (keep_new (last_found f None xs) u)"
  by (subst last_found_append, subst last_found_from)
    (auto simp: keep_new_def or_else_def split: option.splits)

lemma first_found_eq_last_found:
  "\<forall>l \<in> set xs. f l = None \<or> f l = Some R \<Longrightarrow> first_found f xs = last_found f None xs"
proof (induction xs)
  case (Cons x xs)
  have "last_found f (Some R) xs = Some R" using Cons.prems
    by (induction xs rule: rev_induct) (auto simp: last_found_def split: option.splits)
  then show ?case using Cons by (cases "f x") (auto simp: last_found_def)
qed (simp add: last_found_def)

text \<open>A closure that keeps the last thing found on a line.\<close>

lemma span_parser_by_lines:
  assumes "\<And>span. \<forall>l \<in> set (lines_of span). okl l \<Longrightarrow>
      e span = (if utf8_valid span then last_found f None (lines_of span) else None)"
  shows "span_parser (\<lambda>span u. keep_new (e span) u) okl"
proof
  show "keep_new (e []) acc = acc" for acc
    by (subst assms) (simp_all add: lines_of_def last_found_def keep_new_def)
next
  fix x y :: string and acc
  assume h: "complete x" "utf8_valid (x @ y)" "\<forall>l \<in> set (lines_of (x @ y)). okl l"
  from h(3) have o: "\<forall>l \<in> set (lines_of x). okl l" "\<forall>l \<in> set (lines_of y). okl l"
    by (auto simp: lines_of_complete [OF h(1)])
  have v: "utf8_valid x" "utf8_valid y" using h(2) by (simp_all add: utf8_valid_complete [OF h(1)])
  show "keep_new (e (x @ y)) acc = keep_new (e y) (keep_new (e x) acc)"
    unfolding assms [OF h(3)] assms [OF o(1)] assms [OF o(2)] lines_of_complete [OF h(1)]
    by (simp add: h(2) v keep_new_last_found)
qed

interpretation chat_usage_parser: span_parser
    "\<lambda>span u. keep_new (extract_usage_from_sse_chunk J span) u" "\<lambda>_. True" for J
  by (rule span_parser_by_lines) (rule extract_usage_from_sse_chunk_def)

interpretation messages_usage_parser: span_parser
    "\<lambda>span u. keep_new (extract_anthropic_usage_from_sse_chunk J span) u" "\<lambda>_. True" for J
  by (rule span_parser_by_lines) (rule extract_anthropic_usage_from_sse_chunk_def)

interpretation finish_reason_parser: span_parser
    "\<lambda>span r. keep_new (extract_finish_reason_from_sse_chunk J span) r"
    "\<lambda>l. sse_line_finish_reason J l = None \<or> sse_line_finish_reason J l = Some R" for J R
  by (rule span_parser_by_lines [where f = "sse_line_finish_reason J"])
    (simp add: extract_finish_reason_from_sse_chunk_def first_found_eq_last_found)

interpretation stop_reason_parser: span_parser
    "\<lambda>span r. keep_new (extract_anthropic_finish_reason_from_sse_chunk J span) r"
    "\<lambda>l. sse_line_stop_reason J l = None \<or> sse_line_stop_reason J l = Some R" for J R
  by (rule span_parser_by_lines [where f = "sse_line_stop_reason J"])
    (simp add: extract_anthropic_finish_reason_from_sse_chunk_def first_found_eq_last_found)

section \<open>The Responses scanner without named events\<close>

definition unnamed :: "string \<Rightarrow> bool" where
  "unnamed l \<longleftrightarrow> strip_prefix ''event:'' l = None"

lemma on_created_keeps [simp]:
  "scan_usage (on_created J v st) = scan_usage st" "scan_status (on_created J v st) = scan_status st"
  "scan_event (on_created J v st) = scan_event st"
  by (simp_all add: on_created_def split: option.split)

lemma on_completed_event [simp]: "scan_event (on_completed J v st) = scan_event st"
  by (simp add: on_completed_def Let_def split: option.split)

lemma on_completed_usage:
  "scan_usage (on_completed J v st) = or_else (scan_usage (on_completed J v empty_scan)) (scan_usage st)"
  by (simp add: on_completed_def Let_def or_else_def empty_scan_def split: option.split)

lemma on_completed_status:
  "scan_status (on_completed J v st) = or_else (scan_status (on_completed J v empty_scan)) (scan_status st)"
  by (simp add: on_completed_def Let_def or_else_def empty_scan_def split: option.split)

lemma or_else_None [simp]: "or_else None a = a"
  by (simp add: or_else_def)

definition line_done :: "'j lib \<Rightarrow> string \<Rightarrow> 'j option" where
  "line_done J line =
     (case data_payload line of
        None \<Rightarrow> None
      | Some json_str \<Rightarrow>
          (if trim json_str = ''[DONE]'' then None
           else (case j_parse J json_str of
                   None \<Rightarrow> None
                 | Some v \<Rightarrow> if opt_str J ''type'' v = Some ''response.completed'' then Some v else None)))"

lemma responses_line_unnamed:
  assumes "unnamed l" "scan_event st = None"
  shows "scan_event (responses_line J st l) = None"
    and "scan_usage (responses_line J st l) =
           (case line_done J l of None \<Rightarrow> scan_usage st | Some v \<Rightarrow> scan_usage (on_completed J v st))"
    and "scan_status (responses_line J st l) =
           (case line_done J l of None \<Rightarrow> scan_status st | Some v \<Rightarrow> scan_status (on_completed J v st))"
  using assms unfolding responses_line_def unnamed_def line_done_def
  by (auto simp: Let_def on_completed_usage [of J _ "on_created _ _ _"]
      on_completed_status [of J _ "on_created _ _ _"] on_completed_usage [of J _ st]
      on_completed_status [of J _ st] split: option.split)

definition done_usage :: "'j lib \<Rightarrow> string \<Rightarrow> token_usage option" where
  "done_usage J l = Option.bind (line_done J l) (\<lambda>v. scan_usage (on_completed J v empty_scan))"

definition done_status :: "'j lib \<Rightarrow> string \<Rightarrow> string option" where
  "done_status J l = Option.bind (line_done J l) (\<lambda>v. scan_status (on_completed J v empty_scan))"

lemma last_found_snoc: "last_found f a (xs @ [x]) = or_else (f x) (last_found f a xs)"
  by (simp add: last_found_def or_else_def)

lemma responses_lines_unnamed:
  assumes "\<forall>l \<in> set ls. unnamed l"
  shows "scan_event (foldl (responses_line J) empty_scan ls) = None
       \<and> scan_usage (foldl (responses_line J) empty_scan ls) = last_found (done_usage J) None ls
       \<and> scan_status (foldl (responses_line J) empty_scan ls) = last_found (done_status J) None ls"
  using assms
proof (induction ls rule: rev_induct)
  case Nil
  show ?case by (simp add: empty_scan_def last_found_def)
next
  case (snoc l ls)
  let ?st = "foldl (responses_line J) empty_scan ls"
  have IH: "scan_event ?st = None" "scan_usage ?st = last_found (done_usage J) None ls"
    "scan_status ?st = last_found (done_status J) None ls" using snoc by simp_all
  from snoc.prems have "unnamed l" by simp
  from responses_line_unnamed [OF this IH(1), of J] show ?case
    by (simp add: last_found_snoc IH done_usage_def [of J l] done_status_def [of J l] on_completed_usage [of J _ ?st]
        on_completed_status [of J _ ?st] split: option.split)
qed

lemma parse_responses_unnamed:
  "\<forall>l \<in> set (lines_of span). unnamed l \<Longrightarrow>
     fst (parse_responses_sse_chunk J span)
       = (if utf8_valid span then last_found (done_usage J) None (lines_of span) else None)"
  "\<forall>l \<in> set (lines_of span). unnamed l \<Longrightarrow>
     snd (snd (parse_responses_sse_chunk J span))
       = (if utf8_valid span then last_found (done_status J) None (lines_of span) else None)"
  by (simp_all add: parse_responses_sse_chunk_def Let_def responses_lines_unnamed)

interpretation responses_usage_parser: span_parser
    "\<lambda>span u. keep_new (fst (parse_responses_sse_chunk J span)) u" unnamed for J
  by (rule span_parser_by_lines) (rule parse_responses_unnamed)

interpretation responses_status_parser: span_parser
    "\<lambda>span u. keep_new (snd (snd (parse_responses_sse_chunk J span))) u" unnamed for J
  by (rule span_parser_by_lines) (rule parse_responses_unnamed)

section \<open>From the pair of a task to its parts\<close>

lemma sse_push_project:
  assumes "\<And>span c. pr (parse span c) = p (span :: string) (pr c)"
  shows "sse_push p b (map_prod id pr st) = map_prod id pr (sse_push parse b st)"
  by (cases st) (simp add: sse_push_def Let_def assms split: option.split)

lemma sse_scan_project:
  assumes "\<And>span c. pr (parse span c) = p (span :: string) (pr c)"
  shows "pr (sse_scan parse chunks c) = sse_scan p chunks (pr c)"
proof -
  have "foldl (\<lambda>st b. sse_push p b st) (map_prod id pr st) chunks
          = map_prod id pr (foldl (\<lambda>st b. sse_push parse b st) st chunks)" for st
    by (induction chunks arbitrary: st) (simp_all add: sse_push_project [of pr parse p, OF assms])
  from this [of "([], c)"] show ?thesis
    by (auto simp: sse_scan_def sse_flush_def assms split: prod.split)
qed

lemma on_span_parts:
  "fst (chat_on_span J span c) = keep_new (extract_usage_from_sse_chunk J span) (fst c)"
  "snd (chat_on_span J span c) = keep_new (extract_finish_reason_from_sse_chunk J span) (snd c)"
  "fst (messages_on_span J span c) = keep_new (extract_anthropic_usage_from_sse_chunk J span) (fst c)"
  "snd (messages_on_span J span c) = keep_new (extract_anthropic_finish_reason_from_sse_chunk J span) (snd c)"
  "fst (responses_on_span J span c) = keep_new (fst (parse_responses_sse_chunk J span)) (fst c)"
  "snd (responses_on_span J span c) = keep_new (snd (snd (parse_responses_sse_chunk J span))) (snd c)"
  by (simp_all add: chat_on_span_def messages_on_span_def responses_on_span_def split: prod.split)

lemma scan_parts:
  "fst (sse_scan (chat_on_span J) chunks c)
     = sse_scan (\<lambda>span u. keep_new (extract_usage_from_sse_chunk J span) u) chunks (fst c)"
  "snd (sse_scan (chat_on_span J) chunks c)
     = sse_scan (\<lambda>span r. keep_new (extract_finish_reason_from_sse_chunk J span) r) chunks (snd c)"
  "fst (sse_scan (messages_on_span J) chunks c)
     = sse_scan (\<lambda>span u. keep_new (extract_anthropic_usage_from_sse_chunk J span) u) chunks (fst c)"
  "snd (sse_scan (messages_on_span J) chunks c)
     = sse_scan (\<lambda>span r. keep_new (extract_anthropic_finish_reason_from_sse_chunk J span) r) chunks (snd c)"
  "fst (sse_scan (responses_on_span J) chunks c)
     = sse_scan (\<lambda>span u. keep_new (fst (parse_responses_sse_chunk J span)) u) chunks (fst c)"
  "snd (sse_scan (responses_on_span J) chunks c)
     = sse_scan (\<lambda>span r. keep_new (snd (snd (parse_responses_sse_chunk J span))) r) chunks (snd c)"
  by (rule sse_scan_project, rule on_span_parts)+

section \<open>Properties\<close>

text \<open>
  C16. Streaming usage does not depend on how the network cuts the stream: when the whole stream is
  UTF-8 and no line is longer than the buffer's limit, the chat and the Messages task end with the
  usage that the extractor finds in the unbroken stream.  The finish reason is independent of the
  cuts too, when the stream does not name two different ones.
\<close>

theorem stream_chunking:
  assumes "utf8_valid (concat chunks)"
    and "\<forall>l \<in> set (split_inclusive (concat chunks)). length l \<le> MAX_CARRY"
  shows "fst (sse_scan (chat_on_span J) chunks (u, r))
           = keep_new (extract_usage_from_sse_chunk J (concat chunks)) u
       \<and> fst (sse_scan (messages_on_span J) chunks (u, r))
           = keep_new (extract_anthropic_usage_from_sse_chunk J (concat chunks)) u
       \<and> ((\<forall>l \<in> set (lines_of (concat chunks)). sse_line_finish_reason J l \<in> {None, Some R})
            \<longrightarrow> snd (sse_scan (chat_on_span J) chunks (u, r))
                  = keep_new (extract_finish_reason_from_sse_chunk J (concat chunks)) r)
       \<and> ((\<forall>l \<in> set (lines_of (concat chunks)). sse_line_stop_reason J l \<in> {None, Some R})
            \<longrightarrow> snd (sse_scan (messages_on_span J) chunks (u, r))
                  = keep_new (extract_anthropic_finish_reason_from_sse_chunk J (concat chunks)) r)"
  using assms
  by (simp add: scan_parts
      chat_usage_parser.scan_eq messages_usage_parser.scan_eq finish_reason_parser.scan_eq [where R = R]
      stop_reason_parser.scan_eq [where R = R])

lemma short_lines:
  "length s \<le> MAX_CARRY \<Longrightarrow> \<forall>l \<in> set (split_inclusive s). length l \<le> MAX_CARRY"
proof -
  have "concat (split_inclusive s) = s"
    by (induction s) (auto split: list.splits)
  moreover have "l \<in> set ls \<Longrightarrow> length l \<le> length (concat ls)" for l :: string and ls
    by (induction ls) auto
  ultimately show "length s \<le> MAX_CARRY \<Longrightarrow> \<forall>l \<in> set (split_inclusive s). length l \<le> MAX_CARRY"
    by (metis order_trans)
qed

lemma stream_chunking_witness:
  "fst (sse_scan (chat_on_span (json_lib (\<lambda>_. Some (JObj [(''usage'', JObj [(''prompt_tokens'', JNum 7)])]))))
     [''data'', '': {'', ''}'' @ [NL], [NL]] (no_usage, ''''))
   = \<lparr>prompt_tokens = 7, completion_tokens = 0, total_tokens = 7\<rparr>"
proof -
  let ?chunks = "[''data'', '': {'', ''}'' @ [NL], [NL]]"
  let ?J = "json_lib (\<lambda>_. Some (JObj [(''usage'', JObj [(''prompt_tokens'', JNum 7)])]))"
  have "utf8_valid (concat ?chunks)" by code_simp
  moreover have "\<forall>l \<in> set (split_inclusive (concat ?chunks)). length l \<le> MAX_CARRY"
    by (rule short_lines) (simp add: MAX_CARRY_def)
  ultimately have "fst (sse_scan (chat_on_span ?J) ?chunks (no_usage, ''''))
      = keep_new (extract_usage_from_sse_chunk ?J (concat ?chunks)) no_usage"
    using stream_chunking [of ?chunks ?J no_usage "''''" "''''"] by blast
  also have "\<dots> = \<lparr>prompt_tokens = 7, completion_tokens = 0, total_tokens = 7\<rparr>" by code_simp
  finally show ?thesis .
qed

text \<open>
  The Responses task, on streams without \<open>event:\<close> lines (every payload carries its
  \<open>type\<close>), collects the usage and the status that the parser finds in the unbroken stream,
  however it is cut.
\<close>

lemma responses_stream_chunking:
  assumes "utf8_valid (concat chunks)"
    and "\<forall>l \<in> set (split_inclusive (concat chunks)). length l \<le> MAX_CARRY"
    and "\<forall>l \<in> set (lines_of (concat chunks)). strip_prefix ''event:'' l = None"
    and "parse_responses_sse_chunk J (concat chunks) = (found_usage, found_id, found_status)"
  shows "sse_scan (responses_on_span J) chunks (u, r) = (keep_new found_usage u, keep_new found_status r)"
proof -
  have lines: "\<forall>l \<in> set (lines_of (concat chunks)). unnamed l" using assms(3) by (simp add: unnamed_def)
  show ?thesis
    using scan_parts(5,6) [of J chunks "(u, r)"]
      responses_usage_parser.scan_eq [OF assms(1) lines assms(2), of J u]
      responses_status_parser.scan_eq [OF assms(1) lines assms(2), of J r]
    by (simp add: assms(4) prod_eq_iff)
qed

lemma responses_stream_chunking_witness:
  "sse_scan (responses_on_span (json_lib (\<lambda>_. Some (JObj [(''type'', JStr ''response.completed''),
       (''response'', JObj [(''status'', JStr ''completed'')])]))))
     [''da'', ''ta: {}'' @ [NL]] (no_usage, '''') = (no_usage, ''completed'')"
proof -
  let ?chunks = "[''da'', ''ta: {}'' @ [NL]]"
  let ?J = "json_lib (\<lambda>_. Some (JObj [(''type'', JStr ''response.completed''),
       (''response'', JObj [(''status'', JStr ''completed'')])]))"
  have "utf8_valid (concat ?chunks)" by code_simp
  moreover have "\<forall>l \<in> set (split_inclusive (concat ?chunks)). length l \<le> MAX_CARRY"
    by (rule short_lines) (simp add: MAX_CARRY_def)
  moreover have "\<forall>l \<in> set (lines_of (concat ?chunks)). strip_prefix ''event:'' l = None" by code_simp
  moreover have "parse_responses_sse_chunk ?J (concat ?chunks) = (None, None, Some ''completed'')"
    by code_simp
  ultimately have "sse_scan (responses_on_span ?J) ?chunks (no_usage, '''')
      = (keep_new None no_usage, keep_new (Some ''completed'') '''')"
    by (rule responses_stream_chunking)
  then show ?thesis by (simp add: keep_new_def)
qed

lemma lines_of_line: "NL \<notin> set l \<Longrightarrow> CR \<notin> set l \<Longrightarrow> lines_of (l @ [NL]) = [l]"
proof -
  assume l: "NL \<notin> set l" "CR \<notin> set l"
  have "split_inclusive (l @ [NL]) = [l @ [NL]]" using l(1) by (induction l) auto
  moreover have "strip_suffix [NL] (l @ [NL]) = Some l" by (simp add: strip_suffix_eq_Some_iff)
  moreover have "strip_suffix [CR] l = None"
    using l(2) by (metis not_Some_eq in_set_conv_decomp strip_suffix_eq_Some_iff)
  ultimately show ?thesis by (simp add: lines_of_def strip_eol_def)
qed

lemma lines_of_two:
  assumes "NL \<notin> set l" "CR \<notin> set l" "NL \<notin> set k" "CR \<notin> set k"
  shows "lines_of (l @ [NL] @ k @ [NL]) = [l, k]"
proof -
  have "complete (l @ [NL])" by (simp add: complete_def)
  from lines_of_complete [OF this, of "k @ [NL]"] show ?thesis using assms by (simp add: lines_of_line)
qed

lemma scan_lines:
  assumes "\<forall>c \<in> set chunks. complete c \<and> c \<noteq> []"
  shows "sse_scan parse chunks acc = foldl (\<lambda>a c. parse c a) acc chunks"
proof -
  have push: "sse_push parse c ([], a) = ([], parse c a)" if h: "complete c" "c \<noteq> []" for c a
  proof -
    from h obtain y where c: "c = y @ [NL]" by (auto elim: completeE)
    have "rposition (\<lambda>b. b = NL) (y @ [NL]) = Some (length y)" by (induction y) simp_all
    then show ?thesis by (simp add: sse_push_def Let_def c)
  qed
  have "foldl (\<lambda>st b. sse_push parse b st) ([], a) chunks = ([], foldl (\<lambda>a c. parse c a) a chunks)" for a
    using assms by (induction chunks arbitrary: a) (simp_all add: push)
  then show ?thesis by (simp add: sse_scan_def sse_flush_def)
qed

text \<open>
  Named events do depend on the cuts.  A flat \<open>response.completed\<close> payload without a
  \<open>type\<close> gives its usage and status when its \<open>event:\<close> line completes in the same push, and
  nothing at all when that line has completed in an earlier push: the event name is forgotten
  between pushes, and the tokens are never recorded.
\<close>

lemma responses_event_split:
  assumes "utf8_valid line" "NL \<notin> set line" "CR \<notin> set line"
    and "data_payload line = Some js" "trim js \<noteq> ''[DONE]''" "j_parse J js = Some v"
    and "opt_str J ''type'' v = None" "j_get J ''response'' v = None"
    and "opt_str J ''status'' v = Some s" "j_get J ''usage'' v = Some us" "counts (responses_usage J us)"
    and "ev = ''event: response.completed''"
  shows "sse_scan (responses_on_span J) [ev @ [NL] @ line @ [NL]] (u, r) = (responses_usage J us, s)
       \<and> sse_scan (responses_on_span J) [ev @ [NL], line @ [NL]] (u, r) = (u, r)"
proof -
  have ev: "NL \<notin> set ev" "CR \<notin> set ev" "strip_prefix ''event:'' ev = Some '' response.completed''"
    and tr: "trim '' response.completed'' = ''response.completed''"
    and uv: "utf8_valid ev"
    unfolding assms(12) by code_simp+
  have nev: "strip_prefix ''event:'' line = None"
  proof -
    from assms(4) obtain t where "line = ''data:'' @ t"
      by (auto simp: data_payload_def strip_prefix_eq_Some_iff)
    then show ?thesis by (simp add: strip_prefix_def)
  qed
  have v1: "utf8_valid (l @ [NL]) = utf8_valid l" for l
    using utf8_valid_append_NL [of l "[]"] by simp
  have v: "utf8_valid (ev @ [NL] @ line @ [NL])"
    using utf8_valid_append_NL [of ev "line @ [NL]"] by (simp add: v1 uv assms(1))
  let ?named = "empty_scan\<lparr>scan_event := Some ''response.completed''\<rparr>"
  have e1: "responses_line J empty_scan ev = ?named"
    by (simp add: responses_line_def ev(3) tr)
  have e2: "responses_line J ?named line
      = \<lparr>scan_usage = Some (responses_usage J us), scan_response_id = None, scan_status = Some s, scan_event = None\<rparr>"
    by (simp add: responses_line_def nev assms(4-11) Let_def on_completed_def or_else_def empty_scan_def)
  have e3: "responses_line J empty_scan line = empty_scan"
    by (simp add: responses_line_def nev assms(4-11) Let_def empty_scan_def)
  have p1: "parse_responses_sse_chunk J (ev @ [NL] @ line @ [NL]) = (Some (responses_usage J us), None, Some s)"
    unfolding parse_responses_sse_chunk_def lines_of_two [OF ev(1,2) assms(2,3)]
    by (simp only: v e1 e2 foldl.simps if_True Let_def responses_scan.simps)
  have p2: "parse_responses_sse_chunk J (ev @ [NL]) = (None, None, None)"
    unfolding parse_responses_sse_chunk_def lines_of_line [OF ev(1,2)]
    by (simp only: v1 uv e1 foldl.simps if_True Let_def) (simp add: empty_scan_def)
  have p3: "parse_responses_sse_chunk J (line @ [NL]) = (None, None, None)"
    unfolding parse_responses_sse_chunk_def lines_of_line [OF assms(2,3)]
    by (simp only: v1 assms(1) e3 foldl.simps if_True Let_def) (simp add: empty_scan_def)
  have c: "complete (ev @ [NL] @ line @ [NL])" "complete (ev @ [NL])" "complete (line @ [NL])"
    by (simp_all add: complete_def)
  show ?thesis
    using c by (simp add: scan_lines responses_on_span_def p1 [simplified] p2 p3 keep_new_def)
qed

lemma responses_event_split_witness:
  "\<exists>J :: json lib.
     sse_scan (responses_on_span J) [''event: response.completed'' @ [NL], ''data: {}'' @ [NL]] (no_usage, '''')
       = (no_usage, '''')"
proof -
  let ?J = "json_lib (\<lambda>_. Some (JObj [(''status'', JStr ''completed''),
       (''usage'', JObj [(''input_tokens'', JNum 9)])]))"
  have "utf8_valid ''data: {}''" "data_payload ''data: {}'' = Some ''{}''" "trim ''{}'' \<noteq> ''[DONE]''"
    "counts (responses_usage ?J (JObj [(''input_tokens'', JNum 9)]))" by code_simp+
  then have "sse_scan (responses_on_span ?J)
      [''event: response.completed'' @ [NL], ''data: {}'' @ [NL]] (no_usage, '''') = (no_usage, '''')"
    using responses_event_split [of "''data: {}''" "''{}''" ?J
        "JObj [(''status'', JStr ''completed''), (''usage'', JObj [(''input_tokens'', JNum 9)])]"
        "''completed''" "JObj [(''input_tokens'', JNum 9)]" "''event: response.completed''" no_usage "''''"]
    by (simp add: json_lib_def opt_str_def)
  then show ?thesis by blast
qed

end
