(* ===== verification/Metrics.thy ===== *)
theory Metrics
  imports Gateway_Prelude
begin

text \<open>
  The metrics of \<^verbatim>\<open>core/src/observability/metrics.rs\<close>: the string interner with its
  cap, the label tables, and one definition per \<open>record_*\<close>/\<open>set_*\<close> function.  What the
  \<open>metrics\<close> crate receives is kept as a list of events; the global interner is part of the
  state.
\<close>

section \<open>Events\<close>

text \<open>
  A floating-point value is kept as what it is computed from: a duration in milliseconds, a
  quotient of milliseconds and tokens, or a number.
\<close>

datatype metric_value = Millis nat | MillisPerToken nat nat | Num int

datatype metric_event =
    CounterInc string "(string \<times> string) list"
  | HistogramRecord string "(string \<times> string) list" metric_value
  | GaugeSet string "(string \<times> string) list" metric_value

record metrics =
  interner :: "string list"
  interner_count :: nat
  metric_log :: "metric_event list"

definition metrics_new :: metrics where
  "metrics_new = \<lparr>interner = [], interner_count = 0, metric_log = []\<rparr>"

section \<open>String interner\<close>

definition MAX_INTERNER_ENTRIES :: nat where
  "MAX_INTERNER_ENTRIES = 4096"

text \<open>
  One call at a time, so the claim of a slot, the check and the undo are one step.
\<close>

definition intern_string :: "string \<Rightarrow> metrics \<Rightarrow> string \<times> metrics" where
  "intern_string s m =
     (if s \<in> set (interner m) then (s, m)
      else
        (let prev = interner_count m;
             m1 = m\<lparr>interner_count := prev + 1\<rparr>
         in if MAX_INTERNER_ENTRIES \<le> prev
            then (''other'', m1\<lparr>interner_count := interner_count m1 - 1\<rparr>)
            else (s, m1\<lparr>interner := interner m1 @ [s]\<rparr>)))"

section \<open>Label tables\<close>

definition bool_to_static_str :: "bool \<Rightarrow> string" where
  "bool_to_static_str b = (if b then ''true'' else ''false'')"

definition status_code_to_static_str :: "nat \<Rightarrow> string option" where
  "status_code_to_static_str code =
     (if code = 200 then Some ''200''
      else if code = 201 then Some ''201''
      else if code = 204 then Some ''204''
      else if code = 400 then Some ''400''
      else if code = 401 then Some ''401''
      else if code = 403 then Some ''403''
      else if code = 404 then Some ''404''
      else if code = 408 then Some ''408''
      else if code = 422 then Some ''422''
      else if code = 429 then Some ''429''
      else if code = 500 then Some ''500''
      else if code = 502 then Some ''502''
      else if code = 503 then Some ''503''
      else if code = 504 then Some ''504''
      else None)"

definition method_to_static_str :: "string \<Rightarrow> string" where
  "method_to_static_str m =
     (if m \<in> set [''GET'', ''POST'', ''PUT'', ''DELETE'', ''PATCH'', ''HEAD'', ''OPTIONS''] then m else ''OTHER'')"

definition status_code_to_cow :: "nat \<Rightarrow> string" where
  "status_code_to_cow code =
     (case status_code_to_static_str code of Some s \<Rightarrow> s | None \<Rightarrow> show_nat code)"

definition ENDPOINT_CHAT :: string where "ENDPOINT_CHAT = ''chat''"
definition ENDPOINT_MESSAGES :: string where "ENDPOINT_MESSAGES = ''messages''"
definition ENDPOINT_EMBEDDINGS :: string where "ENDPOINT_EMBEDDINGS = ''embeddings''"
definition ENDPOINT_RESPONSES :: string where "ENDPOINT_RESPONSES = ''responses''"
definition ENDPOINT_RESPONSES_RETRIEVE :: string where
  "ENDPOINT_RESPONSES_RETRIEVE = ''responses_retrieve''"
definition ENDPOINT_RESPONSES_DELETE :: string where
  "ENDPOINT_RESPONSES_DELETE = ''responses_delete''"
definition ENDPOINT_RESPONSES_INPUT_ITEMS :: string where
  "ENDPOINT_RESPONSES_INPUT_ITEMS = ''responses_input_items''"
definition ERROR_NO_UPSTREAM :: string where "ERROR_NO_UPSTREAM = ''no_upstream''"
definition ERROR_BACKEND :: string where "ERROR_BACKEND = ''backend_error''"
definition ERROR_VALIDATION :: string where "ERROR_VALIDATION = ''validation_error''"

section \<open>Recording\<close>

definition emit_metric :: "metric_event \<Rightarrow> metrics \<Rightarrow> metrics" where
  "emit_metric e m = m\<lparr>metric_log := metric_log m @ [e]\<rparr>"

definition record_http_request :: "string \<Rightarrow> string \<Rightarrow> metrics \<Rightarrow> metrics" where
  "record_http_request method path m =
     (case intern_string path m of (path_interned, m1) \<Rightarrow>
        emit_metric (CounterInc ''modelpointer_http_requests_total''
          [(''method'', method), (''path'', path_interned)]) m1)"

definition record_http_response :: "nat \<Rightarrow> string \<Rightarrow> metrics \<Rightarrow> metrics" where
  "record_http_response status_code error_code m =
     (case intern_string error_code m of (error_interned, m1) \<Rightarrow>
        emit_metric (CounterInc ''modelpointer_http_responses_total''
          [(''status_code'', status_code_to_cow status_code), (''error_code'', error_interned)]) m1)"

definition record_gateway_request :: "string \<Rightarrow> string \<Rightarrow> string \<Rightarrow> metrics \<Rightarrow> metrics" where
  "record_gateway_request model_id endpoint streaming m =
     (case intern_string model_id m of (model, m1) \<Rightarrow>
        emit_metric (CounterInc ''modelpointer_gateway_requests_total''
          [(''model'', model), (''endpoint'', endpoint), (''streaming'', streaming)]) m1)"

definition record_gateway_duration :: "string \<Rightarrow> string \<Rightarrow> nat \<Rightarrow> metrics \<Rightarrow> metrics" where
  "record_gateway_duration model_id endpoint ms m =
     (case intern_string model_id m of (model, m1) \<Rightarrow>
        emit_metric (HistogramRecord ''modelpointer_gateway_duration_seconds''
          [(''model'', model), (''endpoint'', endpoint)] (Millis ms)) m1)"

definition record_gateway_error :: "string \<Rightarrow> string \<Rightarrow> string \<Rightarrow> metrics \<Rightarrow> metrics" where
  "record_gateway_error model_id endpoint error_type m =
     (case intern_string model_id m of (model, m1) \<Rightarrow>
        emit_metric (CounterInc ''modelpointer_gateway_errors_total''
          [(''model'', model), (''endpoint'', endpoint), (''error_type'', error_type)]) m1)"

definition record_upstream_request :: "string \<Rightarrow> string \<Rightarrow> nat \<Rightarrow> metrics \<Rightarrow> metrics" where
  "record_upstream_request model_id provider status_code m =
     (case intern_string model_id m of (model, m1) \<Rightarrow>
        (case intern_string provider m1 of (provider_interned, m2) \<Rightarrow>
           emit_metric (CounterInc ''modelpointer_upstream_requests_total''
             [(''model'', model), (''provider'', provider_interned),
              (''status_code'', status_code_to_cow status_code)]) m2))"

definition record_upstream_duration :: "string \<Rightarrow> string \<Rightarrow> nat \<Rightarrow> metrics \<Rightarrow> metrics" where
  "record_upstream_duration model_id provider ms m =
     (case intern_string model_id m of (model, m1) \<Rightarrow>
        (case intern_string provider m1 of (provider_interned, m2) \<Rightarrow>
           emit_metric (HistogramRecord ''modelpointer_upstream_duration_seconds''
             [(''model'', model), (''provider'', provider_interned)] (Millis ms)) m2))"

definition record_upstream_ttft :: "string \<Rightarrow> string \<Rightarrow> nat \<Rightarrow> metrics \<Rightarrow> metrics" where
  "record_upstream_ttft model_id provider ms m =
     (case intern_string model_id m of (model, m1) \<Rightarrow>
        (case intern_string provider m1 of (provider_interned, m2) \<Rightarrow>
           emit_metric (HistogramRecord ''modelpointer_upstream_ttft_seconds''
             [(''model'', model), (''provider'', provider_interned)] (Millis ms)) m2))"

definition record_retry_attempt :: "string \<Rightarrow> string \<Rightarrow> nat \<Rightarrow> metrics \<Rightarrow> metrics" where
  "record_retry_attempt model_id endpoint status_code m =
     (case intern_string model_id m of (model, m1) \<Rightarrow>
        emit_metric (CounterInc ''modelpointer_retry_attempts_total''
          [(''model'', model), (''endpoint'', endpoint),
           (''status_code'', status_code_to_cow status_code)]) m1)"

definition record_retry_exhausted :: "string \<Rightarrow> string \<Rightarrow> metrics \<Rightarrow> metrics" where
  "record_retry_exhausted model_id endpoint m =
     (case intern_string model_id m of (model, m1) \<Rightarrow>
        emit_metric (CounterInc ''modelpointer_retry_exhausted_total''
          [(''model'', model), (''endpoint'', endpoint)]) m1)"

definition set_worker_pool_total :: "string \<Rightarrow> nat \<Rightarrow> metrics \<Rightarrow> metrics" where
  "set_worker_pool_total model_id count m =
     (case intern_string model_id m of (model, m1) \<Rightarrow>
        emit_metric (GaugeSet ''modelpointer_worker_pool_total'' [(''model'', model)] (Num (int count))) m1)"

definition set_worker_available_total :: "string \<Rightarrow> nat \<Rightarrow> metrics \<Rightarrow> metrics" where
  "set_worker_available_total model_id count m =
     (case intern_string model_id m of (model, m1) \<Rightarrow>
        emit_metric (GaugeSet ''modelpointer_worker_available_total'' [(''model'', model)] (Num (int count))) m1)"

definition record_tpot :: "string \<Rightarrow> string \<Rightarrow> metric_value \<Rightarrow> metrics \<Rightarrow> metrics" where
  "record_tpot model_id provider tpot_ms m =
     (case intern_string model_id m of (model, m1) \<Rightarrow>
        (case intern_string provider m1 of (provider_interned, m2) \<Rightarrow>
           emit_metric (HistogramRecord ''modelpointer_upstream_tpot_ms''
             [(''model'', model), (''provider'', provider_interned)] tpot_ms) m2))"

definition remove_worker_metrics :: "string \<Rightarrow> metrics \<Rightarrow> metrics" where
  "remove_worker_metrics worker_url m =
     (case intern_string worker_url m of (worker, m1) \<Rightarrow>
        (let m2 = emit_metric (GaugeSet ''modelpointer_worker_cb_consecutive_failures'' [(''worker'', worker)] (Num 0)) m1;
             m3 = emit_metric (GaugeSet ''modelpointer_worker_cb_consecutive_successes'' [(''worker'', worker)] (Num 0)) m2
         in emit_metric (GaugeSet ''modelpointer_worker_cb_state'' [(''worker'', worker)] (Num (- 1))) m3))"

section \<open>The interner stays bounded\<close>

definition interner_ok :: "metrics \<Rightarrow> bool" where
  "interner_ok m \<longleftrightarrow>
     distinct (interner m) \<and> interner_count m = length (interner m)
   \<and> length (interner m) \<le> MAX_INTERNER_ENTRIES"

inductive metrics_reachable :: "metrics \<Rightarrow> bool" where
  mr_new: "metrics_reachable metrics_new"
| mr_intern: "metrics_reachable m \<Longrightarrow> metrics_reachable (snd (intern_string s m))"
| mr_emit: "metrics_reachable m \<Longrightarrow> metrics_reachable (emit_metric e m)"

lemma interner_ok_reachable: "metrics_reachable m \<Longrightarrow> interner_ok m"
  by (induction rule: metrics_reachable.induct)
    (auto simp: interner_ok_def metrics_new_def intern_string_def emit_metric_def Let_def
      MAX_INTERNER_ENTRIES_def)

lemma mr_case_intern:
  "metrics_reachable m \<Longrightarrow> (\<And>s' m1. metrics_reachable m1 \<Longrightarrow> metrics_reachable (f s' m1))
    \<Longrightarrow> metrics_reachable (case intern_string s m of (s', m1) \<Rightarrow> f s' m1)"
  using mr_intern [of m s] by (simp split: prod.split) (metis snd_conv)

lemma metrics_ops_reachable [intro]:
  assumes "metrics_reachable m"
  shows "metrics_reachable (record_http_request a b m)"
    and "metrics_reachable (record_http_response n b m)"
    and "metrics_reachable (record_gateway_request a b c m)"
    and "metrics_reachable (record_gateway_duration a b n m)"
    and "metrics_reachable (record_gateway_error a b c m)"
    and "metrics_reachable (record_upstream_request a b n m)"
    and "metrics_reachable (record_upstream_duration a b n m)"
    and "metrics_reachable (record_upstream_ttft a b n m)"
    and "metrics_reachable (record_retry_attempt a b n m)"
    and "metrics_reachable (record_retry_exhausted a b m)"
    and "metrics_reachable (record_tpot a b v m)"
    and "metrics_reachable (remove_worker_metrics a m)"
  unfolding record_http_request_def record_http_response_def record_gateway_request_def
    record_gateway_duration_def record_gateway_error_def record_upstream_request_def
    record_upstream_duration_def record_upstream_ttft_def record_retry_attempt_def
    record_retry_exhausted_def record_tpot_def remove_worker_metrics_def Let_def
  by (intro mr_case_intern mr_emit assms; assumption)+

text \<open>
  The label interner is bounded whatever strings the requests bring: it never holds more than
  \<open>MAX_INTERNER_ENTRIES\<close> distinct strings and its counter is exact; a string that is already
  known keeps its own label, a new one gets its own while there is room, and \<open>other\<close> after.
\<close>

lemma interner_bounded:
  assumes "metrics_reachable m" "intern_string s m = (label, m')"
  shows "distinct (interner m') \<and> interner_count m' = length (interner m')
       \<and> length (interner m') \<le> MAX_INTERNER_ENTRIES
       \<and> label = (if s \<in> set (interner m) \<or> length (interner m) < MAX_INTERNER_ENTRIES then s else ''other'')
       \<and> (length (interner m) < MAX_INTERNER_ENTRIES \<longrightarrow> s \<in> set (interner m'))
       \<and> set (interner m) \<subseteq> set (interner m')"
proof -
  from assms have "interner_ok m'" using mr_intern [of m s] interner_ok_reachable by fastforce
  moreover have "interner_count m = length (interner m)"
    using interner_ok_reachable [OF assms(1)] by (simp add: interner_ok_def)
  ultimately show ?thesis using assms(2)
    by (auto simp: interner_ok_def intern_string_def Let_def split: if_splits)
qed

lemma interner_bounded_witness:
  "fst (intern_string ''m'' (snd (intern_string ''m'' metrics_new))) = ''m''
   \<and> interner (snd (intern_string ''m'' (snd (intern_string ''m'' metrics_new)))) = [''m'']"
proof -
  let ?m = "snd (intern_string ''m'' metrics_new)"
  have "metrics_reachable ?m" by (intro mr_intern mr_new)
  from interner_bounded [OF this, of "''m''" "fst (intern_string ''m'' ?m)" "snd (intern_string ''m'' ?m)"]
  have "fst (intern_string ''m'' ?m) = ''m''"
    by (simp add: intern_string_def metrics_new_def MAX_INTERNER_ENTRIES_def)
  then show ?thesis by (simp add: intern_string_def metrics_new_def MAX_INTERNER_ENTRIES_def)
qed

end
