(* ===== verification/Access_Log.thy ===== *)
theory Access_Log
  imports Sse Metrics
begin

text \<open>
  Access log records, the bounded channel the request path sends them through, and the background
  writer that inserts them in batches (\<^verbatim>\<open>server/src/log_sink.rs\<close>,
  \<^verbatim>\<open>server/src/db/access_log_store.rs\<close>, \<^verbatim>\<open>server/src/db/mod.rs\<close>).  The
  database driver and the formatting of time stamps are parameters.
\<close>

section \<open>Records\<close>

record access_log_record =
  rec_ts :: int
  rec_request_id :: string
  rec_api_key_id :: string
  rec_model :: string
  rec_endpoint :: string
  rec_provider_url :: string
  rec_provider_node_id :: string
  rec_upstream_model :: string
  rec_status_code :: nat
  rec_latency_ms :: nat
  rec_streaming :: bool
  rec_ttft_ms :: nat
  rec_tpot_ms :: metric_value
  rec_prompt_tokens :: u32
  rec_completion_tokens :: u32
  rec_total_tokens :: u32
  rec_finish_reason :: string

datatype database_dialect = Postgres | MySql | Sqlite

definition dialect_from_url :: "string \<Rightarrow> database_dialect" where
  "dialect_from_url url =
     (if starts_with ''postgres://'' url \<or> starts_with ''postgresql://'' url then Postgres
      else if starts_with ''mysql://'' url then MySql
      else Sqlite)"

section \<open>The channel\<close>

definition CHANNEL_SIZE :: nat where "CHANNEL_SIZE = 4096"
definition BATCH_SIZE :: nat where "BATCH_SIZE = 100"

text \<open>\<open>LogNoop\<close> has no sender; otherwise the records waiting in the channel.\<close>

datatype log_sink = LogNoop | LogChannel "access_log_record list"

definition try_send :: "access_log_record \<Rightarrow> log_sink \<Rightarrow> log_sink" where
  "try_send r sink =
     (case sink of
        LogNoop \<Rightarrow> LogNoop
      | LogChannel q \<Rightarrow> if length q < CHANNEL_SIZE then LogChannel (q @ [r]) else LogChannel q)"

section \<open>Batch insert\<close>

definition COLS :: nat where "COLS = 17"

definition join_strings :: "string \<Rightarrow> string list \<Rightarrow> string" where
  "join_strings sep xs = (case xs of [] \<Rightarrow> [] | y # ys \<Rightarrow> y @ concat (map (\<lambda>z. sep @ z) ys))"

definition dollar :: "nat \<Rightarrow> string" where
  "dollar n = ''$'' @ show_nat n"

definition row_placeholders :: "database_dialect \<Rightarrow> nat \<Rightarrow> string list" where
  "row_placeholders d i =
     (case d of
        Postgres \<Rightarrow>
          (let start = i * COLS + 1;
               cols = map dollar [start..<start + COLS]
           in cols[0 := dollar start @ ''::timestamptz''])
      | _ \<Rightarrow> replicate 17 ''?'')"

definition placeholders :: "database_dialect \<Rightarrow> nat \<Rightarrow> string" where
  "placeholders d n =
     join_strings '','' (map (\<lambda>i. ''('' @ join_strings '','' (row_placeholders d i) @ '')'') [0..<n])"

definition insert_sql :: "database_dialect \<Rightarrow> nat \<Rightarrow> string" where
  "insert_sql d n =
     ''INSERT INTO access_log (ts,request_id,api_key_id,model,endpoint,provider_url,provider_node_id,upstream_model,''
     @ ''status_code,latency_ms,streaming,ttft_ms,tpot_ms,''
     @ ''prompt_tokens,completion_tokens,total_tokens,finish_reason) VALUES '' @ placeholders d n"

datatype bind_value = BindText string | BindInt int | BindF64 metric_value

text \<open>\<open>as i32\<close> and \<open>as i64\<close> reinterpret the bits.\<close>

definition as_i64 :: "nat \<Rightarrow> int" where
  "as_i64 n = sint (of_nat n :: u64)"

definition record_binds ::
    "(int \<Rightarrow> string) \<Rightarrow> (int \<Rightarrow> string) \<Rightarrow> database_dialect \<Rightarrow> access_log_record \<Rightarrow> bind_value list" where
  "record_binds mysql_ts rfc3339_ts d r =
     [BindText (case d of MySql \<Rightarrow> mysql_ts (rec_ts r) | _ \<Rightarrow> rfc3339_ts (rec_ts r)),
      BindText (rec_request_id r), BindText (rec_api_key_id r), BindText (rec_model r),
      BindText (rec_endpoint r), BindText (rec_provider_url r), BindText (rec_provider_node_id r),
      BindText (rec_upstream_model r), BindInt (int (rec_status_code r)),
      BindInt (as_i64 (rec_latency_ms r)), BindInt (if rec_streaming r then 1 else 0),
      BindInt (as_i64 (rec_ttft_ms r)), BindF64 (rec_tpot_ms r),
      BindInt (sint (rec_prompt_tokens r)), BindInt (sint (rec_completion_tokens r)),
      BindInt (sint (rec_total_tokens r)), BindText (rec_finish_reason r)]"

text \<open>\<open>execute\<close> is the driver; a failed insert is logged and dropped.\<close>

definition insert_batch ::
    "(string \<Rightarrow> bind_value list \<Rightarrow> 'db \<Rightarrow> unit result \<times> 'db) \<Rightarrow> (int \<Rightarrow> string) \<Rightarrow> (int \<Rightarrow> string)
       \<Rightarrow> database_dialect \<Rightarrow> access_log_record list \<Rightarrow> 'db \<Rightarrow> 'db" where
  "insert_batch execute mysql_ts rfc3339_ts d records db =
     (if records = [] then db
      else snd (execute (insert_sql d (length records))
                  (concat (map (record_binds mysql_ts rfc3339_ts d) records)) db))"

section \<open>The background writer\<close>

text \<open>
  The writer's state: the channel with its senders' liveness, the buffer, the batches handed to
  \<open>insert_batch\<close> so far, and whether the task has ended.  \<open>sent\<close> is a ghost: what
  \<open>try_send\<close> has accepted.
\<close>

record log_writer =
  channel :: "access_log_record list"
  senders_alive :: bool
  buffer :: "access_log_record list"
  batches :: "access_log_record list list"
  ended :: bool
  sent :: "access_log_record list"

definition writer_start :: log_writer where
  "writer_start = \<lparr>channel = [], senders_alive = True, buffer = [], batches = [], ended = False, sent = []\<rparr>"

definition flush_buffer :: "log_writer \<Rightarrow> log_writer" where
  "flush_buffer w = (if buffer w = [] then w else w\<lparr>batches := batches w @ [buffer w], buffer := []\<rparr>)"

definition receive_record :: "access_log_record \<Rightarrow> log_writer \<Rightarrow> log_writer" where
  "receive_record r w =
     (let w1 = w\<lparr>buffer := buffer w @ [r]\<rparr>
      in if BATCH_SIZE \<le> length (buffer w1)
         then w1\<lparr>batches := batches w1 @ [buffer w1], buffer := []\<rparr> else w1)"

text \<open>
  One turn of the loop takes any branch that is ready; a sender may act between turns.  The tick
  that creates partitions changes no record.  A batch counts as written when it is handed to
  \<open>insert_batch\<close>: one that the database refuses is only logged there, and its records are lost.
\<close>

inductive writer_step :: "log_writer \<Rightarrow> log_writer \<Rightarrow> bool" where
  step_send: "senders_alive w \<Longrightarrow> length (channel w) < CHANNEL_SIZE
    \<Longrightarrow> writer_step w (w\<lparr>channel := channel w @ [r], sent := sent w @ [r]\<rparr>)"
| step_send_full: "senders_alive w \<Longrightarrow> CHANNEL_SIZE \<le> length (channel w) \<Longrightarrow> writer_step w w"
| step_drop_senders: "writer_step w (w\<lparr>senders_alive := False\<rparr>)"
| step_recv: "\<not> ended w \<Longrightarrow> channel w = r # q \<Longrightarrow> writer_step w (receive_record r (w\<lparr>channel := q\<rparr>))"
| step_flush_tick: "\<not> ended w \<Longrightarrow> writer_step w (flush_buffer w)"
| step_partition_tick: "\<not> ended w \<Longrightarrow> writer_step w w"
| step_end: "\<not> ended w \<Longrightarrow> channel w = [] \<Longrightarrow> \<not> senders_alive w
    \<Longrightarrow> writer_step w ((flush_buffer w)\<lparr>ended := True\<rparr>)"

definition writer_inv :: "log_writer \<Rightarrow> bool" where
  "writer_inv w \<longleftrightarrow>
     concat (batches w) @ buffer w @ channel w = sent w
   \<and> length (buffer w) < BATCH_SIZE \<and> length (channel w) \<le> CHANNEL_SIZE
   \<and> (\<forall>b \<in> set (batches w). b \<noteq> [] \<and> length b \<le> BATCH_SIZE)
   \<and> (ended w \<longrightarrow> channel w = [] \<and> buffer w = [] \<and> \<not> senders_alive w)"

lemma writer_inv_start: "writer_inv writer_start"
  by (simp add: writer_inv_def writer_start_def BATCH_SIZE_def)

lemma writer_inv_step: "writer_step w w' \<Longrightarrow> writer_inv w \<Longrightarrow> writer_inv w'"
proof (induction rule: writer_step.induct)
  case (step_recv w r q)
  then show ?case by (auto simp: writer_inv_def receive_record_def Let_def BATCH_SIZE_def)
qed (auto simp: writer_inv_def flush_buffer_def)

text \<open>
  \<open>LogWriter::shutdown\<close> drops the last sender, once those of the request path are gone, and waits for
  the task.
\<close>

definition writer_shutdown :: "log_writer \<Rightarrow> log_writer" where
  "writer_shutdown w = w\<lparr>senders_alive := False\<rparr>"

lemma receive_record_frame [simp]:
  "channel (receive_record r w) = channel w" "senders_alive (receive_record r w) = senders_alive w"
  "ended (receive_record r w) = ended w" "sent (receive_record r w) = sent w"
  by (simp_all add: receive_record_def Let_def)

lemma writer_ends:
  assumes "\<not> senders_alive w" "\<not> ended w"
  shows "\<exists>w'. writer_step\<^sup>*\<^sup>* w w' \<and> ended w' \<and> sent w' = sent w"
  using assms
proof (induction "channel w" arbitrary: w)
  case Nil
  then have "writer_step w ((flush_buffer w)\<lparr>ended := True\<rparr>)" by (intro step_end) simp_all
  then show ?case
    by (intro exI [of _ "(flush_buffer w)\<lparr>ended := True\<rparr>"]) (simp add: r_into_rtranclp flush_buffer_def)
next
  case (Cons r q)
  let ?w = "receive_record r (w\<lparr>channel := q\<rparr>)"
  have "writer_step w ?w" using Cons.prems(2) Cons.hyps(2) [symmetric] by (rule step_recv)
  moreover obtain w' where "writer_step\<^sup>*\<^sup>* ?w w'" "ended w'" "sent w' = sent w"
    using Cons.hyps(1) [of ?w] Cons.prems by auto
  ultimately show ?case by (meson converse_rtranclp_into_rtranclp)
qed

text \<open>
  C24. The access log writer neither loses nor repeats nor reorders what the channel accepted: in
  every reachable state the batches handed to \<open>insert_batch\<close>, the buffer and the channel spell out exactly
  the accepted records, batches hold between 1 and \<open>BATCH_SIZE\<close> records, and once the writer has ended
  all of them are in batches; after a shutdown it can end, from any of these states.
\<close>

theorem log_writer_complete:
  assumes "writer_step\<^sup>*\<^sup>* writer_start w"
  shows "concat (batches w) @ buffer w @ channel w = sent w
       \<and> (\<forall>b \<in> set (batches w). b \<noteq> [] \<and> length b \<le> BATCH_SIZE)
       \<and> length (buffer w) < BATCH_SIZE \<and> length (channel w) \<le> CHANNEL_SIZE
       \<and> (ended w \<longrightarrow> concat (batches w) = sent w)
       \<and> (\<exists>w'. writer_step\<^sup>*\<^sup>* (writer_shutdown w) w' \<and> ended w' \<and> concat (batches w') = sent w)"
proof -
  from assms have inv: "writer_inv w"
    by (induction rule: rtranclp_induct) (auto intro: writer_inv_start writer_inv_step)
  then have down: "writer_inv (writer_shutdown w)" by (auto simp: writer_inv_def writer_shutdown_def)
  have "\<exists>w'. writer_step\<^sup>*\<^sup>* (writer_shutdown w) w' \<and> ended w' \<and> sent w' = sent w"
  proof (cases "ended w")
    case True
    then show ?thesis by (intro exI [of _ "writer_shutdown w"]) (simp add: writer_shutdown_def)
  next
    case False
    then show ?thesis using writer_ends [of "writer_shutdown w"] by (simp add: writer_shutdown_def)
  qed
  then obtain w' where w': "writer_step\<^sup>*\<^sup>* (writer_shutdown w) w'" "ended w'" "sent w' = sent w" by blast
  from w'(1) down have "writer_inv w'" by (induction rule: rtranclp_induct) (auto intro: writer_inv_step)
  with w' have "writer_step\<^sup>*\<^sup>* (writer_shutdown w) w' \<and> ended w' \<and> concat (batches w') = sent w"
    by (auto simp: writer_inv_def)
  then have "\<exists>w'. writer_step\<^sup>*\<^sup>* (writer_shutdown w) w' \<and> ended w' \<and> concat (batches w') = sent w" by blast
  with inv show ?thesis by (auto simp: writer_inv_def)
qed

lemma log_writer_complete_witness:
  "concat (batches (writer_start\<lparr>senders_alive := False, ended := True\<rparr>)) = sent writer_start"
proof -
  have a: "writer_step writer_start (writer_start\<lparr>senders_alive := False\<rparr>)"
    by (rule step_drop_senders)
  have "writer_step (writer_start\<lparr>senders_alive := False\<rparr>)
      ((flush_buffer (writer_start\<lparr>senders_alive := False\<rparr>))\<lparr>ended := True\<rparr>)"
    by (rule step_end) (simp_all add: writer_start_def)
  also have "(flush_buffer (writer_start\<lparr>senders_alive := False\<rparr>))\<lparr>ended := True\<rparr>
      = writer_start\<lparr>senders_alive := False, ended := True\<rparr>"
    by (simp add: flush_buffer_def writer_start_def)
  finally have "writer_step\<^sup>*\<^sup>* writer_start (writer_start\<lparr>senders_alive := False, ended := True\<rparr>)"
    using a by (meson converse_rtranclp_into_rtranclp rtranclp.rtrancl_refl)
  from log_writer_complete [OF this] show ?thesis by (simp add: writer_start_def)
qed

text \<open>
  The insert statement is well formed for every batch: a row has \<open>COLS\<close> placeholders and
  binds \<open>COLS\<close> values, and for PostgreSQL the placeholders of the whole statement are numbered
  \<open>$1\<close> to \<open>$(17 n)\<close> in order, as many as there are bound values.
\<close>

lemma insert_placeholders_match:
  "length (row_placeholders d i) = COLS \<and> length (record_binds f g d r) = COLS
   \<and> length (concat (map (record_binds f g d) rs)) = COLS * length rs
   \<and> map (takeWhile (\<lambda>c. c \<noteq> CHR '':'')) (concat (map (row_placeholders Postgres) [0..<n]))
       = map dollar [1..<COLS * n + 1]"
proof -
  have digits: "CHR '':'' \<notin> set (show_nat m)" for m
  proof (induction m rule: show_nat.induct)
    case (1 m)
    have ch: "digit_char d \<noteq> CHR '':''" if "d < 10" for d
    proof
      assume "digit_char d = CHR '':''"
      then have "(of_char (digit_char d) :: nat) = of_char CHR '':''" by simp
      then show False using that by (simp add: digit_char_def of_char_of)
    qed
    show ?case
      using 1 by (subst show_nat.simps) (auto simp: ch [THEN not_sym] ch)
  qed
  have dollar: "takeWhile (\<lambda>c. c \<noteq> CHR '':'') (dollar m) = dollar m"
    "takeWhile (\<lambda>c. c \<noteq> CHR '':'') (dollar m @ ''::timestamptz'') = dollar m" for m
    using digits [of m]
    by (auto simp: dollar_def takeWhile_eq_all_conv takeWhile_append2 takeWhile_append)
  have row: "map (takeWhile (\<lambda>c. c \<noteq> CHR '':'')) (row_placeholders Postgres i)
      = map dollar [i * COLS + 1..<i * COLS + 1 + COLS]" for i
  proof -
    have "[i * COLS + 1..<i * COLS + 1 + COLS] = (i * COLS + 1) # [i * COLS + 2..<i * COLS + 1 + COLS]"
      by (subst upt_rec) (simp add: COLS_def)
    then show ?thesis by (simp add: row_placeholders_def Let_def dollar comp_def)
  qed
  have "map (takeWhile (\<lambda>c. c \<noteq> CHR '':'')) (concat (map (row_placeholders Postgres) [0..<n]))
       = map dollar [1..<COLS * n + 1]"
  proof (induction n)
    case (Suc n)
    have "[1..<COLS * Suc n + 1] = [1..<COLS * n + 1] @ [n * COLS + 1..<n * COLS + 1 + COLS]"
      using upt_add_eq_append [of 1 "COLS * n + 1" COLS] by (simp add: algebra_simps)
    with Suc show ?case by (simp add: row)
  qed simp
  moreover have "length (concat (map (record_binds f g d) rs)) = COLS * length rs"
    by (induction rs) (simp_all add: record_binds_def COLS_def)
  ultimately show ?thesis
    by (simp add: row_placeholders_def record_binds_def COLS_def Let_def split: database_dialect.split)
qed

end
