(* ===== verification/Router_Core.thy ===== *)
theory Router_Core
  imports Sse Access_Log Registry Rate_Limit Retry
begin

text \<open>
  What the four \<open>POST\<close> handlers of \<^verbatim>\<open>server/src/router.rs\<close> share: the state they act
  on, one attempt against one upstream, the task that forwards a stream, and the tail of a handler.
  The handlers differ in a few places only (path, upstream choice, usage extractor, ...); these are
  the fields of \<open>route_spec\<close>, and \<open>Router\<close> gives them for each handler.  What the network
  does, and every clock reading, is an argument (\<open>attempt_env\<close>, \<open>stream_item\<close>,
  \<open>finish_env\<close>).
\<close>

section \<open>Lossy text\<close>

text \<open>
  \<open>String::from_utf8_lossy\<close>: each maximal ill-formed part becomes one replacement character.
\<close>

definition bad_width :: "string \<Rightarrow> nat" where
  "bad_width s =
     (case s of
        [] \<Rightarrow> 0
      | a # t \<Rightarrow>
          (if 0xE0 \<le> byte a \<and> byte a \<le> 0xEF then
             (case t of b # _ \<Rightarrow> if second_of_3 (byte a) b then 2 else 1 | [] \<Rightarrow> 1)
           else if 0xF0 \<le> byte a \<and> byte a \<le> 0xF4 then
             (case t of
                b # t2 \<Rightarrow>
                  (if second_of_4 (byte a) b
                   then (case t2 of c # _ \<Rightarrow> if cont c then 3 else 2 | [] \<Rightarrow> 2) else 1)
              | [] \<Rightarrow> 1)
           else 1))"

function utf8_lossy :: "string \<Rightarrow> string" where
  "utf8_lossy s =
     (if s = [] then []
      else if char_width s = 0 then map char_of [0xEF, 0xBF, 0xBD :: nat] @ utf8_lossy (drop (bad_width s) s)
      else take (char_width s) s @ utf8_lossy (drop (char_width s) s))"
  by pat_completeness auto

lemma bad_width_pos: "s \<noteq> [] \<Longrightarrow> 0 < bad_width s"
  by (auto simp: bad_width_def split: list.split)

termination utf8_lossy
  by (relation "measure length") (auto intro: diff_less simp: bad_width_pos)

declare utf8_lossy.simps [simp del]

section \<open>State\<close>

text \<open>An access event is a log record with the two bodies that only the text log carries.\<close>

record access_event = access_log_record +
  ev_request_body :: string
  ev_response_body :: string

record stream_task =
  task_upstream :: upstream_ref
  task_request_id :: string
  task_api_key_id :: string
  task_model :: string
  task_endpoint :: string
  task_provider :: string
  task_node_id :: string
  task_upstream_model :: string
  task_status :: nat
  task_success :: bool
  task_rate_limit :: "rate_limit_ctx option"
  task_request_body :: string
  task_log_body :: bool

record ('s, 'j) world =
  w_registry :: registry
  w_limiter :: 's
  w_sink :: log_sink
  w_access :: "access_event list"
  w_metrics :: metrics
  w_sent :: "'j http_request list"    \<comment> \<open>requests handed to the HTTP client\<close>
  w_tasks :: "stream_task list"       \<comment> \<open>tasks spawned\<close>

record request_context =
  rc_request_id :: string
  rc_api_key_id :: string
  rc_rate_limit :: "rate_limit_ctx option"
  rc_min_priority :: u8

definition metric :: "(metrics \<Rightarrow> metrics) \<Rightarrow> ('s, 'j) world \<Rightarrow> ('s, 'j) world" where
  "metric f w = w\<lparr>w_metrics := f (w_metrics w)\<rparr>"

definition breaker_success :: "nat \<Rightarrow> upstream_ref \<Rightarrow> ('s, 'j) world \<Rightarrow> ('s, 'j) world" where
  "breaker_success now u w =
     w\<lparr>w_registry := update_upstream u (\<lambda>b. b\<lparr>circuit_breaker := record_success now (circuit_breaker b)\<rparr>)
         (w_registry w)\<rparr>"

definition breaker_failure :: "nat \<Rightarrow> upstream_ref \<Rightarrow> ('s, 'j) world \<Rightarrow> ('s, 'j) world" where
  "breaker_failure now u w =
     w\<lparr>w_registry := update_upstream u (\<lambda>b. b\<lparr>circuit_breaker := record_failure now (circuit_breaker b)\<rparr>)
         (w_registry w)\<rparr>"

section \<open>Access log\<close>

definition emit_access_log ::
    "int \<Rightarrow> string \<Rightarrow> string \<Rightarrow> string \<Rightarrow> string \<Rightarrow> string \<Rightarrow> string \<Rightarrow> string \<Rightarrow> nat \<Rightarrow> nat \<Rightarrow> bool \<Rightarrow> nat
       \<Rightarrow> metric_value \<Rightarrow> u32 \<Rightarrow> u32 \<Rightarrow> u32 \<Rightarrow> string \<Rightarrow> string \<Rightarrow> string \<Rightarrow> ('s, 'j) world \<Rightarrow> ('s, 'j) world" where
  "emit_access_log ts request_id api_key_id mdl endpoint url node_id up_model
     status_code latency_ms streaming ttft_ms tpot_ms n_prompt n_completion n_total finish_reason
     request_body response_body w =
     (let e = \<lparr>rec_ts = ts, rec_request_id = request_id, rec_api_key_id = api_key_id, rec_model = mdl,
               rec_endpoint = endpoint, rec_provider_url = url,
               rec_provider_node_id = node_id, rec_upstream_model = up_model,
               rec_status_code = status_code, rec_latency_ms = latency_ms, rec_streaming = streaming,
               rec_ttft_ms = ttft_ms, rec_tpot_ms = tpot_ms, rec_prompt_tokens = n_prompt,
               rec_completion_tokens = n_completion, rec_total_tokens = n_total,
               rec_finish_reason = finish_reason, ev_request_body = request_body,
               ev_response_body = response_body\<rparr>
      in w\<lparr>w_access := w_access w @ [e],
           w_sink := try_send (access_log_record.truncate e) (w_sink w)\<rparr>)"

section \<open>What the handlers differ in\<close>

record 'j route_spec =
  sp_endpoint :: string
  sp_path :: string
  sp_model :: string
  sp_streaming :: bool
  sp_inject :: bool                      \<comment> \<open>add \<open>stream_options\<close>\<close>
  sp_log_body :: bool
  sp_pick :: "nat \<Rightarrow> registry \<Rightarrow> upstream_ref option \<times> registry"
  sp_no_upstream :: "'j response"
  sp_usage :: "string \<Rightarrow> token_usage option"
  sp_reason :: "string \<Rightarrow> string"

text \<open>The upstream's side of one attempt: a transport error, or a status, content type and body.\<close>

datatype exchange = SendError string | Reply nat "string option" "string + string"

record 'j attempt_env =
  ae_select_at :: nat
  ae_outcome_at :: nat
  ae_limiter_now :: int
  ae_ts :: int
  ae_elapsed_ms :: nat
  ae_exchange :: "'j http_request \<Rightarrow> exchange"

section \<open>One attempt\<close>

definition upstream_model_or :: "binding \<Rightarrow> string \<Rightarrow> string" where
  "upstream_model_or b mdl = (case upstream_model_name b of Some name \<Rightarrow> name | None \<Rightarrow> mdl)"

definition attempt_payload :: "'j lib \<Rightarrow> 'j route_spec \<Rightarrow> binding \<Rightarrow> 'j \<Rightarrow> 'j" where
  "attempt_payload J sp b payload =
     (let p = (case upstream_model_name b of
                 Some name \<Rightarrow> j_put J ''model'' (j_str J name) payload | None \<Rightarrow> payload)
      in if sp_streaming sp \<and> sp_inject sp \<and> j_get J ''stream_options'' p = None
         then j_put J ''stream_options'' (j_obj J [(''include_usage'', j_bool J True)]) p else p)"

definition attempt_rate_limit :: "binding \<Rightarrow> rate_limit_ctx option \<Rightarrow> rate_limit_ctx option" where
  "attempt_rate_limit b rl =
     map_option (\<lambda>r. r\<lparr>record_primary_tpm := record_primary_tpm r \<and> priority b = 0\<rparr>) rl"

definition auth_header :: "'j lib \<Rightarrow> binding \<Rightarrow> string option" where
  "auth_header J b = Option.bind (upstream_api_key b) (\<lambda>k. hv_from_str J (''Bearer '' @ k))"

definition attempt_request :: "'j lib \<Rightarrow> 'j route_spec \<Rightarrow> binding \<Rightarrow> 'j \<Rightarrow> 'j http_request" where
  "attempt_request J sp b p =
     (let hs = apply_provider_headers J (api_compatibility_of b) (auth_header J b) [];
          hs1 = (if sp_streaming sp then hs @ [(''accept'', ''text/event-stream'')] else hs)
      in \<lparr>req_method = ''POST'', req_url = base_url b @ sp_path sp, req_headers = hs1, req_json = Some p\<rparr>)"

definition charge ::
    "'s limiter_ops \<Rightarrow> int \<Rightarrow> rate_limit_ctx option \<Rightarrow> string \<Rightarrow> u32 \<Rightarrow> ('s, 'j) world \<Rightarrow> ('s, 'j) world" where
  "charge L now rl api_key_id n w =
     (if 0 < n then
        (case rl of
           Some r \<Rightarrow> w\<lparr>w_limiter := ctx_record_tokens L now r api_key_id n (w_limiter w)\<rparr>
         | None \<Rightarrow> w)
      else w)"

definition content_type_header :: "string option \<Rightarrow> headers" where
  "content_type_header ct = (case ct of Some v \<Rightarrow> [(''content-type'', v)] | None \<Rightarrow> [])"

text \<open>The branch that reads the whole body.\<close>

definition answer_body ::
    "'j lib \<Rightarrow> 's limiter_ops \<Rightarrow> 'j route_spec \<Rightarrow> request_context \<Rightarrow> 'j attempt_env \<Rightarrow> upstream_ref \<Rightarrow> binding
       \<Rightarrow> string \<Rightarrow> rate_limit_ctx option \<Rightarrow> nat \<Rightarrow> string option \<Rightarrow> string + string \<Rightarrow> ('s, 'j) world
       \<Rightarrow> 'j response \<times> ('s, 'j) world" where
  "answer_body J L sp ctx e u b req_body_str rl st content_type rbody w =
     (case rbody of
        Inl err \<Rightarrow>
          (internal_error J (''Failed to read response: '' @ err), breaker_failure (ae_outcome_at e) u w)
      | Inr body_bytes \<Rightarrow>
          (let w1 = metric (record_upstream_duration (sp_model sp) (base_url b) (ae_elapsed_ms e)) w;
               w2 = (if is_success st then
                       (let w3 = breaker_success (ae_outcome_at e) u w1;
                            usage = (case sp_usage sp body_bytes of Some us \<Rightarrow> us | None \<Rightarrow> no_usage);
                            w4 = charge L (ae_limiter_now e) rl (rc_api_key_id ctx) (total_tokens usage) w3
                        in emit_access_log (ae_ts e) (rc_request_id ctx) (rc_api_key_id ctx) (sp_model sp)
                             (sp_endpoint sp) (base_url b) (provider_node_id b)
                             (upstream_model_or b (sp_model sp)) st (ae_elapsed_ms e) False 0 (Num 0)
                             (prompt_tokens usage) (completion_tokens usage) (total_tokens usage)
                             (sp_reason sp body_bytes) req_body_str
                             (if sp_log_body sp then utf8_lossy body_bytes else '''') w4)
                     else breaker_failure (ae_outcome_at e) u w1)
           in (\<lparr>status = st, resp_headers = content_type_header content_type, body = BodyBytes body_bytes\<rparr>, w2)))"

text \<open>The branch that spawns the forwarding task.\<close>

definition answer_stream ::
    "'j route_spec \<Rightarrow> request_context \<Rightarrow> 'j attempt_env \<Rightarrow> upstream_ref \<Rightarrow> binding
       \<Rightarrow> string \<Rightarrow> rate_limit_ctx option \<Rightarrow> nat \<Rightarrow> ('s, 'j) world \<Rightarrow> 'j response \<times> ('s, 'j) world" where
  "answer_stream sp ctx e u b req_body_str rl st w =
     (let w1 = metric (record_upstream_duration (sp_model sp) (base_url b) (ae_elapsed_ms e)) w;
          task = \<lparr>task_upstream = u, task_request_id = rc_request_id ctx,
                  task_api_key_id = rc_api_key_id ctx, task_model = sp_model sp,
                  task_endpoint = sp_endpoint sp, task_provider = base_url b,
                  task_node_id = provider_node_id b,
                  task_upstream_model = upstream_model_or b (sp_model sp), task_status = st,
                  task_success = is_success st, task_rate_limit = rl,
                  task_request_body = req_body_str, task_log_body = sp_log_body sp\<rparr>
      in (\<lparr>status = st, resp_headers = [(''content-type'', ''text/event-stream'')], body = BodyStream\<rparr>,
          w1\<lparr>w_tasks := w_tasks w1 @ [task]\<rparr>))"

text \<open>
  The last upstream a request tried (URL, node id, model name): the three strings behind mutexes.
\<close>

type_synonym last_upstream = "string \<times> string \<times> string"

definition send_attempt ::
    "'j lib \<Rightarrow> 's limiter_ops \<Rightarrow> 'j route_spec \<Rightarrow> request_context \<Rightarrow> 'j attempt_env \<Rightarrow> 'j \<Rightarrow> upstream_ref
       \<Rightarrow> ('s, 'j) world \<Rightarrow> 'j response \<times> ('s, 'j) world" where
  "send_attempt J L sp ctx e payload u w =
     (let b = deref (w_registry w) u;
          p = attempt_payload J sp b payload;
          rl = attempt_rate_limit b (rc_rate_limit ctx);
          req_body_str = (if sp_log_body sp then j_to_string J p else '''');
          req = attempt_request J sp b p;
          w1 = w\<lparr>w_sent := w_sent w @ [req]\<rparr>
      in case ae_exchange e req of
           SendError err \<Rightarrow>
             (service_unavailable (''Failed to contact upstream: '' @ err),
              breaker_failure (ae_outcome_at e) u
                (metric (record_upstream_request (sp_model sp) (base_url b) 0) w1))
         | Reply raw_status content_type rbody \<Rightarrow>
             (let st = status_from_u16 raw_status;
                  w2 = metric (record_upstream_request (sp_model sp) (base_url b) st) w1
              in if \<not> sp_streaming sp \<or> \<not> is_success st
                 then answer_body J L sp ctx e u b req_body_str rl st content_type rbody w2
                 else answer_stream sp ctx e u b req_body_str rl st w2))"

definition attempt_once ::
    "'j lib \<Rightarrow> 's limiter_ops \<Rightarrow> 'j route_spec \<Rightarrow> request_context \<Rightarrow> 'j attempt_env \<Rightarrow> 'j
       \<Rightarrow> ('s, 'j) world \<times> last_upstream \<Rightarrow> 'j response \<times> ('s, 'j) world \<times> last_upstream" where
  "attempt_once J L sp ctx e payload wl =
     (case wl of (w, lu) \<Rightarrow>
        (case sp_pick sp (ae_select_at e) (w_registry w) of
           (None, r) \<Rightarrow>
             (sp_no_upstream sp,
              metric (record_gateway_error (sp_model sp) (sp_endpoint sp) ERROR_NO_UPSTREAM)
                (w\<lparr>w_registry := r\<rparr>), lu)
         | (Some u, r) \<Rightarrow>
             (let b = deref r u in
              case send_attempt J L sp ctx e payload u (w\<lparr>w_registry := r\<rparr>) of
                (resp, w') \<Rightarrow>
                  (resp, w', (base_url b, provider_node_id b, upstream_model_or b (sp_model sp))))))"

section \<open>The whole request\<close>

definition finish_route ::
    "'j route_spec \<Rightarrow> request_context \<Rightarrow> int \<Rightarrow> nat \<Rightarrow> 'j response \<Rightarrow> ('s, 'j) world \<times> last_upstream
       \<Rightarrow> ('s, 'j) world" where
  "finish_route sp ctx ts total_ms resp wl =
     (case wl of (w, provider, pnode_id, upstream_model) \<Rightarrow>
        (if is_success (status resp)
         then metric (record_gateway_duration (sp_model sp) (sp_endpoint sp) total_ms) w
         else metric (record_gateway_error (sp_model sp) (sp_endpoint sp) ERROR_BACKEND)
                (emit_access_log ts (rc_request_id ctx) (rc_api_key_id ctx) (sp_model sp) (sp_endpoint sp)
                   provider pnode_id upstream_model (status resp) total_ms (sp_streaming sp) 0 (Num 0)
                   0 0 0 '''' '''' '''' w)))"

text \<open>Per-attempt environments, the final clock readings, and the jitter draw.\<close>

record ('j, 'g) route_env =
  re_attempt :: "nat \<Rightarrow> 'j attempt_env"
  re_draw :: "'g \<Rightarrow> 'g"
  re_ts :: int
  re_total_ms :: nat

definition route_core ::
    "'j lib \<Rightarrow> 's limiter_ops \<Rightarrow> 'g f32_ops \<Rightarrow> 'g retry_config \<Rightarrow> 'j route_spec \<Rightarrow> request_context
       \<Rightarrow> ('j, 'g) route_env \<Rightarrow> 'j \<Rightarrow> ('s, 'j) world \<Rightarrow> 'j response \<times> ('s, 'j) world" where
  "route_core J L F retry sp ctx env payload w =
     (let w0 = metric (record_gateway_request (sp_model sp) (sp_endpoint sp)
                         (bool_to_static_str (sp_streaming sp))) w
      in case execute_response_with_retry F (re_draw env) retry
           (\<lambda>attempt. attempt_once J L sp ctx (re_attempt env attempt) payload)
           status
           (\<lambda>res _. is_retryable_status (status res))
           (\<lambda>_ _ status_code (w, l). (metric (record_retry_attempt (sp_model sp) (sp_endpoint sp) status_code) w, l))
           (\<lambda>(w, l). (metric (record_retry_exhausted (sp_model sp) (sp_endpoint sp)) w, l))
           (w0, '''', '''', '''') of
         (resp, wl) \<Rightarrow> (resp, finish_route sp ctx (re_ts env) (re_total_ms env) resp wl))"

section \<open>The streaming task\<close>

definition MAX_LOG_BODY_BYTES :: nat where
  "MAX_LOG_BODY_BYTES = 1048576"

datatype chunk_result = ChunkOk string | ChunkErr string

text \<open>
  One turn of the task's loop: what the stream gives, the time since the request was sent, and
  whether the client's channel takes what is sent (it does not once the client is gone).
\<close>

record stream_item =
  si_chunk :: chunk_result
  si_elapsed_ms :: nat
  si_accepted :: bool

record stream_state =
  ss_ttft_ms :: nat
  ss_lines :: "string \<times> collected"    \<comment> \<open>the line buffer, the last usage and finish reason\<close>
  ss_resp_buf :: "string option"
  ss_upstream_error :: bool
  ss_first :: bool
  ss_forwarded :: "chunk_result list"  \<comment> \<open>what the client's channel has taken\<close>

definition stream_start :: "bool \<Rightarrow> stream_state" where
  "stream_start log_body =
     \<lparr>ss_ttft_ms = 0, ss_lines = ([], no_usage, ''''), ss_resp_buf = (if log_body then Some [] else None),
      ss_upstream_error = False, ss_first = True, ss_forwarded = []\<rparr>"

definition on_first_chunk ::
    "stream_task \<Rightarrow> nat \<Rightarrow> stream_state \<times> ('s, 'j) world \<Rightarrow> stream_state \<times> ('s, 'j) world" where
  "on_first_chunk t ttft sw =
     (case sw of (st, w) \<Rightarrow>
        (if ss_first st
         then (st\<lparr>ss_ttft_ms := ttft, ss_first := False\<rparr>,
               metric (record_upstream_ttft (task_model t) (task_provider t) ttft) w)
         else (st, w)))"

definition keep_body :: "string \<Rightarrow> string option \<Rightarrow> string option" where
  "keep_body bytes buf =
     map_option (\<lambda>b. if length b < MAX_LOG_BODY_BYTES then b @ bytes else b) buf"

fun stream_loop ::
    "(string \<Rightarrow> collected \<Rightarrow> collected) \<Rightarrow> stream_task \<Rightarrow> stream_item list
       \<Rightarrow> stream_state \<times> ('s, 'j) world \<Rightarrow> stream_state \<times> ('s, 'j) world" where
  "stream_loop on_span t [] sw = sw"
| "stream_loop on_span t (it # its) sw =
     (case on_first_chunk t (si_elapsed_ms it) sw of (st, w) \<Rightarrow>
        (case si_chunk it of
           ChunkOk bytes \<Rightarrow>
             (let st1 = st\<lparr>ss_lines := sse_push on_span bytes (ss_lines st),
                           ss_resp_buf := keep_body bytes (ss_resp_buf st)\<rparr>
              in if si_accepted it
                 then stream_loop on_span t its (st1\<lparr>ss_forwarded := ss_forwarded st1 @ [ChunkOk bytes]\<rparr>, w)
                 else (st1, w))
         | ChunkErr err \<Rightarrow>
             (let st1 = st\<lparr>ss_upstream_error := True\<rparr>
              in (if si_accepted it
                  then st1\<lparr>ss_forwarded := ss_forwarded st1 @ [ChunkErr (''Stream error: '' @ err)]\<rparr>
                  else st1, w))))"

record finish_env =
  fe_outcome_at :: nat
  fe_limiter_now :: int
  fe_ts :: int
  fe_total_ms :: nat

definition stream_finish ::
    "'s limiter_ops \<Rightarrow> (string \<Rightarrow> collected \<Rightarrow> collected) \<Rightarrow> stream_task \<Rightarrow> finish_env
       \<Rightarrow> stream_state \<times> ('s, 'j) world \<Rightarrow> ('s, 'j) world" where
  "stream_finish L on_span t fe sw =
     (case sw of (st, w) \<Rightarrow>
        (case snd (sse_flush on_span (ss_lines st)) of (last_usage, last_finish_reason) \<Rightarrow>
           (let w1 = (if task_success t then
                        (if ss_upstream_error st
                         then breaker_failure (fe_outcome_at fe) (task_upstream t) w
                         else breaker_success (fe_outcome_at fe) (task_upstream t) w)
                      else w);
                w2 = charge L (fe_limiter_now fe) (task_rate_limit t) (task_api_key_id t)
                       (total_tokens last_usage) w1;
                total_ms = fe_total_ms fe;
                tpot_ms = (if 0 < completion_tokens last_usage \<and> ss_ttft_ms st < total_ms
                           then MillisPerToken (total_ms - ss_ttft_ms st) (unat (completion_tokens last_usage))
                           else Num 0);
                w3 = (if 0 < completion_tokens last_usage
                      then metric (record_tpot (task_model t) (task_provider t) tpot_ms) w2 else w2);
                resp_body_str = (case ss_resp_buf st of Some b \<Rightarrow> utf8_lossy b | None \<Rightarrow> '''')
            in emit_access_log (fe_ts fe) (task_request_id t) (task_api_key_id t) (task_model t)
                 (task_endpoint t) (task_provider t) (task_node_id t) (task_upstream_model t)
                 (task_status t) total_ms True (ss_ttft_ms st) tpot_ms (prompt_tokens last_usage)
                 (completion_tokens last_usage) (total_tokens last_usage) last_finish_reason
                 (task_request_body t) resp_body_str w3)))"

definition run_stream_task ::
    "'s limiter_ops \<Rightarrow> (string \<Rightarrow> collected \<Rightarrow> collected) \<Rightarrow> stream_task \<Rightarrow> stream_item list \<Rightarrow> finish_env
       \<Rightarrow> ('s, 'j) world \<Rightarrow> chunk_result list \<times> ('s, 'j) world" where
  "run_stream_task L on_span t items fe w =
     (case stream_loop on_span t items (stream_start (task_log_body t), w) of
        (st, w1) \<Rightarrow> (ss_forwarded st, stream_finish L on_span t fe (st, w1)))"

end
