(* ===== verification/Router.thy ===== *)
theory Router
  imports Router_Core
begin

text \<open>
  The handlers of \<open>GatewayRouter\<close> (\<^verbatim>\<open>server/src/router.rs\<close>) on top of
  \<open>Router_Core\<close>: chat completions, Messages, embeddings, Responses, and the three proxied Responses
  operations; with the router's configuration (\<^verbatim>\<open>core/src/config.rs\<close>).  The typed request
  bodies come from another crate: of such a body the handlers use its model, its stream flag and its
  JSON value.
\<close>

section \<open>Configuration\<close>

record 'g router_config =
  request_timeout_secs :: u64
  client_identity :: "string option"
  ca_certificates :: "string list"
  server_cert :: "string option"
  server_key :: "string option"
  rcfg_retry_config :: "'g retry_config option"
  log_request_body :: bool
  inject_stream_usage :: bool

definition default_router_config :: "'g router_config" where
  "default_router_config =
     \<lparr>request_timeout_secs = 30, client_identity = None, ca_certificates = [], server_cert = None,
      server_key = None, rcfg_retry_config = None, log_request_body = False, inject_stream_usage = True\<rparr>"

definition effective_retry_config :: "'g \<Rightarrow> 'g \<Rightarrow> 'g router_config \<Rightarrow> 'g retry_config" where
  "effective_retry_config one_and_half one_fifth c =
     (case rcfg_retry_config c of Some r \<Rightarrow> r | None \<Rightarrow> default_retry_config one_and_half one_fifth)"

text \<open>The registry, the HTTP client and the log sink are parts of the world.\<close>

record 'g gateway_router =
  gr_retry_config :: "'g retry_config"
  gr_log_request_body :: bool
  gr_inject_stream_usage :: bool

definition gateway_router_new :: "'g \<Rightarrow> 'g \<Rightarrow> 'g router_config \<Rightarrow> 'g gateway_router" where
  "gateway_router_new one_and_half one_fifth c =
     \<lparr>gr_retry_config = effective_retry_config one_and_half one_fifth c,
      gr_log_request_body = log_request_body c, gr_inject_stream_usage = inject_stream_usage c\<rparr>"

record 'j typed_request =
  tr_model :: string
  tr_stream :: bool
  tr_value :: "'j result"

definition or_default :: "'a option \<Rightarrow> 'a \<Rightarrow> 'a" where
  "or_default x d = (case x of Some y \<Rightarrow> y | None \<Rightarrow> d)"

section \<open>Chat completions\<close>

definition chat_spec ::
    "'j lib \<Rightarrow> 'f hash_ops \<Rightarrow> 'g gateway_router \<Rightarrow> string \<Rightarrow> bool \<Rightarrow> string option \<Rightarrow> u8 \<Rightarrow> 'j route_spec" where
  "chat_spec J H g mdl streaming routing_key min_priority =
     \<lparr>sp_endpoint = ENDPOINT_CHAT, sp_path = ''/chat/completions'', sp_model = mdl,
      sp_streaming = streaming, sp_inject = gr_inject_stream_usage g, sp_log_body = gr_log_request_body g,
      sp_pick = (\<lambda>now. registry_select H now mdl routing_key (Some External) (Some OpenAiApi) min_priority),
      sp_no_upstream = model_not_found J mdl,
      sp_usage = extract_usage_from_json J, sp_reason = extract_finish_reason_from_json J\<rparr>"

definition route_chat ::
    "'j lib \<Rightarrow> 'f hash_ops \<Rightarrow> 's limiter_ops \<Rightarrow> 'g f32_ops \<Rightarrow> 'g gateway_router \<Rightarrow> 'j typed_request
       \<Rightarrow> string option \<Rightarrow> headers \<Rightarrow> request_context \<Rightarrow> ('j, 'g) route_env \<Rightarrow> ('s, 'j) world
       \<Rightarrow> 'j response \<times> ('s, 'j) world" where
  "route_chat J H L F g rbody mid hs ctx env w =
     (let mdl = or_default mid (tr_model rbody);
          streaming = tr_stream rbody
      in case tr_value rbody of
           Inl e \<Rightarrow> (bad_request (''Failed to serialize request: '' @ e),
                    metric (record_gateway_error mdl ENDPOINT_CHAT ERROR_VALIDATION) w)
         | Inr payload \<Rightarrow>
             route_core J L F (gr_retry_config g)
               (chat_spec J H g mdl streaming (extract_routing_key J hs) (rc_min_priority ctx))
               ctx env payload w)"

definition chat_stream_task ::
    "'j lib \<Rightarrow> 's limiter_ops \<Rightarrow> stream_task \<Rightarrow> stream_item list \<Rightarrow> finish_env \<Rightarrow> ('s, 'j) world
       \<Rightarrow> chunk_result list \<times> ('s, 'j) world" where
  "chat_stream_task J L = run_stream_task L (chat_on_span J)"

section \<open>Messages\<close>

definition messages_spec ::
    "'j lib \<Rightarrow> 'f hash_ops \<Rightarrow> 'g gateway_router \<Rightarrow> string \<Rightarrow> bool \<Rightarrow> string option \<Rightarrow> u8 \<Rightarrow> 'j route_spec" where
  "messages_spec J H g mdl streaming routing_key min_priority =
     \<lparr>sp_endpoint = ENDPOINT_MESSAGES, sp_path = ''/messages'', sp_model = mdl,
      sp_streaming = streaming, sp_inject = False, sp_log_body = gr_log_request_body g,
      sp_pick = (\<lambda>now. registry_select H now mdl routing_key (Some External) (Some AnthropicApi) min_priority),
      sp_no_upstream = model_not_found J mdl,
      sp_usage = extract_anthropic_usage_from_json J,
      sp_reason = extract_anthropic_finish_reason_from_json J\<rparr>"

definition route_messages ::
    "'j lib \<Rightarrow> 'f hash_ops \<Rightarrow> 's limiter_ops \<Rightarrow> 'g f32_ops \<Rightarrow> 'g gateway_router \<Rightarrow> 'j typed_request
       \<Rightarrow> string option \<Rightarrow> headers \<Rightarrow> request_context \<Rightarrow> ('j, 'g) route_env \<Rightarrow> ('s, 'j) world
       \<Rightarrow> 'j response \<times> ('s, 'j) world" where
  "route_messages J H L F g rbody mid hs ctx env w =
     (let mdl = or_default mid (tr_model rbody);
          streaming = tr_stream rbody
      in case tr_value rbody of
           Inl e \<Rightarrow> (bad_request (''Failed to serialize request: '' @ e),
                    metric (record_gateway_error mdl ENDPOINT_MESSAGES ERROR_VALIDATION) w)
         | Inr payload \<Rightarrow>
             route_core J L F (gr_retry_config g)
               (messages_spec J H g mdl streaming (extract_routing_key J hs) (rc_min_priority ctx))
               ctx env payload w)"

definition messages_stream_task ::
    "'j lib \<Rightarrow> 's limiter_ops \<Rightarrow> stream_task \<Rightarrow> stream_item list \<Rightarrow> finish_env \<Rightarrow> ('s, 'j) world
       \<Rightarrow> chunk_result list \<times> ('s, 'j) world" where
  "messages_stream_task J L = run_stream_task L (messages_on_span J)"

section \<open>Embeddings\<close>

text \<open>Never streamed, and logged without a finish reason.\<close>

definition embedding_spec ::
    "'j lib \<Rightarrow> 'f hash_ops \<Rightarrow> 'g gateway_router \<Rightarrow> string \<Rightarrow> string option \<Rightarrow> u8 \<Rightarrow> 'j route_spec" where
  "embedding_spec J H g mdl routing_key min_priority =
     \<lparr>sp_endpoint = ENDPOINT_EMBEDDINGS, sp_path = ''/embeddings'', sp_model = mdl,
      sp_streaming = False, sp_inject = False, sp_log_body = gr_log_request_body g,
      sp_pick = (\<lambda>now. registry_select H now mdl routing_key (Some External) (Some OpenAiApi) min_priority),
      sp_no_upstream = model_not_found J mdl,
      sp_usage = extract_usage_from_json J, sp_reason = (\<lambda>_. '''')\<rparr>"

definition route_embedding ::
    "'j lib \<Rightarrow> 'f hash_ops \<Rightarrow> 's limiter_ops \<Rightarrow> 'g f32_ops \<Rightarrow> 'g gateway_router \<Rightarrow> 'j typed_request
       \<Rightarrow> string option \<Rightarrow> headers \<Rightarrow> request_context \<Rightarrow> ('j, 'g) route_env \<Rightarrow> ('s, 'j) world
       \<Rightarrow> 'j response \<times> ('s, 'j) world" where
  "route_embedding J H L F g rbody mid hs ctx env w =
     (let mdl = or_default mid (tr_model rbody)
      in case tr_value rbody of
           Inl e \<Rightarrow> (bad_request (''Failed to serialize request: '' @ e),
                    metric (record_gateway_error mdl ENDPOINT_EMBEDDINGS ERROR_VALIDATION) w)
         | Inr payload \<Rightarrow>
             route_core J L F (gr_retry_config g)
               (embedding_spec J H g mdl (extract_routing_key J hs) (rc_min_priority ctx))
               ctx env payload w)"

section \<open>Responses\<close>

definition responses_spec ::
    "'j lib \<Rightarrow> 'g gateway_router \<Rightarrow> string \<Rightarrow> bool \<Rightarrow> string \<Rightarrow> 'j route_spec" where
  "responses_spec J g mdl streaming pid =
     \<lparr>sp_endpoint = ENDPOINT_RESPONSES, sp_path = ''/responses'', sp_model = mdl,
      sp_streaming = streaming, sp_inject = False, sp_log_body = gr_log_request_body g,
      sp_pick = (\<lambda>now. find_by_provider_id now mdl pid),
      sp_no_upstream = provider_not_found J pid,
      sp_usage = extract_responses_usage_from_json J, sp_reason = extract_responses_status_from_json J\<rparr>"

definition route_responses ::
    "'j lib \<Rightarrow> 's limiter_ops \<Rightarrow> 'g f32_ops \<Rightarrow> 'g gateway_router \<Rightarrow> 'j \<Rightarrow> headers \<Rightarrow> request_context
       \<Rightarrow> ('j, 'g) route_env \<Rightarrow> ('s, 'j) world \<Rightarrow> 'j response \<times> ('s, 'j) world" where
  "route_responses J L F g rbody hs ctx env w =
     (case opt_str J ''model'' rbody of
        None \<Rightarrow> (bad_request (''Missing required field: '' @ quoted ''model''), w)
      | Some mdl \<Rightarrow>
          (let streaming = or_default (Option.bind (j_get J ''stream'' rbody) (j_as_bool J)) False
           in case extract_provider_id J hs of
                None \<Rightarrow> (missing_provider_header J, w)
              | Some pid \<Rightarrow>
                  route_core J L F (gr_retry_config g) (responses_spec J g mdl streaming pid) ctx env rbody w))"

definition responses_stream_task ::
    "'j lib \<Rightarrow> 's limiter_ops \<Rightarrow> stream_task \<Rightarrow> stream_item list \<Rightarrow> finish_env \<Rightarrow> ('s, 'j) world
       \<Rightarrow> chunk_result list \<times> ('s, 'j) world" where
  "responses_stream_task J L = run_stream_task L (responses_on_span J)"

section \<open>Proxied operations on stored responses\<close>

record 'j proxy_env = "'j attempt_env" +
  px_total_ms :: nat

definition proxy_log ::
    "request_context \<Rightarrow> 'j proxy_env \<Rightarrow> binding \<Rightarrow> string \<Rightarrow> string \<Rightarrow> nat \<Rightarrow> token_usage \<Rightarrow> string
       \<Rightarrow> ('s, 'j) world \<Rightarrow> ('s, 'j) world" where
  "proxy_log ctx e b mdl endpoint st usage resp_body_str =
     emit_access_log (ae_ts e) (rc_request_id ctx) (rc_api_key_id ctx) mdl endpoint (base_url b)
       (provider_node_id b) (upstream_model_or b mdl) st (ae_elapsed_ms e) False 0 (Num 0)
       (prompt_tokens usage) (completion_tokens usage) (total_tokens usage) '''' '''' resp_body_str"

definition proxy_request ::
    "'j lib \<Rightarrow> 'g gateway_router \<Rightarrow> string \<Rightarrow> upstream_ref \<Rightarrow> string \<Rightarrow> string \<Rightarrow> string \<Rightarrow> string
       \<Rightarrow> request_context \<Rightarrow> 'j proxy_env \<Rightarrow> ('s, 'j) world \<Rightarrow> 'j response \<times> ('s, 'j) world" where
  "proxy_request J g verb u upstream_path query_string mdl endpoint ctx e w =
     (let b = deref (w_registry w) u;
          url = (if query_string = [] then base_url b @ upstream_path
                 else base_url b @ upstream_path @ ''?'' @ query_string);
          w1 = metric (record_gateway_request mdl endpoint ''false'') w;
          req = \<lparr>req_method = verb, req_url = url,
                 req_headers = apply_provider_headers J (api_compatibility_of b) (auth_header J b) [],
                 req_json = None\<rparr>;
          w2 = w1\<lparr>w_sent := w_sent w1 @ [req]\<rparr>
      in case ae_exchange e req of
           SendError err \<Rightarrow>
             (service_unavailable (''Failed to contact upstream: '' @ err),
              metric (record_gateway_error mdl endpoint ERROR_BACKEND)
                (breaker_failure (ae_outcome_at e) u (proxy_log ctx e b mdl endpoint 0 no_usage '''' w2)))
         | Reply raw_status content_type rbody \<Rightarrow>
             (let st = status_from_u16 raw_status;
                  w3 = metric (record_upstream_request mdl (base_url b) st) w2
              in case rbody of
                   Inl err \<Rightarrow>
                     (internal_error J (''Failed to read response: '' @ err),
                      metric (record_gateway_error mdl endpoint ERROR_BACKEND)
                        (breaker_failure (ae_outcome_at e) u (proxy_log ctx e b mdl endpoint 0 no_usage '''' w3)))
                 | Inr body_bytes \<Rightarrow>
                     (let w4 = metric (record_upstream_duration mdl (base_url b) (ae_elapsed_ms e)) w3;
                          w5 = (if is_success st then
                                  (let usage = or_default (extract_usage_from_json J body_bytes) no_usage;
                                       resp_body_str = (if gr_log_request_body g then utf8_lossy body_bytes else '''')
                                   in metric (record_gateway_duration mdl endpoint (px_total_ms e))
                                        (proxy_log ctx e b mdl endpoint st usage resp_body_str
                                          (breaker_success (ae_outcome_at e) u w4)))
                                else
                                  metric (record_gateway_error mdl endpoint ERROR_BACKEND)
                                    (breaker_failure (ae_outcome_at e) u
                                      (proxy_log ctx e b mdl endpoint st no_usage '''' w4)))
                      in (\<lparr>status = st, resp_headers = content_type_header content_type,
                           body = BodyBytes body_bytes\<rparr>, w5))))"

text \<open>The common guard: the provider header, then an available provider binding.\<close>

definition with_provider ::
    "'j lib \<Rightarrow> headers \<Rightarrow> 'j proxy_env \<Rightarrow> (upstream_ref \<Rightarrow> ('s, 'j) world \<Rightarrow> 'j response \<times> ('s, 'j) world)
       \<Rightarrow> ('s, 'j) world \<Rightarrow> 'j response \<times> ('s, 'j) world" where
  "with_provider J hs e k w =
     (case extract_provider_id J hs of
        None \<Rightarrow> (missing_provider_header J, w)
      | Some pid \<Rightarrow>
          (case find_for_responses (ae_select_at e) pid (w_registry w) of
             (None, r) \<Rightarrow> (provider_not_found J pid, w\<lparr>w_registry := r\<rparr>)
           | (Some u, r) \<Rightarrow> k u (w\<lparr>w_registry := r\<rparr>)))"

definition route_response_retrieve ::
    "'j lib \<Rightarrow> 'g gateway_router \<Rightarrow> string \<Rightarrow> headers \<Rightarrow> request_context \<Rightarrow> 'j proxy_env \<Rightarrow> ('s, 'j) world
       \<Rightarrow> 'j response \<times> ('s, 'j) world" where
  "route_response_retrieve J g response_id hs ctx e =
     with_provider J hs e (\<lambda>u. proxy_request J g ''GET'' u (''/responses/'' @ response_id) '''' ''responses''
       ENDPOINT_RESPONSES_RETRIEVE ctx e)"

definition route_response_delete ::
    "'j lib \<Rightarrow> 'g gateway_router \<Rightarrow> string \<Rightarrow> headers \<Rightarrow> request_context \<Rightarrow> 'j proxy_env \<Rightarrow> ('s, 'j) world
       \<Rightarrow> 'j response \<times> ('s, 'j) world" where
  "route_response_delete J g response_id hs ctx e =
     with_provider J hs e (\<lambda>u. proxy_request J g ''DELETE'' u (''/responses/'' @ response_id) '''' ''responses''
       ENDPOINT_RESPONSES_DELETE ctx e)"

definition route_response_input_items ::
    "'j lib \<Rightarrow> 'g gateway_router \<Rightarrow> string \<Rightarrow> string \<Rightarrow> headers \<Rightarrow> request_context \<Rightarrow> 'j proxy_env
       \<Rightarrow> ('s, 'j) world \<Rightarrow> 'j response \<times> ('s, 'j) world" where
  "route_response_input_items J g response_id query_string hs ctx e =
     with_provider J hs e (\<lambda>u. proxy_request J g ''GET'' u (''/responses/'' @ response_id @ ''/input_items'')
       query_string ''responses'' ENDPOINT_RESPONSES_INPUT_ITEMS ctx e)"

end
