(* ===== verification/Router_Spec.thy ===== *)
theory Router_Spec
  imports Router Registry_Evolution Sse_Chunking
begin

text \<open>
  What the handlers guarantee: every routed request is accounted for exactly once, requests reach
  only upstreams that serve them, a forwarded stream is charged and logged once whatever the client
  does, and the proxied Responses operations leave model routing alone.
\<close>

section \<open>Frames\<close>

lemma metric_frame [simp, frame_simps]:
  "w_registry (metric f w) = w_registry w" "w_limiter (metric f w) = w_limiter w"
  "w_sink (metric f w) = w_sink w" "w_access (metric f w) = w_access w"
  "w_sent (metric f w) = w_sent w" "w_tasks (metric f w) = w_tasks w"
  by (simp_all add: metric_def)

lemma breaker_frame [simp, frame_simps]:
  "w_limiter (breaker_success now u w) = w_limiter w" "w_limiter (breaker_failure now u w) = w_limiter w"
  "w_sink (breaker_success now u w) = w_sink w" "w_sink (breaker_failure now u w) = w_sink w"
  "w_access (breaker_success now u w) = w_access w" "w_access (breaker_failure now u w) = w_access w"
  "w_sent (breaker_success now u w) = w_sent w" "w_sent (breaker_failure now u w) = w_sent w"
  "w_tasks (breaker_success now u w) = w_tasks w" "w_tasks (breaker_failure now u w) = w_tasks w"
  by (simp_all add: breaker_success_def breaker_failure_def)

lemma charge_frame [simp, frame_simps]:
  "w_registry (charge L now rl k n w) = w_registry w" "w_sink (charge L now rl k n w) = w_sink w"
  "w_access (charge L now rl k n w) = w_access w" "w_sent (charge L now rl k n w) = w_sent w"
  "w_tasks (charge L now rl k n w) = w_tasks w"
  by (simp_all add: charge_def split: option.split)

lemma emit_frame [simp, frame_simps]:
  "w_registry (emit_access_log ts a b c d e f g st ms str tt tp p cp tot fr q r w) = w_registry w"
  "w_limiter (emit_access_log ts a b c d e f g st ms str tt tp p cp tot fr q r w) = w_limiter w"
  "w_sent (emit_access_log ts a b c d e f g st ms str tt tp p cp tot fr q r w) = w_sent w"
  "w_tasks (emit_access_log ts a b c d e f g st ms str tt tp p cp tot fr q r w) = w_tasks w"
  by (simp_all add: emit_access_log_def Let_def)

text \<open>The limiter after a charge.\<close>

definition charged ::
    "'s limiter_ops \<Rightarrow> int \<Rightarrow> rate_limit_ctx option \<Rightarrow> string \<Rightarrow> u32 \<Rightarrow> 's \<Rightarrow> 's" where
  "charged L now rl k n s = (case rl of Some r \<Rightarrow> ctx_record_tokens L now r k n s | None \<Rightarrow> s)"

lemma charge_limiter [simp]: "w_limiter (charge L now rl k n w) = charged L now rl k n (w_limiter w)"
  by (auto simp: charge_def charged_def ctx_record_tokens_def word_gt_0 split: option.split)

lemma error_statuses [simp]:
  "status (internal_error J m) = 500" "status (service_unavailable m) = 503"
  "status (model_not_found J mid) = 404" "status (provider_not_found J pid) = 400"
  "status (missing_provider_header J) = 400" "status (bad_request m) = 400"
  by (simp_all add: internal_error_def service_unavailable_def model_not_found_def
      provider_not_found_def missing_provider_header_def bad_request_def)

section \<open>One attempt\<close>

text \<open>
  What an attempt leaves in the log, the tasks and the limiter: nothing when its response is not a
  success, and otherwise either one access event and one charge, or one task.
\<close>

definition event_for :: "'j route_spec \<Rightarrow> request_context \<Rightarrow> nat \<Rightarrow> bool \<Rightarrow> token_usage \<Rightarrow> string \<Rightarrow> access_event \<Rightarrow> bool" where
  "event_for sp ctx st streaming usage reason e \<longleftrightarrow>
     rec_request_id e = rc_request_id ctx \<and> rec_api_key_id e = rc_api_key_id ctx
   \<and> rec_model e = sp_model sp \<and> rec_endpoint e = sp_endpoint sp \<and> rec_status_code e = st
   \<and> rec_streaming e = streaming \<and> rec_prompt_tokens e = prompt_tokens usage
   \<and> rec_completion_tokens e = completion_tokens usage \<and> rec_total_tokens e = total_tokens usage
   \<and> rec_finish_reason e = reason"

definition task_for :: "'j route_spec \<Rightarrow> request_context \<Rightarrow> nat \<Rightarrow> stream_task \<Rightarrow> bool" where
  "task_for sp ctx st t \<longleftrightarrow>
     task_request_id t = rc_request_id ctx \<and> task_api_key_id t = rc_api_key_id ctx
   \<and> task_model t = sp_model sp \<and> task_endpoint t = sp_endpoint sp \<and> task_status t = st \<and> task_success t"

definition quiet :: "('s, 'j) world \<Rightarrow> ('s, 'j) world \<Rightarrow> bool" where
  "quiet w w' \<longleftrightarrow> w_access w' = w_access w \<and> w_tasks w' = w_tasks w \<and> w_limiter w' = w_limiter w
     \<and> w_sink w' = w_sink w"

definition answered ::
    "'s limiter_ops \<Rightarrow> 'j route_spec \<Rightarrow> request_context \<Rightarrow> 'j response \<Rightarrow> ('s, 'j) world \<Rightarrow> ('s, 'j) world \<Rightarrow> bool" where
  "answered L sp ctx resp w w' \<longleftrightarrow>
     (\<exists>bytes usage e now b. body resp = BodyBytes bytes
        \<and> usage = or_default (sp_usage sp bytes) no_usage
        \<and> event_for sp ctx (status resp) False usage (sp_reason sp bytes) e
        \<and> w_access w' = w_access w @ [e] \<and> w_tasks w' = w_tasks w
        \<and> w_limiter w' = charged L now (attempt_rate_limit b (rc_rate_limit ctx)) (rc_api_key_id ctx)
                           (total_tokens usage) (w_limiter w))
   \<or> (\<exists>t. sp_streaming sp \<and> body resp = BodyStream \<and> task_for sp ctx (status resp) t
        \<and> w_tasks w' = w_tasks w @ [t] \<and> w_access w' = w_access w \<and> w_limiter w' = w_limiter w)"

lemma quiet_trans: "quiet w w' \<Longrightarrow> quiet w' w'' \<Longrightarrow> quiet w w''"
  by (simp add: quiet_def)

lemma quiet_metric [simp]: "quiet w (metric f w') = quiet w w'" "quiet (metric f w) w' = quiet w w'"
  by (simp_all add: quiet_def)

lemma answered_quiet: "quiet w w1 \<Longrightarrow> answered L sp ctx resp w1 w2 \<Longrightarrow> answered L sp ctx resp w w2"
  by (simp add: quiet_def answered_def)

lemma answer_body_effect:
  assumes "answer_body J L sp ctx e u b q (attempt_rate_limit b (rc_rate_limit ctx)) st ct rbody w = (resp, w')"
  shows "(if is_success (status resp) then answered L sp ctx resp w w' else quiet w w')"
proof (cases rbody)
  case (Inl err)
  with assms show ?thesis by (auto simp: answer_body_def quiet_def is_success_def)
next
  case (Inr bytes)
  let ?usage = "or_default (sp_usage sp bytes) no_usage"
  show ?thesis
  proof (cases "is_success st")
    case True
    define ev where "ev = last (w_access w')"
    from assms Inr True have r: "status resp = st" "body resp = BodyBytes bytes"
      by (auto simp: answer_body_def Let_def)
    from assms Inr True have "w_access w' = w_access w @ [ev] \<and> w_tasks w' = w_tasks w
        \<and> event_for sp ctx st False ?usage (sp_reason sp bytes) ev
        \<and> w_limiter w' = charged L (ae_limiter_now e) (attempt_rate_limit b (rc_rate_limit ctx))
             (rc_api_key_id ctx) (total_tokens ?usage) (w_limiter w)"
      unfolding ev_def
      by (auto simp: answer_body_def Let_def emit_access_log_def event_for_def or_default_def)
    with True r show ?thesis unfolding answered_def by auto
  next
    case False
    with assms Inr show ?thesis by (auto simp: answer_body_def Let_def quiet_def)
  qed
qed

lemma answer_stream_effect:
  assumes "answer_stream sp ctx e u b q rl st w = (resp, w')" "is_success st" "sp_streaming sp"
  shows "is_success (status resp) \<and> answered L sp ctx resp w w'"
proof -
  define t where "t = last (w_tasks w')"
  from assms(1) have "status resp = st" "body resp = BodyStream" "w_tasks w' = w_tasks w @ [t]"
    "w_access w' = w_access w" "w_limiter w' = w_limiter w"
    by (auto simp: answer_stream_def Let_def t_def)
  moreover from assms(1,2) have "task_for sp ctx st t"
    by (auto simp: answer_stream_def Let_def t_def task_for_def)
  ultimately show ?thesis using assms(2,3) unfolding answered_def by auto
qed

lemma quiet_sent [simp]: "quiet (w\<lparr>w_sent := q\<rparr>) w' = quiet w w'" "quiet (w\<lparr>w_registry := r\<rparr>) w' = quiet w w'"
  by (simp_all add: quiet_def)

lemma answered_start [simp]:
  "answered L sp ctx resp w (metric f w') = answered L sp ctx resp w w'"
  "answered L sp ctx resp (metric f w) w' = answered L sp ctx resp w w'"
  "answered L sp ctx resp (w\<lparr>w_sent := q\<rparr>) w' = answered L sp ctx resp w w'"
  "answered L sp ctx resp (w\<lparr>w_registry := r\<rparr>) w' = answered L sp ctx resp w w'"
  by (simp_all add: answered_def)

lemma send_attempt_effect:
  assumes "send_attempt J L sp ctx e payload u w = (resp, w')"
  shows "(if is_success (status resp) then answered L sp ctx resp w w' else quiet w w')"
proof -
  let ?b = "deref (w_registry w) u"
  let ?p = "attempt_payload J sp ?b payload"
  let ?req = "attempt_request J sp ?b ?p"
  show ?thesis
  proof (cases "ae_exchange e ?req")
    case (SendError err)
    with assms show ?thesis by (auto simp: send_attempt_def Let_def quiet_def is_success_def)
  next
    case (Reply raw ct rbody)
    show ?thesis
    proof (cases "\<not> sp_streaming sp \<or> \<not> is_success (status_from_u16 raw)")
      case True
      with assms Reply answer_body_effect show ?thesis by (fastforce simp: send_attempt_def Let_def)
    next
      case False
      with assms Reply answer_stream_effect [of sp ctx e u ?b] show ?thesis
        by (fastforce simp: send_attempt_def Let_def)
    qed
  qed
qed

lemma attempt_once_effect:
  assumes "attempt_once J L sp ctx e payload (w, lu) = (resp, w', lu')" "\<not> is_success (status (sp_no_upstream sp))"
  shows "(if is_success (status resp) then answered L sp ctx resp w w' else quiet w w')"
proof -
  obtain pk r where pk: "sp_pick sp (ae_select_at e) (w_registry w) = (pk, r)" by force
  show ?thesis
  proof (cases pk)
    case None
    with assms pk show ?thesis by (auto simp: attempt_once_def quiet_def)
  next
    case (Some u)
    with assms pk send_attempt_effect [of J L sp ctx e payload u "w\<lparr>w_registry := r\<rparr>"] show ?thesis
      by (auto simp: attempt_once_def Let_def split: prod.splits)
  qed
qed

lemma retryable_not_success: "is_retryable_status st \<Longrightarrow> \<not> is_success st"
  by (auto simp: is_retryable_status_def is_success_def)

section \<open>The whole request\<close>

text \<open>The callbacks of \<open>route_core\<close>, named.\<close>

abbreviation core_op where
  "core_op J L sp ctx env payload \<equiv> \<lambda>a. attempt_once J L sp ctx (re_attempt env a) payload"

abbreviation core_backoff :: "'j route_spec \<Rightarrow> nat \<Rightarrow> nat \<Rightarrow> nat \<Rightarrow> ('s, 'j) world \<times> last_upstream \<Rightarrow> ('s, 'j) world \<times> last_upstream" where
  "core_backoff sp \<equiv> \<lambda>_ _ status_code (w, l).
     (metric (record_retry_attempt (sp_model sp) (sp_endpoint sp) status_code) w, l)"

text \<open>An invariant of the retried attempts.\<close>

lemma retried_invariant:
  assumes "retried d op st sr bo a s b s'" "P a s"
    and "\<And>a s r s1. P a s \<Longrightarrow> op a s = (r, s1) \<Longrightarrow> sr r a \<Longrightarrow> P (Suc a) (bo (d a) (Suc a) (st r) s1)"
  shows "P b s'"
  using assms by (induction rule: retried.induct) auto

lemma route_core_cases:
  assumes "route_core J L F retry sp ctx env payload w = (resp, w')"
  obtains w0 b w1 lu1 w2 lu2 w3 where
    "w0 = metric (record_gateway_request (sp_model sp) (sp_endpoint sp) (bool_to_static_str (sp_streaming sp))) w"
    "b < unat (max (max_retries retry) 1)"
    "retried (calculate_delay F (re_draw env) retry) (core_op J L sp ctx env payload) status
       (\<lambda>res _. is_retryable_status (status res)) (core_backoff sp) 0 (w0, '''', '''', '''') b (w1, lu1)"
    "attempt_once J L sp ctx (re_attempt env b) payload (w1, lu1) = (resp, w2, lu2)"
    "w3 = w2 \<or> (\<exists>f. w3 = metric f w2)"
    "w' = finish_route sp ctx (re_ts env) (re_total_ms env) resp (w3, lu2)"
proof -
  define w0 where "w0 = metric (record_gateway_request (sp_model sp) (sp_endpoint sp)
      (bool_to_static_str (sp_streaming sp))) w"
  let ?ex = "\<lambda>(w, l). (metric (record_retry_exhausted (sp_model sp) (sp_endpoint sp)) w, l)"
  let ?run = "execute_response_with_retry F (re_draw env) retry (core_op J L sp ctx env payload) status
       (\<lambda>res _. is_retryable_status (status res)) (core_backoff sp) ?ex (w0, '''', '''', '''')"
  have pos: "0 < unat (max (max_retries retry) 1)"
    by (auto simp: unat_gt_0 max_def)
  from retry_loop_run [OF pos, of "calculate_delay F (re_draw env) retry" "core_op J L sp ctx env payload"
      status "\<lambda>res _. is_retryable_status (status res)" "core_backoff sp" "(w0, '''', '''', '''')" ?ex]
  obtain b s1 r s2 where run: "b < unat (max (max_retries retry) 1)"
    "retried (calculate_delay F (re_draw env) retry) (core_op J L sp ctx env payload) status
       (\<lambda>res _. is_retryable_status (status res)) (core_backoff sp) 0 (w0, '''', '''', '''') b s1"
    "core_op J L sp ctx env payload b s1 = (r, s2)"
    "?run = (r, s2) \<or> ?run = (r, ?ex s2)"
    unfolding execute_response_with_retry_def by meson
  obtain w1 lu1 w2 lu2 where s: "s1 = (w1, lu1)" "s2 = (w2, lu2)" by (metis prod.collapse)
  from assms run(4) have "resp = r"
    "w' = finish_route sp ctx (re_ts env) (re_total_ms env) resp (w2, lu2)
     \<or> w' = finish_route sp ctx (re_ts env) (re_total_ms env) resp
              (metric (record_retry_exhausted (sp_model sp) (sp_endpoint sp)) w2, lu2)"
    unfolding route_core_def Let_def w0_def [symmetric] by (auto simp: s)
  with that [OF w0_def run(1) run(2) [unfolded s]] run(3) show ?thesis by (auto simp: s)
qed

definition accounted ::
    "'s limiter_ops \<Rightarrow> 'j route_spec \<Rightarrow> request_context \<Rightarrow> 'j response \<Rightarrow> ('s, 'j) world \<Rightarrow> ('s, 'j) world \<Rightarrow> bool" where
  "accounted L sp ctx resp w w' \<longleftrightarrow>
     (if is_success (status resp) then answered L sp ctx resp w w'
      else (\<exists>e. event_for sp ctx (status resp) (sp_streaming sp) no_usage [] e
              \<and> w_access w' = w_access w @ [e] \<and> w_tasks w' = w_tasks w \<and> w_limiter w' = w_limiter w))"

lemma finish_route_success:
  "is_success (status resp) \<Longrightarrow> answered L sp ctx resp w w2 \<Longrightarrow>
     accounted L sp ctx resp w (finish_route sp ctx ts ms resp (w2, lu))"
  by (cases lu) (simp add: finish_route_def accounted_def answered_def)

lemma finish_route_failure:
  assumes "\<not> is_success (status resp)" "quiet w w2"
  shows "accounted L sp ctx resp w (finish_route sp ctx ts ms resp (w2, lu))"
proof -
  define w' where "w' = finish_route sp ctx ts ms resp (w2, lu)"
  define ev where "ev = last (w_access w')"
  obtain p n m where lu: "lu = (p, n, m)" by (metis prod.collapse)
  have "w_access w' = w_access w2 @ [ev] \<and> w_tasks w' = w_tasks w2 \<and> w_limiter w' = w_limiter w2
      \<and> event_for sp ctx (status resp) (sp_streaming sp) no_usage [] ev"
    unfolding ev_def w'_def lu
    using assms(1) by (simp add: finish_route_def emit_access_log_def event_for_def no_usage_def Let_def)
  then show ?thesis using assms unfolding w'_def [symmetric] accounted_def by (auto simp: quiet_def)
qed

lemma route_core_accounted:
  assumes "route_core J L F retry sp ctx env payload w = (resp, w')"
    and "\<not> is_success (status (sp_no_upstream sp))"
  shows "accounted L sp ctx resp w w'"
  using assms(1)
proof (cases rule: route_core_cases)
  case (1 w0 b w1 lu1 w2 lu2 w3)
  have "quiet w w0" by (simp add: 1(1) quiet_def)
  with 1(3) have q: "quiet w (fst (w1, lu1))"
  proof (elim retried_invariant)
    fix a s r s1
    assume p: "quiet w (fst s)" and op: "core_op J L sp ctx env payload a s = (r, s1)"
      and retry: "is_retryable_status (status r)"
    obtain v l v1 l1 where s: "s = (v, l)" "s1 = (v1, l1)" by (metis prod.collapse)
    from attempt_once_effect [OF op [unfolded s] assms(2)] retryable_not_success [OF retry]
    have "quiet v v1" by simp
    with p show "quiet w (fst (core_backoff sp (calculate_delay F (re_draw env) retry a) (Suc a) (status r) s1))"
      by (simp add: s quiet_trans)
  qed simp
  from attempt_once_effect [OF 1(4) assms(2)]
  have "(if is_success (status resp) then answered L sp ctx resp w1 w3 else quiet w1 w3)"
    using 1(5) by auto
  with q show ?thesis unfolding 1(6)
    by (cases "is_success (status resp)")
      (auto intro: finish_route_success finish_route_failure answered_quiet quiet_trans)
qed

section \<open>Which upstreams get requests\<close>

lemma breaker_outcome_registry:
  "w_registry (breaker_success now u w) = update_upstream u
     (\<lambda>b. b\<lparr>circuit_breaker := breaker_exec now Record_Success (circuit_breaker b)\<rparr>) (w_registry w)"
  "w_registry (breaker_failure now u w) = update_upstream u
     (\<lambda>b. b\<lparr>circuit_breaker := breaker_exec now Record_Failure (circuit_breaker b)\<rparr>) (w_registry w)"
  by (simp_all add: breaker_success_def breaker_failure_def)

text \<open>An attempt touches the registry through the breaker of its own upstream only.\<close>

definition outcome_of :: "upstream_ref \<Rightarrow> registry \<Rightarrow> registry \<Rightarrow> bool" where
  "outcome_of u r r' \<longleftrightarrow>
     r' = r \<or> (\<exists>now c. r' = update_upstream u
       (\<lambda>b. b\<lparr>circuit_breaker := breaker_exec now c (circuit_breaker b)\<rparr>) r)"

lemma outcome_of_intros [intro, simp]:
  "outcome_of u r r"
  "outcome_of u (w_registry w) (w_registry (breaker_success now u w))"
  "outcome_of u (w_registry w) (w_registry (breaker_failure now u w))"
  unfolding outcome_of_def breaker_outcome_registry by blast+

lemma outcome_of_inv: "outcome_of u r r' \<Longrightarrow> registry_inv r \<Longrightarrow> registry_inv r'"
  by (auto simp: outcome_of_def intro: registry_inv_update_upstream)

lemma outcome_of_evolves: "outcome_of (GroupUpstream gi i) r r' \<Longrightarrow> evolves r r'"
  by (auto simp: outcome_of_def intro: evolves_outcome)

definition request_to :: "'j lib \<Rightarrow> 'j route_spec \<Rightarrow> 'j \<Rightarrow> binding \<Rightarrow> 'j http_request" where
  "request_to J sp payload b = attempt_request J sp b (attempt_payload J sp b payload)"

lemma request_to_node: "node b = node b' \<Longrightarrow> request_to J sp payload b = request_to J sp payload b'"
  by (simp add: request_to_def attempt_request_def attempt_payload_def auth_header_def)

lemma outcome_of_metric_eq:
  "w_registry v = w_registry w \<Longrightarrow> outcome_of u (w_registry w) (w_registry (breaker_success now u v))"
  "w_registry v = w_registry w \<Longrightarrow> outcome_of u (w_registry w) (w_registry (breaker_failure now u v))"
  by (metis outcome_of_intros(2), metis outcome_of_intros(3))

lemma answer_body_registry:
  assumes "answer_body J L sp ctx e u b q rl st ct rbody w = (resp, w')"
  shows "w_sent w' = w_sent w \<and> outcome_of u (w_registry w) (w_registry w')"
  using assms unfolding answer_body_def
  by (auto simp: Let_def outcome_of_metric_eq split: sum.splits if_splits)

lemma send_attempt_registry:
  assumes "send_attempt J L sp ctx e payload u w = (resp, w')"
  shows "w_sent w' = w_sent w @ [request_to J sp payload (deref (w_registry w) u)]
       \<and> outcome_of u (w_registry w) (w_registry w')"
proof -
  let ?req = "request_to J sp payload (deref (w_registry w) u)"
  show ?thesis
  proof (cases "ae_exchange e ?req")
    case (SendError err)
    with assms show ?thesis
      by (auto simp: send_attempt_def Let_def request_to_def outcome_of_metric_eq)
  next
    case (Reply raw ct rbody)
    show ?thesis
    proof (cases "\<not> sp_streaming sp \<or> \<not> is_success (status_from_u16 raw)")
      case True
      with assms Reply answer_body_registry show ?thesis
        by (fastforce simp: send_attempt_def Let_def request_to_def)
    next
      case False
      with assms Reply show ?thesis
        by (auto simp: send_attempt_def Let_def request_to_def answer_stream_def)
    qed
  qed
qed

context upstream_picker
begin

text \<open>Requests sent so far, from registry \<open>r0\<close> on.\<close>

definition sent_ok where
  "sent_ok J sp payload n w0 w \<longleftrightarrow>
     registry_inv (w_registry w) \<and> evolves (w_registry w0) (w_registry w)
   \<and> (\<exists>us. length us \<le> n \<and> (\<forall>u \<in> set us. good (w_registry w0) u)
        \<and> w_sent w = w_sent w0 @ map (\<lambda>u. request_to J sp payload (deref (w_registry w0) u)) us)"

lemma sent_ok_metric [simp]:
  "sent_ok J sp payload n w0 (metric f w) = sent_ok J sp payload n w0 w"
  "sent_ok J sp payload n (metric f w0) w = sent_ok J sp payload n w0 w"
  by (simp_all add: sent_ok_def)

lemma attempt_sent:
  assumes "attempt_once J L sp ctx e payload (w, lu) = (resp, w', lu')" "sp_pick sp = pick"
    and "sent_ok J sp payload n w0 w"
  shows "sent_ok J sp payload (Suc n) w0 w'"
proof -
  from assms(3) obtain us where inv: "registry_inv (w_registry w)" "evolves (w_registry w0) (w_registry w)"
    and us: "length us \<le> n" "\<forall>u \<in> set us. good (w_registry w0) u"
      "w_sent w = w_sent w0 @ map (\<lambda>u. request_to J sp payload (deref (w_registry w0) u)) us"
    unfolding sent_ok_def by blast
  obtain pk r where pk: "pick (ae_select_at e) (w_registry w) = (pk, r)" by force
  show ?thesis
  proof (cases pk)
    case None
    with assms(1,2) pk have "w_sent w' = w_sent w" "w_registry w' = r" by (auto simp: attempt_once_def)
    moreover have "evolves (w_registry w) r" "registry_inv r"
      using pick_evolves [OF inv(1), of "ae_select_at e"] pk by simp_all
    ultimately show ?thesis using us evolves_trans [OF inv(2)] unfolding sent_ok_def
      by (metis le_SucI)
  next
    case (Some u)
    from pick_step [OF inv(2,1) pk [unfolded Some]]
    have st: "evolves (w_registry w0) r" "registry_inv r" "good (w_registry w0) u"
      "node (deref r u) = node (deref (w_registry w0) u)" by simp_all
    from assms(1,2) pk Some have "send_attempt J L sp ctx e payload u (w\<lparr>w_registry := r\<rparr>) = (resp, w')"
      by (auto simp: attempt_once_def Let_def split: prod.splits)
    from send_attempt_registry [OF this]
    have s: "w_sent w' = w_sent w @ [request_to J sp payload (deref r u)]" "outcome_of u r (w_registry w')"
      by simp_all
    obtain gi i where "u = GroupUpstream gi i" using good_group [OF st(3)] by blast
    with s(2) have "evolves r (w_registry w')" by (simp add: outcome_of_evolves)
    then have "evolves (w_registry w0) (w_registry w')" "registry_inv (w_registry w')"
      using evolves_trans [OF st(1)] outcome_of_inv [OF s(2) st(2)] by simp_all
    moreover have "w_sent w' = w_sent w0 @ map (\<lambda>u. request_to J sp payload (deref (w_registry w0) u)) (us @ [u])"
      using s(1) us(3) request_to_node [OF st(4)] by simp
    ultimately show ?thesis using us(1,2) st(3) unfolding sent_ok_def
      by (intro conjI exI [of _ "us @ [u]"]) simp_all
  qed
qed

lemma route_core_sent:
  assumes "route_core J L F retry sp ctx env payload w = (resp, w')" "sp_pick sp = pick"
    and "registry_inv (w_registry w)"
  shows "sent_ok J sp payload (unat (max (max_retries retry) 1)) w w'"
  using assms(1)
proof (cases rule: route_core_cases)
  case (1 w0 b w1 lu1 w2 lu2 w3)
  have "sent_ok J sp payload 0 w w0" using assms(3) by (simp add: 1(1)) (simp add: sent_ok_def)
  with 1(3) have q: "sent_ok J sp payload b w (fst (w1, lu1))"
  proof (elim retried_invariant)
    fix a s r s1
    assume p: "sent_ok J sp payload a w (fst s)" and op: "core_op J L sp ctx env payload a s = (r, s1)"
    obtain v l v1 l1 where s: "s = (v, l)" "s1 = (v1, l1)" by (metis prod.collapse)
    from attempt_sent [OF op [unfolded s] assms(2)] p
    show "sent_ok J sp payload (Suc a) w
        (fst (core_backoff sp (calculate_delay F (re_draw env) retry a) (Suc a) (status r) s1))"
      by (simp add: s)
  qed simp
  from attempt_sent [OF 1(4) assms(2)] q have "sent_ok J sp payload (Suc b) w w2" by simp
  then have "sent_ok J sp payload (Suc b) w w3" using 1(5) by auto
  then have "sent_ok J sp payload (Suc b) w w'" unfolding 1(6)
    by (cases lu2) (simp add: finish_route_def sent_ok_def)
  then show ?thesis using 1(2) unfolding sent_ok_def by (meson Suc_leI le_trans)
qed

lemma route_core_providers:
  assumes "sp_pick sp = pick" "registry_inv (w_registry w)"
  shows "provider_store (w_registry (snd (route_core J L F retry sp ctx env payload w))) = provider_store (w_registry w)"
  using route_core_sent [OF prod.collapse [symmetric] assms,
      where J = J and L = L and F = F and retry = retry and ctx = ctx and env = env and payload = payload]
  by (simp add: sent_ok_def evolves_def)

end

section \<open>The first attempt\<close>

lemma attempt_once_sent:
  assumes "attempt_once J L sp ctx e payload (w, lu) = (resp, w', lu')"
    and "sp_pick sp (ae_select_at e) (w_registry w) = (pk, r)"
  shows "w_sent w' = w_sent w @ (case pk of Some u \<Rightarrow> [request_to J sp payload (deref r u)] | None \<Rightarrow> [])
       \<and> (pk = None \<longrightarrow> resp = sp_no_upstream sp \<and> w_registry w' = r)"
proof (cases pk)
  case (Some u)
  with assms have "send_attempt J L sp ctx e payload u (w\<lparr>w_registry := r\<rparr>) = (resp, w')"
    by (auto simp: attempt_once_def Let_def split: prod.splits)
  from send_attempt_registry [OF this] Some show ?thesis by simp
qed (use assms in \<open>auto simp: attempt_once_def\<close>)

lemma attempt_once_appends:
  assumes "attempt_once J L sp ctx e payload (w, lu) = (resp, w', lu')"
  shows "\<exists>rest. w_sent w' = w_sent w @ rest"
  using attempt_once_sent [OF assms prod.collapse [symmetric]] by blast

lemma finish_route_frame [simp]:
  "w_sent (finish_route sp ctx ts ms resp (w, lu)) = w_sent w"
  "w_registry (finish_route sp ctx ts ms resp (w, lu)) = w_registry w"
  by (cases lu, simp add: finish_route_def)+

text \<open>An invariant of the state before attempt \<open>a\<close>, lifted over the retries of a request.\<close>

lemma route_core_invariant:
  assumes "route_core J L F retry sp ctx env payload w = (resp, w')"
    and "\<And>f. P 0 (metric f w)"
    and "\<And>a v l q v' l' f. P a v \<Longrightarrow> attempt_once J L sp ctx (re_attempt env a) payload (v, l) = (q, v', l')
           \<Longrightarrow> P (Suc a) (metric f v')"
  obtains b w1 lu1 w2 lu2 where "P b w1"
    "attempt_once J L sp ctx (re_attempt env b) payload (w1, lu1) = (resp, w2, lu2)"
    "w_sent w' = w_sent w2" "w_registry w' = w_registry w2"
  using assms(1)
proof (cases rule: route_core_cases)
  case (1 w0 b w1 lu1 w2 lu2 w3)
  from 1(3) have "P b (fst (w1, lu1))"
  proof (elim retried_invariant)
    fix a s q s1
    assume p: "P a (fst s)" and op: "core_op J L sp ctx env payload a s = (q, s1)"
    obtain v l v1 l1 where s: "s = (v, l)" "s1 = (v1, l1)" by (metis prod.collapse)
    from p assms(3) [OF _ op [unfolded s]]
    show "P (Suc a) (fst (core_backoff sp (calculate_delay F (re_draw env) retry a) (Suc a) (status q) s1))"
      by (simp add: s)
  qed (simp add: 1(1) assms(2))
  moreover have "w_sent w' = w_sent w2" "w_registry w' = w_registry w2"
    using 1(5) unfolding 1(6) by auto
  ultimately show ?thesis using that 1(4) by simp
qed

text \<open>When the first attempt finds an upstream, its request is the first one sent.\<close>

lemma route_core_first:
  assumes "route_core J L F retry sp ctx env payload w = (resp, w')"
    and "sp_pick sp (ae_select_at (re_attempt env 0)) (w_registry w) = (Some u, r)"
  shows "\<exists>rest. w_sent w' = w_sent w @ request_to J sp payload (deref r u) # rest"
proof -
  let ?start = "\<lambda>v. \<exists>rest. w_sent v = w_sent w @ request_to J sp payload (deref r u) # rest"
  let ?P = "\<lambda>(a::nat) v. if a = 0 then w_sent v = w_sent w \<and> w_registry v = w_registry w else ?start v"
  have step: "?start v'"
    if "?P a v" "attempt_once J L sp ctx (re_attempt env a) payload (v, l) = (q, v', l')" for a v l q v' l'
  proof (cases "a = 0")
    case True
    with that(1) assms(2) have "sp_pick sp (ae_select_at (re_attempt env a)) (w_registry v) = (Some u, r)" by simp
    from attempt_once_sent [OF that(2) this] that(1) True show ?thesis by simp
  next
    case False
    with that(1) attempt_once_appends [OF that(2)] show ?thesis by auto
  qed
  show ?thesis
  proof (rule route_core_invariant [OF assms(1), of ?P])
    show "?P (Suc a) (metric f v')" if "?P a v"
      "attempt_once J L sp ctx (re_attempt env a) payload (v, l) = (q, v', l')" for a v l q v' l' f
      using step [OF that] by simp
  qed (auto dest: step)
qed

text \<open>When no attempt ever finds an upstream and looking changes nothing, nothing is sent.\<close>

lemma route_core_nowhere:
  assumes "route_core J L F retry sp ctx env payload w = (resp, w')"
    and "\<And>now. sp_pick sp now (w_registry w) = (None, w_registry w)"
  shows "resp = sp_no_upstream sp \<and> w_sent w' = w_sent w \<and> w_registry w' = w_registry w"
proof -
  let ?P = "\<lambda>(a::nat) v. w_sent v = w_sent w \<and> w_registry v = w_registry w"
  have step: "q = sp_no_upstream sp \<and> ?P a v'"
    if "?P a v" "attempt_once J L sp ctx (re_attempt env a) payload (v, l) = (q, v', l')" for a v l q v' l'
    using attempt_once_sent [OF that(2), of None "w_registry w"] that(1) assms(2) by simp
  show ?thesis
  proof (rule route_core_invariant [OF assms(1), of ?P])
    show "?P (Suc a) (metric f v')" if "?P a v"
      "attempt_once J L sp ctx (re_attempt env a) payload (v, l) = (q, v', l')" for a v l q v' l' f
      using step [OF that] by simp
  next
    fix b w1 lu1 w2 lu2
    assume "?P b w1" "core_op J L sp ctx env payload b (w1, lu1) = (resp, w2, lu2)"
      "w_sent w' = w_sent w2" "w_registry w' = w_registry w2"
    with step [OF this(1,2)] show ?thesis by simp
  qed simp
qed

section \<open>Proxied operations\<close>

text \<open>
  What a proxied operation leaves alone; and that it sends nothing, or one request to the base URL of
  the binding indexed under the named provider.
\<close>

definition proxied :: "'j lib \<Rightarrow> headers \<Rightarrow> nat \<Rightarrow> string \<Rightarrow> ('s, 'j) world \<Rightarrow> ('s, 'j) world \<Rightarrow> bool" where
  "proxied J hs now verb w w' \<longleftrightarrow>
     group_store (w_registry w') = group_store (w_registry w)
   \<and> reg_groups (w_registry w') = reg_groups (w_registry w)
   \<and> reg_providers (w_registry w') = reg_providers (w_registry w)
   \<and> w_limiter w' = w_limiter w \<and> w_tasks w' = w_tasks w
   \<and> (w_sent w' = w_sent w \<and> w_access w' = w_access w
      \<or> (\<exists>pid pi req e suffix. extract_provider_id J hs = Some pid \<and> reg_providers (w_registry w) pid = Some pi
           \<and> fst (is_available now (provider_store (w_registry w) ! pi))
           \<and> w_sent w' = w_sent w @ [req] \<and> req_method req = verb
           \<and> req_url req = base_url (provider_store (w_registry w) ! pi) @ suffix
           \<and> w_access w' = w_access w @ [e]))"

lemma update_provider_frame [simp]:
  "group_store (update_upstream (ProviderUpstream pi) f r) = group_store r"
  "reg_groups (update_upstream (ProviderUpstream pi) f r) = reg_groups r"
  "reg_providers (update_upstream (ProviderUpstream pi) f r) = reg_providers r"
  by (simp_all add: update_upstream_def)

lemma proxy_log_access:
  "w_access v = w_access w \<Longrightarrow> \<exists>ev. w_access (proxy_log ctx e b mdl ep st usage s v) = w_access w @ [ev]"
  by (simp add: proxy_log_def emit_access_log_def Let_def)

lemma proxy_log_frame [simp]:
  "w_registry (proxy_log ctx e b mdl ep st usage s w) = w_registry w"
  "w_limiter (proxy_log ctx e b mdl ep st usage s w) = w_limiter w"
  "w_sent (proxy_log ctx e b mdl ep st usage s w) = w_sent w"
  "w_tasks (proxy_log ctx e b mdl ep st usage s w) = w_tasks w"
  by (simp_all add: proxy_log_def)

text \<open>The request a proxied operation sends.\<close>

definition proxy_http_request :: "'j lib \<Rightarrow> string \<Rightarrow> binding \<Rightarrow> string \<Rightarrow> string \<Rightarrow> 'j http_request" where
  "proxy_http_request J verb b upstream_path query_string =
     \<lparr>req_method = verb,
      req_url = base_url b @ (if query_string = [] then upstream_path else upstream_path @ ''?'' @ query_string),
      req_headers = apply_provider_headers J (api_compatibility_of b) (auth_header J b) [], req_json = None\<rparr>"

lemma proxy_request_effect:
  assumes "proxy_request J g verb u upstream_path qs mdl ep ctx e w = (resp, w')"
  shows "outcome_of u (w_registry w) (w_registry w') \<and> w_limiter w' = w_limiter w \<and> w_tasks w' = w_tasks w
       \<and> w_sent w' = w_sent w @ [proxy_http_request J verb (deref (w_registry w) u) upstream_path qs]
       \<and> (\<exists>ev. w_access w' = w_access w @ [ev])"
proof -
  let ?b = "deref (w_registry w) u"
  let ?req = "proxy_http_request J verb ?b upstream_path qs"
  let ?w2 = "metric (record_gateway_request mdl ep ''false'') w\<lparr>w_sent := w_sent w @ [?req]\<rparr>"
  have req: "\<lparr>req_method = verb, req_url = if qs = [] then base_url ?b @ upstream_path
         else base_url ?b @ upstream_path @ ''?'' @ qs,
      req_headers = apply_provider_headers J (api_compatibility_of ?b) (auth_header J ?b) [], req_json = None\<rparr> = ?req"
    by (simp add: proxy_http_request_def)
  note def = proxy_request_def [of J g verb u upstream_path qs mdl ep ctx e w, unfolded Let_def req]
  show ?thesis
  proof (cases "ae_exchange e ?req")
    case (SendError err)
    with assms show ?thesis
      by (auto simp: def outcome_of_metric_eq intro!: proxy_log_access)
  next
    case (Reply raw ct rbody)
    show ?thesis
    proof (cases rbody)
      case (Inl err)
      with assms Reply show ?thesis by (auto simp: def outcome_of_metric_eq intro!: proxy_log_access)
    next
      case (Inr bytes)
      show ?thesis
        using assms Reply Inr
        by (cases "is_success (status_from_u16 raw)") (auto simp: def outcome_of_metric_eq intro!: proxy_log_access)
    qed
  qed
qed

lemma with_provider_effect:
  assumes "with_provider J hs e (\<lambda>u. proxy_request J g verb u path qs mdl ep ctx e) w = (resp, w')"
  shows "proxied J hs (ae_select_at e) verb w w'"
proof (cases "extract_provider_id J hs")
  case None
  with assms show ?thesis by (simp add: with_provider_def proxied_def)
next
  case (Some pid)
  obtain pk r where f: "find_for_responses (ae_select_at e) pid (w_registry w) = (pk, r)" by force
  have frame: "group_store r = group_store (w_registry w)" "reg_groups r = reg_groups (w_registry w)"
    "reg_providers r = reg_providers (w_registry w)"
    using f by (auto simp: find_for_responses_def split: option.splits prod.splits)
  show ?thesis
  proof (cases pk)
    case None
    with assms Some f frame show ?thesis by (auto simp: with_provider_def proxied_def)
  next
    case (Some u)
    then obtain pi b' where pi: "reg_providers (w_registry w) pid = Some pi" "u = ProviderUpstream pi"
      "is_available (ae_select_at e) (provider_store (w_registry w) ! pi) = (True, b')"
      "r = w_registry w\<lparr>provider_store := (provider_store (w_registry w))[pi := b']\<rparr>"
      using f by (auto simp: find_for_responses_def split: option.splits prod.splits if_splits)
    from is_available_frame(1) [of "ae_select_at e" "provider_store (w_registry w) ! pi"]
    have "node b' = node (provider_store (w_registry w) ! pi)" using pi(3) by simp
    then have url: "base_url (deref r u) = base_url (provider_store (w_registry w) ! pi)"
      using pi(2,4) by (cases "pi < length (provider_store (w_registry w))") (simp_all add: deref_def list_update_beyond)
    from assms Some f \<open>extract_provider_id J hs = Some pid\<close>
    have "proxy_request J g verb u path qs mdl ep ctx e (w\<lparr>w_registry := r\<rparr>) = (resp, w')"
      by (simp add: with_provider_def)
    note eff = proxy_request_effect [OF this]
    have o: "outcome_of (ProviderUpstream pi) r (w_registry w')" using eff pi(2) by simp
    then have "group_store (w_registry w') = group_store r" "reg_groups (w_registry w') = reg_groups r"
      "reg_providers (w_registry w') = reg_providers r" by (auto simp: outcome_of_def)
    with eff frame pi(1,3) url \<open>extract_provider_id J hs = Some pid\<close> show ?thesis
      unfolding proxied_def by (auto simp: proxy_http_request_def)
  qed
qed

end
