(* ===== verification/Router_Properties.thy ===== *)
theory Router_Properties
  imports Router_Spec Rate_Limit_Memory Routing_Fairness
begin

text \<open>
  The properties of the handlers: accounting of requests and streams, where requests go, that an
  available upstream is tried, what happens to an unknown model, and the isolation of the proxied
  Responses operations.
\<close>

section \<open>The forwarding task\<close>

text \<open>The items the loop takes: up to the first error or the first chunk the client refuses.\<close>

fun consumed :: "stream_item list \<Rightarrow> stream_item list" where
  "consumed [] = []"
| "consumed (it # its) =
     (case si_chunk it of
        ChunkOk bytes \<Rightarrow> if si_accepted it then it # consumed its else [it]
      | ChunkErr err \<Rightarrow> [it])"

fun chunk_bytes :: "stream_item list \<Rightarrow> string list" where
  "chunk_bytes [] = []"
| "chunk_bytes (it # its) =
     (case si_chunk it of ChunkOk bytes \<Rightarrow> bytes # chunk_bytes its | ChunkErr err \<Rightarrow> chunk_bytes its)"

definition is_error :: "stream_item \<Rightarrow> bool" where
  "is_error it = (case si_chunk it of ChunkOk bytes \<Rightarrow> False | ChunkErr err \<Rightarrow> True)"

definition forwarded :: "stream_item \<Rightarrow> chunk_result" where
  "forwarded it =
     (case si_chunk it of ChunkOk bytes \<Rightarrow> ChunkOk bytes | ChunkErr err \<Rightarrow> ChunkErr (''Stream error: '' @ err))"

lemma on_first_chunk_frame:
  assumes "on_first_chunk t n (st, w) = (st', w')"
  shows "ss_lines st' = ss_lines st" "ss_upstream_error st' = ss_upstream_error st"
    "ss_forwarded st' = ss_forwarded st" "ss_resp_buf st' = ss_resp_buf st"
    "quiet w w'" "w_registry w' = w_registry w" "w_sent w' = w_sent w"
  using assms by (auto simp: on_first_chunk_def quiet_def split: if_splits)

lemma stream_loop_effect:
  assumes "stream_loop on_span t items (st, w) = (st', w')"
  shows "ss_lines st' = foldl (\<lambda>s b. sse_push on_span b s) (ss_lines st) (chunk_bytes (consumed items))
       \<and> ss_upstream_error st' = (ss_upstream_error st \<or> list_ex is_error (consumed items))
       \<and> ss_forwarded st' = ss_forwarded st @ map forwarded (filter si_accepted (consumed items))
       \<and> quiet w w' \<and> w_registry w' = w_registry w \<and> w_sent w' = w_sent w"
  using assms
proof (induction items arbitrary: st w)
  case Nil
  then show ?case by (simp add: quiet_def)
next
  case (Cons it its)
  obtain st1 w1 where f: "on_first_chunk t (si_elapsed_ms it) (st, w) = (st1, w1)" by force
  note frame = on_first_chunk_frame [OF f]
  show ?case
  proof (cases "si_chunk it")
    case (ChunkErr err)
    with Cons.prems f frame show ?thesis
      by (auto simp: is_error_def forwarded_def split: if_splits)
  next
    case (ChunkOk bytes)
    let ?st2 = "st1\<lparr>ss_lines := sse_push on_span bytes (ss_lines st1),
                    ss_resp_buf := keep_body bytes (ss_resp_buf st1)\<rparr>"
    show ?thesis
    proof (cases "si_accepted it")
      case False
      with Cons.prems f frame ChunkOk show ?thesis
        by (auto simp: is_error_def forwarded_def Let_def)
    next
      case True
      with Cons.prems f ChunkOk have
        "stream_loop on_span t its (?st2\<lparr>ss_forwarded := ss_forwarded st1 @ [ChunkOk bytes]\<rparr>, w1) = (st', w')"
        by (simp add: Let_def)
      from Cons.IH [OF this] frame True ChunkOk show ?thesis
        by (auto simp: is_error_def forwarded_def intro: quiet_trans)
    qed
  qed
qed

lemma stream_finish_effect:
  assumes "snd (sse_flush on_span (ss_lines st)) = (usage, reason)" "stream_finish L on_span t fe (st, w) = w'"
  shows "w_limiter w' = charged L (fe_limiter_now fe) (task_rate_limit t) (task_api_key_id t)
           (total_tokens usage) (w_limiter w)"
    and "w_registry w' =
           (if \<not> task_success t then w_registry w
            else if ss_upstream_error st
            then w_registry (breaker_failure (fe_outcome_at fe) (task_upstream t) w)
            else w_registry (breaker_success (fe_outcome_at fe) (task_upstream t) w))"
    and "\<exists>e. w_access w' = w_access w @ [e] \<and> rec_request_id e = task_request_id t
           \<and> rec_status_code e = task_status t \<and> rec_streaming e \<and> rec_finish_reason e = reason
           \<and> rec_prompt_tokens e = prompt_tokens usage \<and> rec_completion_tokens e = completion_tokens usage
           \<and> rec_total_tokens e = total_tokens usage"
  using assms by (auto simp: stream_finish_def Let_def emit_access_log_def)

section \<open>Accounting\<close>

text \<open>
  C1. A routed request is accounted for exactly once, for chat, Messages and embeddings alike and
  however many attempts it takes: a success leaves either one access event, with the usage read from
  the body and that usage charged to the request's buckets, or one forwarding task (streaming
  requests only); any other response leaves one access event with its status and no tokens, and
  charges nothing.
\<close>

theorem request_accounted:
  assumes "tr_value rbody = Inr payload" "mdl = or_default mid (tr_model rbody)"
    and "key = extract_routing_key J hs" "prio = rc_min_priority ctx"
  shows "(case route_chat J H L F g rbody mid hs ctx env w of (resp, w') \<Rightarrow>
            accounted L (chat_spec J H g mdl (tr_stream rbody) key prio) ctx resp w w')
       \<and> (case route_messages J H L F g rbody mid hs ctx env w of (resp, w') \<Rightarrow>
            accounted L (messages_spec J H g mdl (tr_stream rbody) key prio) ctx resp w w')
       \<and> (case route_embedding J H L F g rbody mid hs ctx env w of (resp, w') \<Rightarrow>
            accounted L (embedding_spec J H g mdl key prio) ctx resp w w')"
proof -
  have no: "\<not> is_success (status (sp_no_upstream (chat_spec J H g mdl (tr_stream rbody) key prio)))"
    "\<not> is_success (status (sp_no_upstream (messages_spec J H g mdl (tr_stream rbody) key prio)))"
    "\<not> is_success (status (sp_no_upstream (embedding_spec J H g mdl key prio)))"
    by (simp_all add: chat_spec_def messages_spec_def embedding_spec_def is_success_def)
  show ?thesis
    unfolding route_chat_def route_messages_def route_embedding_def assms Let_def sum.case
    using route_core_accounted [OF _ no(1)] route_core_accounted [OF _ no(2)]
      route_core_accounted [OF _ no(3)]
    by (auto simp: assms(2-4) split: prod.split)
qed

definition example_f32 :: "int f32_ops" where
  "example_f32 =
     \<lparr>g_powi = (\<lambda>x n. x), g_mul = (*), g_of_u64 = uint, g_to_u64 = of_int, g_to_i64 = (\<lambda>x. x),
      g_clamp01 = (\<lambda>x. x), g_pos = (\<lambda>x. 0 < x), g_neg = uminus, g_round = (\<lambda>x. x), g_max = max\<rparr>"

definition example_router :: "int gateway_router" where
  "example_router = gateway_router_new 1 0 default_router_config"

definition example_env :: "(json, int) route_env" where
  "example_env =
     \<lparr>re_attempt = (\<lambda>_. \<lparr>ae_select_at = 0, ae_outcome_at = 0, ae_limiter_now = 0, ae_ts = 0,
                      ae_elapsed_ms = 5, ae_exchange = (\<lambda>_. Reply 200 None (Inr ''{}''))\<rparr>),
      re_draw = (\<lambda>x. x), re_ts = 0, re_total_ms = 7\<rparr>"

definition example_context :: request_context where
  "example_context = \<lparr>rc_request_id = ''r1'', rc_api_key_id = ''k1'', rc_rate_limit = None, rc_min_priority = 0\<rparr>"

definition example_world :: "registry \<Rightarrow> (mem_limiter, json) world" where
  "example_world r =
     \<lparr>w_registry = r, w_limiter = mem_limiter_new 60, w_sink = LogNoop, w_access = [],
      w_metrics = metrics_new, w_sent = [], w_tasks = []\<rparr>"

definition example_request :: "json typed_request" where
  "example_request = \<lparr>tr_model = ''m'', tr_stream = False, tr_value = Inr (JObj [(''model'', JStr ''m'')])\<rparr>"

abbreviation example_lib :: "json lib" where
  "example_lib \<equiv> json_lib (\<lambda>_. Some (JObj []))"

lemma request_accounted_witness:
  "length (w_access (snd (route_chat example_lib example_hash_ops mem_ops example_f32 example_router
     example_request None [] example_context example_env (example_world registry_new)))) = 1"
proof -
  obtain resp w' where r: "route_chat example_lib example_hash_ops mem_ops example_f32 example_router
     example_request None [] example_context example_env (example_world registry_new) = (resp, w')" by force
  have "tr_value example_request = Inr (JObj [(''model'', JStr ''m'')])" "tr_stream example_request = False"
    by (simp_all add: example_request_def)
  from request_accounted [OF this(1) refl refl refl, where J = example_lib and H = example_hash_ops
      and L = mem_ops and F = example_f32 and g = example_router and mid = None and hs = "[]"
      and ctx = example_context and env = example_env and w = "example_world registry_new"] r this(2)
  have a: "accounted mem_ops (chat_spec example_lib example_hash_ops example_router
      (or_default None (tr_model example_request)) False (extract_routing_key example_lib [])
      (rc_min_priority example_context)) example_context resp (example_world registry_new) w'" by simp
  then have "length (w_access w') = length (w_access (example_world registry_new)) + 1"
    by (auto simp: accounted_def answered_def chat_spec_def split: if_splits)
  moreover have "w_access (example_world registry_new) = []" by (simp add: example_world_def)
  ultimately show ?thesis by (simp add: r)
qed

text \<open>
  C17. A forwarded stream is accounted for once, whether it ends, breaks, or the client goes away: the
  usage and finish reason found in the chunks that were read are charged and logged in one event; the
  client gets exactly the chunks it took, in order; and the upstream's breaker records a failure when
  the upstream broke the stream and a success otherwise, a client's disconnect included.
\<close>

theorem stream_task_accounted:
  assumes "run_stream_task L on_span t items fe w = (fwd, w')"
    and "sse_scan on_span (chunk_bytes (consumed items)) (no_usage, []) = (usage, reason)"
  shows "fwd = map forwarded (filter si_accepted (consumed items))
       \<and> w_limiter w' = charged L (fe_limiter_now fe) (task_rate_limit t) (task_api_key_id t)
                          (total_tokens usage) (w_limiter w)
       \<and> w_registry w' =
           (if \<not> task_success t then w_registry w
            else if list_ex is_error (consumed items)
            then w_registry (breaker_failure (fe_outcome_at fe) (task_upstream t) w)
            else w_registry (breaker_success (fe_outcome_at fe) (task_upstream t) w))
       \<and> (\<exists>e. w_access w' = w_access w @ [e] \<and> rec_request_id e = task_request_id t
            \<and> rec_status_code e = task_status t \<and> rec_streaming e \<and> rec_finish_reason e = reason
            \<and> rec_prompt_tokens e = prompt_tokens usage \<and> rec_completion_tokens e = completion_tokens usage
            \<and> rec_total_tokens e = total_tokens usage)"
proof -
  obtain st w1 where l: "stream_loop on_span t items (stream_start (task_log_body t), w) = (st, w1)" by force
  note eff = stream_loop_effect [OF l]
  have "snd (sse_flush on_span (ss_lines st)) = (usage, reason)"
    using eff assms(2) by (simp add: sse_scan_def stream_start_def)
  from stream_finish_effect [OF this refl, of L t fe w1] assms(1) l eff show ?thesis
    by (auto simp: run_stream_task_def stream_start_def quiet_def breaker_outcome_registry)
qed

definition example_task :: stream_task where
  "example_task =
     \<lparr>task_upstream = GroupUpstream 0 0, task_request_id = ''r1'', task_api_key_id = ''k1'', task_model = ''m'',
      task_endpoint = ENDPOINT_CHAT, task_provider = ''u'', task_node_id = '''', task_upstream_model = ''m'',
      task_status = 200, task_success = True, task_rate_limit = None, task_request_body = '''',
      task_log_body = False\<rparr>"

lemma stream_task_accounted_witness:
  "let items = [\<lparr>si_chunk = ChunkOk ''data: x'', si_elapsed_ms = 3, si_accepted = True\<rparr>,
                \<lparr>si_chunk = ChunkOk ''y'', si_elapsed_ms = 4, si_accepted = False\<rparr>,
                \<lparr>si_chunk = ChunkErr ''late'', si_elapsed_ms = 5, si_accepted = True\<rparr>]
   in fst (chat_stream_task example_lib mem_ops example_task items
        \<lparr>fe_outcome_at = 9, fe_limiter_now = 9, fe_ts = 9, fe_total_ms = 9\<rparr> (example_world registry_new))
      = [ChunkOk ''data: x'']"
proof -
  let ?items = "[\<lparr>si_chunk = ChunkOk ''data: x'', si_elapsed_ms = 3, si_accepted = True\<rparr>,
                \<lparr>si_chunk = ChunkOk ''y'', si_elapsed_ms = 4, si_accepted = False\<rparr>,
                \<lparr>si_chunk = ChunkErr ''late'', si_elapsed_ms = 5, si_accepted = True\<rparr>]"
  let ?fe = "\<lparr>fe_outcome_at = 9, fe_limiter_now = 9, fe_ts = 9, fe_total_ms = 9\<rparr>"
  obtain fwd w' where r: "run_stream_task mem_ops (chat_on_span example_lib) example_task ?items ?fe
      (example_world registry_new) = (fwd, w')" by force
  obtain us re where "sse_scan (chat_on_span example_lib) (chunk_bytes (consumed ?items)) (no_usage, []) = (us, re)"
    by force
  from stream_task_accounted [OF r this] have "fwd = [ChunkOk ''data: x'']"
    by (simp add: forwarded_def)
  with r show ?thesis by (simp add: chat_stream_task_def)
qed

section \<open>Where requests go\<close>

text \<open>
  C7. A request reaches only upstreams that serve it: whatever the retries, at most
  \<open>max(max_retries, 1)\<close> requests are sent, each is the request built for a binding that is enabled and
  healthy, belongs to a group registered for the requested model and protocol, is an external
  runtime speaking that protocol, and lies in a tier of at least the context's minimum; the
  registry keeps its invariant and its configuration.
\<close>

theorem requests_reach_serving_upstreams:
  assumes "registry_inv (w_registry w)" "tr_value rbody = Inr payload" "mdl = or_default mid (tr_model rbody)"
    and "(resp, w') = route_chat J H L F g rbody mid hs ctx env w \<and> ac = OpenAiApi
           \<and> sp = chat_spec J H g mdl (tr_stream rbody) (extract_routing_key J hs) (rc_min_priority ctx)
       \<or> (resp, w') = route_messages J H L F g rbody mid hs ctx env w \<and> ac = AnthropicApi
           \<and> sp = messages_spec J H g mdl (tr_stream rbody) (extract_routing_key J hs) (rc_min_priority ctx)"
  shows "registry_inv (w_registry w') \<and> evolves (w_registry w) (w_registry w')
       \<and> (\<exists>us. length us \<le> unat (max (max_retries (gr_retry_config g)) 1)
            \<and> w_sent w' = w_sent w @ map (\<lambda>u. request_to J sp payload (deref (w_registry w) u)) us
            \<and> (\<forall>u \<in> set us. model_good mdl ac (rc_min_priority ctx) (w_registry w) u))"
proof -
  let ?pick = "\<lambda>now. registry_select H now mdl (extract_routing_key J hs) (Some External) (Some ac)
      (rc_min_priority ctx)"
  have "route_core J L F (gr_retry_config g) sp ctx env payload w = (resp, w')" "sp_pick sp = ?pick"
    using assms(2-4) by (auto simp: route_chat_def route_messages_def chat_spec_def messages_spec_def Let_def)
  from model_picker.route_core_sent [OF this assms(1)] show ?thesis
    unfolding model_picker.sent_ok_def by blast
qed

lemma requests_reach_serving_upstreams_witness:
  "length (w_sent (snd (route_chat example_lib example_hash_ops mem_ops example_f32 example_router
     example_request None [] example_context example_env (example_world registry_new)))) \<le> 5"
proof -
  obtain resp w' where r: "route_chat example_lib example_hash_ops mem_ops example_f32 example_router
     example_request None [] example_context example_env (example_world registry_new) = (resp, w')" by force
  have inv: "registry_inv (w_registry (example_world registry_new))"
    by (simp add: example_world_def registry_inv_new)
  have v: "tr_value example_request = Inr (JObj [(''model'', JStr ''m'')])" by (simp add: example_request_def)
  from requests_reach_serving_upstreams [OF inv v refl disjI1 [OF conjI [OF r [symmetric] conjI [OF refl refl]]]]
  have "length (w_sent w') \<le> length (w_sent (example_world registry_new)) + unat (max (max_retries (gr_retry_config example_router)) 1)"
    by auto
  also have "max (max_retries (gr_retry_config example_router)) 1 = 5"
    by (simp add: example_router_def gateway_router_new_def effective_retry_config_def
        default_router_config_def default_retry_config_def)
  also have "w_sent (example_world registry_new) = []" by (simp add: example_world_def)
  finally show ?thesis by (simp add: r)
qed

text \<open>
  C18. An available upstream is tried: when a group is registered for the model under the handler's
  protocol and, as the request starts, some binding of it in the tiers allowed is eligible, a request
  is sent; and the first one goes to an eligible binding of the lowest tier that has one.
\<close>

theorem eligible_upstream_tried:
  assumes "tr_value rbody = Inr payload" "mdl = or_default mid (tr_model rbody)"
    and "get_protocol_group mdl (api_compatibility_str ac) (w_registry w) = Some gi"
    and "\<exists>b \<in> set (upstreams (group_store (w_registry w) ! gi)).
           rc_min_priority ctx \<le> priority b \<and> eligible (ae_select_at (re_attempt env 0)) (Some External) (Some ac) b"
    and "(resp, w') = route_chat J H L F g rbody mid hs ctx env w \<and> ac = OpenAiApi
           \<and> sp = chat_spec J H g mdl (tr_stream rbody) (extract_routing_key J hs) (rc_min_priority ctx)
       \<or> (resp, w') = route_messages J H L F g rbody mid hs ctx env w \<and> ac = AnthropicApi
           \<and> sp = messages_spec J H g mdl (tr_stream rbody) (extract_routing_key J hs) (rc_min_priority ctx)
       \<or> (resp, w') = route_embedding J H L F g rbody mid hs ctx env w \<and> ac = OpenAiApi
           \<and> sp = embedding_spec J H g mdl (extract_routing_key J hs) (rc_min_priority ctx)"
  shows "\<exists>i b rest. b = upstreams (group_store (w_registry w) ! gi) ! i
       \<and> i < length (upstreams (group_store (w_registry w) ! gi))
       \<and> eligible (ae_select_at (re_attempt env 0)) (Some External) (Some ac) b
       \<and> (\<forall>b' \<in> set (upstreams (group_store (w_registry w) ! gi)). rc_min_priority ctx \<le> priority b'
            \<longrightarrow> eligible (ae_select_at (re_attempt env 0)) (Some External) (Some ac) b'
            \<longrightarrow> priority b \<le> priority b')
       \<and> w_sent w' = w_sent w @ request_to J sp payload b # rest"
proof -
  let ?now = "ae_select_at (re_attempt env 0)"
  let ?g = "group_store (w_registry w) ! gi"
  let ?sel = "select_with_min_priority H ?now (extract_routing_key J hs) (Some External) (Some ac)
      (rc_min_priority ctx) ?g"
  have r: "route_core J L F (gr_retry_config g) sp ctx env payload w = (resp, w')"
    "sp_pick sp ?now (w_registry w) = registry_select H ?now mdl (extract_routing_key J hs) (Some External) (Some ac)
      (rc_min_priority ctx) (w_registry w)"
    using assms(1,2,5) by (auto simp: route_chat_def route_messages_def route_embedding_def chat_spec_def
        messages_spec_def embedding_spec_def Let_def)
  obtain k g' where sel: "?sel = (k, g')" by force
  have ch: "tier_choice ?now (Some External) (Some ac) {p. rc_min_priority ctx \<le> p} (upstreams ?g) k"
    using select_with_min_priority_choice [of ?now "Some External" "Some ac" "rc_min_priority ctx" ?g H
        "extract_routing_key J hs"] sel by simp
  with assms(4) obtain i where i: "k = Some i" by (cases k) (auto simp: tier_choice_def in_set_conv_nth)
  let ?b = "upstreams ?g ! i"
  have b: "i < length (upstreams ?g)" "eligible ?now (Some External) (Some ac) ?b"
    "\<And>b'. b' \<in> set (upstreams ?g) \<Longrightarrow> rc_min_priority ctx \<le> priority b'
       \<Longrightarrow> eligible ?now (Some External) (Some ac) b' \<Longrightarrow> priority ?b \<le> priority b'"
    using ch i by (auto simp: tier_choice_def in_set_conv_nth)
  have "sp_pick sp ?now (w_registry w) = (Some (GroupUpstream gi i), update_group gi g' (w_registry w))"
    using r(2) assms(3) sel i by (simp add: registry_select_def)
  from route_core_first [OF r(1) this] obtain rest where
    "w_sent w' = w_sent w @ request_to J sp payload (deref (update_group gi g' (w_registry w)) (GroupUpstream gi i)) # rest"
    by blast
  moreover have "node (deref (update_group gi g' (w_registry w)) (GroupUpstream gi i)) = node ?b"
    using group_static_nth(2) [OF _ b(1)] select_with_min_priority_static [of ?g H ?now "extract_routing_key J hs"
        "Some External" "Some ac" "rc_min_priority ctx"] sel
    by (cases "gi < length (group_store (w_registry w))")
      (simp_all add: deref_def update_group_def list_update_beyond)
  ultimately have "w_sent w' = w_sent w @ request_to J sp payload ?b # rest"
    using request_to_node by metis
  with b show ?thesis by blast
qed

lemma eligible_upstream_tried_witness:
  "req_url (hd (w_sent (snd (route_chat example_lib example_hash_ops mem_ops example_f32 example_router
     example_request None [] example_context example_env
     (example_world (register_group 7 example_group registry_new)))))) = ''b/chat/completions''"
proof -
  let ?w = "example_world (register_group 7 example_group registry_new)"
  let ?ups = "upstreams (group_store (w_registry ?w) ! 0)"
  let ?sp = "chat_spec example_lib example_hash_ops example_router ''m'' (tr_stream example_request)
      (extract_routing_key example_lib []) (rc_min_priority example_context)"
  obtain resp w' where r: "(resp, w') = route_chat example_lib example_hash_ops mem_ops example_f32 example_router
     example_request None [] example_context example_env ?w" by (metis prod.collapse)
  have v: "tr_value example_request = Inr (JObj [(''model'', JStr ''m'')])" "''m'' = or_default None (tr_model example_request)"
    by (simp_all add: example_request_def or_default_def)
  have reg: "w_registry ?w = register_group 7 example_group registry_new" by (simp add: example_world_def)
  have ups: "?ups = [(example_binding ''a'' 1)\<lparr>enabled := False\<rparr>, (example_binding ''b'' 1)\<lparr>priority := 1\<rparr>]"
    unfolding reg example_group_lookup by (simp add: example_group_def)
  have now: "ae_select_at (re_attempt example_env 0) = 0" "rc_min_priority example_context = 0"
    by (simp_all add: example_env_def example_context_def)
  have el: "eligible 0 (Some External) (Some OpenAiApi) ((example_binding ''b'' 1)\<lparr>priority := 1\<rparr>)"
    "\<not> eligible 0 (Some External) (Some OpenAiApi) ((example_binding ''a'' 1)\<lparr>enabled := False\<rparr>)"
    by (simp_all add: eligible_def opt_eq_def is_available_def example_binding_def default_node_def
        default_profile_def can_execute_def breaker_state_def check_and_update_state_eq breaker_new_def
        with_config_and_label_def)
  have "get_protocol_group ''m'' (api_compatibility_str OpenAiApi) (w_registry ?w) = Some 0"
    unfolding reg using example_group_lookup(1) by simp
  moreover have "\<exists>b \<in> set ?ups. rc_min_priority example_context \<le> priority b
      \<and> eligible (ae_select_at (re_attempt example_env 0)) (Some External) (Some OpenAiApi) b"
    unfolding ups now using el by simp
  ultimately have "\<exists>i b rest. b = ?ups ! i \<and> i < length ?ups
       \<and> eligible 0 (Some External) (Some OpenAiApi) b
       \<and> w_sent w' = w_sent ?w @ request_to example_lib ?sp (JObj [(''model'', JStr ''m'')]) b # rest"
    using eligible_upstream_tried [OF v _ _ disjI1 [OF conjI [OF r conjI [OF refl refl]]], of 0]
    unfolding now by blast
  then obtain i rest where i: "i < length ?ups" "eligible 0 (Some External) (Some OpenAiApi) (?ups ! i)"
    "w_sent w' = w_sent ?w @ request_to example_lib ?sp (JObj [(''model'', JStr ''m'')]) (?ups ! i) # rest" by blast
  from i(1,2) el(2) have "?ups ! i = (example_binding ''b'' 1)\<lparr>priority := 1\<rparr>"
    unfolding ups by (auto simp: less_Suc_eq)
  moreover have "w_sent ?w = []" by (simp add: example_world_def)
  ultimately have "hd (w_sent w') = request_to example_lib ?sp (JObj [(''model'', JStr ''m'')])
      ((example_binding ''b'' 1)\<lparr>priority := 1\<rparr>)" using i(3) by simp
  then have "req_url (hd (w_sent w')) = ''b/chat/completions''"
    by (simp add: request_to_def attempt_request_def chat_spec_def example_binding_def Let_def)
  then show ?thesis by (simp flip: r)
qed

text \<open>
  C36. An unknown model is refused: when no group is registered for the model under the handler's
  protocol, the client gets 404 \<open>model_not_found\<close>, nothing is sent, registry and limiter are
  untouched, and the log has one event more.
\<close>

theorem unknown_model_rejected:
  assumes "tr_value rbody = Inr payload" "mdl = or_default mid (tr_model rbody)"
    and "get_protocol_group mdl (api_compatibility_str ac) (w_registry w) = None"
    and "(resp, w') = route_chat J H L F g rbody mid hs ctx env w \<and> ac = OpenAiApi
       \<or> (resp, w') = route_messages J H L F g rbody mid hs ctx env w \<and> ac = AnthropicApi
       \<or> (resp, w') = route_embedding J H L F g rbody mid hs ctx env w \<and> ac = OpenAiApi"
  shows "resp = model_not_found J mdl \<and> status resp = 404 \<and> w_sent w' = w_sent w
       \<and> w_registry w' = w_registry w \<and> w_limiter w' = w_limiter w
       \<and> (\<exists>e. w_access w' = w_access w @ [e] \<and> rec_request_id e = rc_request_id ctx
            \<and> rec_model e = mdl \<and> rec_status_code e = 404 \<and> rec_total_tokens e = 0)"
proof -
  obtain sp where r: "route_core J L F (gr_retry_config g) sp ctx env payload w = (resp, w')"
    "sp_no_upstream sp = model_not_found J mdl" "sp_model sp = mdl"
    "sp_pick sp = (\<lambda>now. registry_select H now mdl (extract_routing_key J hs) (Some External) (Some ac)
       (rc_min_priority ctx))"
    using assms(1,2,4) by (fastforce simp: route_chat_def route_messages_def route_embedding_def chat_spec_def
        messages_spec_def embedding_spec_def Let_def)
  have "sp_pick sp now (w_registry w) = (None, w_registry w)" for now
    using r(4) assms(3) by (simp add: registry_select_def)
  from route_core_nowhere [OF r(1) this] r(2)
  have n: "resp = model_not_found J mdl" "w_sent w' = w_sent w" "w_registry w' = w_registry w" by simp_all
  have "\<not> is_success (status (sp_no_upstream sp))" by (simp add: r(2) is_success_def)
  from route_core_accounted [OF r(1) this] n(1) r(3) show ?thesis using n
    by (auto simp: accounted_def is_success_def event_for_def no_usage_def)
qed

lemma unknown_model_rejected_witness:
  "status (fst (route_messages example_lib example_hash_ops mem_ops example_f32 example_router
     example_request None [] example_context example_env (example_world registry_new))) = 404"
proof -
  obtain resp w' where r: "(resp, w') = route_messages example_lib example_hash_ops mem_ops example_f32 example_router
     example_request None [] example_context example_env (example_world registry_new)" by (metis prod.collapse)
  have v: "tr_value example_request = Inr (JObj [(''model'', JStr ''m'')])" by (simp add: example_request_def)
  have "get_protocol_group (or_default None (tr_model example_request)) (api_compatibility_str AnthropicApi)
      (w_registry (example_world registry_new)) = None"
    by (simp add: example_world_def get_protocol_group_def registry_new_def)
  from unknown_model_rejected [OF v refl this disjI2 [OF disjI1 [OF conjI [OF r refl]]]]
  show ?thesis by (simp flip: r)
qed

section \<open>Stored responses\<close>

text \<open>
  C37. Operations on stored responses are isolated from model routing: they never touch a group, a
  limiter or a task, send nothing without an available binding of the provider the client names, and
  otherwise one request to that provider's base URL and one access event.  Routing a model, in turn,
  never touches the provider bindings.
\<close>

theorem responses_isolation:
  assumes "registry_inv (w_registry w)"
  shows "(case route_response_retrieve J g rid hs ctx e w of (resp, w') \<Rightarrow> proxied J hs (ae_select_at e) ''GET'' w w')
       \<and> (case route_response_delete J g rid hs ctx e w of (resp, w') \<Rightarrow> proxied J hs (ae_select_at e) ''DELETE'' w w')
       \<and> (case route_response_input_items J g rid qs hs ctx e w of (resp, w') \<Rightarrow>
            proxied J hs (ae_select_at e) ''GET'' w w')
       \<and> provider_store (w_registry (snd (route_chat J H L F g rbody mid hs ctx env w))) = provider_store (w_registry w)
       \<and> provider_store (w_registry (snd (route_responses J L F g jbody hs ctx env w))) = provider_store (w_registry w)"
proof -
  have chat: "provider_store (w_registry (snd (route_chat J H L F g rbody mid hs ctx env w))) = provider_store (w_registry w)"
  proof (cases "tr_value rbody")
    case (Inr payload)
    have "sp_pick (chat_spec J H g mdl st key m) = (\<lambda>now. registry_select H now mdl key (Some External)
        (Some OpenAiApi) m)" for mdl st key m by (simp add: chat_spec_def)
    note kept = model_picker.route_core_providers [OF this assms]
    show ?thesis by (simp add: route_chat_def Inr Let_def kept)
  qed (simp add: route_chat_def Let_def)
  have resp: "provider_store (w_registry (snd (route_responses J L F g jbody hs ctx env w))) = provider_store (w_registry w)"
  proof -
    have "sp_pick (responses_spec J g mdl st pid) = (\<lambda>now. find_by_provider_id now mdl pid)" for mdl st pid
      by (simp add: responses_spec_def)
    note kept = provider_picker.route_core_providers [OF this assms]
    show ?thesis by (simp add: route_responses_def Let_def kept split: option.split)
  qed
  show ?thesis
    unfolding route_response_retrieve_def route_response_delete_def route_response_input_items_def
    using with_provider_effect chat resp by (auto split: prod.split)
qed

definition example_proxy_env :: "json proxy_env" where
  "example_proxy_env =
     \<lparr>ae_select_at = 0, ae_outcome_at = 0, ae_limiter_now = 0, ae_ts = 0, ae_elapsed_ms = 5,
      ae_exchange = (\<lambda>_. Reply 200 None (Inr ''{}'')), px_total_ms = 6\<rparr>"

lemma responses_isolation_witness:
  "group_store (w_registry (snd (route_response_delete example_lib example_router ''r'' [(''x-mp-provider'', '''')]
     example_context example_proxy_env (example_world (register_group 7 example_group registry_new)))))
   = [example_group]"
proof -
  let ?w = "example_world (register_group 7 example_group registry_new)"
  have "group_wf example_group"
    by (simp add: group_wf_def example_group_def example_binding_def breaker_new_def inv_created)
  then have inv: "registry_inv (w_registry ?w)"
    by (simp add: example_world_def registry_inv_register registry_inv_new)
  have st: "group_store (w_registry ?w) = [example_group]"
    by (simp add: example_world_def register_group_def registry_new_def)
  obtain resp w' where r: "route_response_delete example_lib example_router ''r'' [(''x-mp-provider'', '''')]
      example_context example_proxy_env ?w = (resp, w')" by force
  have "proxied example_lib [(''x-mp-provider'', '''')] (ae_select_at example_proxy_env) ''DELETE'' ?w w'"
    using responses_isolation [OF inv, where J = example_lib and g = example_router and rid = "''r''"
        and hs = "[(''x-mp-provider'', '''')]" and ctx = example_context and e = example_proxy_env,
        THEN conjunct2, THEN conjunct1] r by simp
  with st r show ?thesis by (simp add: proxied_def)
qed

end
