(* ===== verification/Env_Expand.thy ===== *)
theory Env_Expand
  imports Gateway_Prelude
begin

text \<open>
  \<open>expand_env\<close> of \<^verbatim>\<open>server/src/env_expand.rs\<close>: \<open>${VAR}\<close> placeholders in
  configuration strings.  The environment is an argument; the delimiters are ASCII, so working on
  bytes finds the same placeholders as working on characters.
\<close>

type_synonym environment = "string \<Rightarrow> string option"

function expand_env :: "environment \<Rightarrow> string \<Rightarrow> string result" where
  "expand_env env [] = Inr []"
| "expand_env env (c # cs) =
     (if c = CHR ''$'' \<and> cs \<noteq> [] \<and> hd cs = CHR ''{'' then
        (let rest = tl cs;
             var = takeWhile (\<lambda>c. c \<noteq> CHR ''}'') rest;
             after = drop (length var + 1) rest
         in if var = [] then Inl ''Empty variable reference ${}''
            else
              (case env var of
                 None \<Rightarrow> Inl (''Environment variable '' @ quoted var @ '' is not set'')
               | Some val \<Rightarrow> rbind (expand_env env after) (\<lambda>r. Inr (val @ r))))
      else rbind (expand_env env cs) (\<lambda>r. Inr (c # r)))"
  by pat_completeness auto

termination
  by (relation "measure (\<lambda>(env, s). length s)") auto

section \<open>Templates\<close>

text \<open>What a configuration string means: literal text and references.\<close>

datatype piece = Lit string | Ref string

fun piece_ok :: "piece \<Rightarrow> bool" where
  "piece_ok (Lit s) = (CHR ''$'' \<notin> set s)"
| "piece_ok (Ref v) = (v \<noteq> [] \<and> CHR ''}'' \<notin> set v)"

fun show_piece :: "piece \<Rightarrow> string" where
  "show_piece (Lit s) = s"
| "show_piece (Ref v) = ''${'' @ v @ ''}''"

definition show_template :: "piece list \<Rightarrow> string" where
  "show_template ps = concat (map show_piece ps)"

fun piece_value :: "environment \<Rightarrow> piece \<Rightarrow> string result" where
  "piece_value env (Lit s) = Inr s"
| "piece_value env (Ref v) =
     (case env v of Some val \<Rightarrow> Inr val | None \<Rightarrow> Inl (''Environment variable '' @ quoted v @ '' is not set''))"

lemma expand_env_literal:
  "CHR ''$'' \<notin> set s \<Longrightarrow> expand_env env (s @ t) = rbind (expand_env env t) (\<lambda>r. Inr (s @ r))"
  by (induction s) (auto simp: rbind_def split: sum.splits)

lemma takeWhile_close: "CHR ''}'' \<notin> set v \<Longrightarrow> takeWhile (\<lambda>c. c \<noteq> CHR ''}'') (v @ CHR ''}'' # t) = v"
  by (induction v) auto

lemma expand_env_ref:
  assumes "v \<noteq> []" "CHR ''}'' \<notin> set v"
  shows "expand_env env (''${'' @ v @ ''}'' @ t) =
           rbind (piece_value env (Ref v)) (\<lambda>val. rbind (expand_env env t) (\<lambda>r. Inr (val @ r)))"
  using assms takeWhile_close [OF assms(2), of t] by (simp add: Let_def split: option.split)

text \<open>A reference that is never closed reaches to the end of the string.\<close>

lemma expand_env_unclosed:
  assumes "v \<noteq> []" "CHR ''}'' \<notin> set v"
  shows "expand_env env (''${'' @ v) = piece_value env (Ref v)"
proof -
  have tw: "takeWhile (\<lambda>c. c \<noteq> CHR ''}'') v = v" using assms(2) by (auto simp: takeWhile_eq_all_conv)
  show ?thesis using assms by (simp add: tw Let_def split: option.split)
qed

text \<open>
  C38. Expansion inverts the writing of a template: a string made of literals without \<open>$\<close> and
  references is expanded piece by piece, from left to right, and the first variable that is not set
  is the error; a last reference without its closing brace is expanded as if it had one.
\<close>

theorem expand_env_template:
  assumes "\<forall>p \<in> set ps. piece_ok p" "v \<noteq> []" "CHR ''}'' \<notin> set v"
  shows "expand_env env (show_template ps) = rbind (collect_results (piece_value env) ps) (\<lambda>vs. Inr (concat vs))
       \<and> expand_env env (show_template ps @ ''${'' @ v) = expand_env env (show_template (ps @ [Ref v]))"
proof -
  have gen: "expand_env env (show_template ps @ t) =
      rbind (collect_results (piece_value env) ps) (\<lambda>vs. rbind (expand_env env t) (\<lambda>r. Inr (concat vs @ r)))" for t
    using assms(1)
  proof (induction ps)
    case Nil
    show ?case by (simp add: show_template_def rbind_def split: sum.split)
  next
    case (Cons p ps)
    show ?case
    proof (cases p)
      case (Lit s)
      with Cons expand_env_literal [of s env "show_template ps @ t"] show ?thesis
        by (auto simp: show_template_def rbind_def split: sum.splits)
    next
      case (Ref v)
      with Cons expand_env_ref [of v env "show_template ps @ t"] show ?thesis
        by (auto simp: show_template_def rbind_def simp del: expand_env.simps split: sum.splits)
    qed
  qed
  have closed: "expand_env env (show_template ps) = rbind (collect_results (piece_value env) ps) (\<lambda>vs. Inr (concat vs))"
    using gen [of "[]"] by simp
  have "expand_env env (''${'' @ v @ ''}'' @ []) = expand_env env (''${'' @ v)"
    using expand_env_ref [OF assms(2,3), of env "[]"] expand_env_unclosed [OF assms(2,3)]
    by (simp add: rbind_def split: sum.split)
  then have "expand_env env (show_piece (Ref v)) = expand_env env (''${'' @ v)" by simp
  with closed gen [of "show_piece (Ref v)"] gen [of "''${'' @ v"] show ?thesis
    by (simp add: show_template_def del: expand_env.simps show_piece.simps)
qed

lemma expand_env_template_witness:
  "expand_env [''KEY'' \<mapsto> ''s3cret''] (''Bearer '' @ ''${KEY}'' @ ''!'') = Inr ''Bearer s3cret!''
 \<and> expand_env [''KEY'' \<mapsto> ''s3cret''] (''Bearer '' @ ''${KEY'')
     = expand_env [''KEY'' \<mapsto> ''s3cret''] (''Bearer '' @ ''${KEY}'')"
  using expand_env_template [of "[Lit ''Bearer '', Ref ''KEY'', Lit ''!'']" "''x''" "[''KEY'' \<mapsto> ''s3cret'']"]
    expand_env_template [of "[Lit ''Bearer '']" "''KEY''" "[''KEY'' \<mapsto> ''s3cret'']"]
  by (simp add: show_template_def del: expand_env.simps)

end
