(* ===== verification/Auth.thy ===== *)
theory Auth
  imports Env_Expand Http Metrics
begin

text \<open>
  Authentication and request identification: the key file of \<^verbatim>\<open>server/src/auth_config.rs\<close>,
  the repositories of \<^verbatim>\<open>server/src/auth.rs\<close>, and the middleware of
  \<^verbatim>\<open>server/src/middleware.rs\<close>.  SHA-256 (in hexadecimal) and the standard reason
  phrases are parameters; the random characters of a request id are an argument.
\<close>

section \<open>Keys\<close>

record api_key_lookup =
  lk_id :: string
  lk_uid :: string
  lk_status :: string

record raw_api_key =
  rk_id :: string
  rk_name :: "string option"
  rk_hash :: "string option"
  rk_plain :: "string option"
  rk_disabled :: bool

record raw_auth_config =
  ra_mode :: string
  ra_keys :: "raw_api_key list"

definition key_hash_of :: "environment \<Rightarrow> (string \<Rightarrow> string) \<Rightarrow> raw_api_key \<Rightarrow> string result" where
  "key_hash_of env sha256_hex entry =
     (case rk_hash entry of
        Some h \<Rightarrow> Inr h
      | None \<Rightarrow>
          (case rk_plain entry of
             Some plain \<Rightarrow> rbind (expand_env env plain) (\<lambda>expanded. Inr (sha256_hex expanded))
           | None \<Rightarrow> Inl (''Key '' @ quoted (rk_id entry) @ '' must have either '' @ quoted ''hash''
               @ '' or '' @ quoted ''plain'')))"

fun auth_keys :: "environment \<Rightarrow> (string \<Rightarrow> string) \<Rightarrow> raw_api_key list \<Rightarrow> (string \<times> api_key_lookup) list result" where
  "auth_keys env sha256_hex [] = Inr []"
| "auth_keys env sha256_hex (entry # es) =
     (if rk_disabled entry then auth_keys env sha256_hex es
      else
        rbind (key_hash_of env sha256_hex entry)
          (\<lambda>h. rbind (auth_keys env sha256_hex es)
            (\<lambda>ks. Inr ((h, \<lparr>lk_id = rk_id entry, lk_uid = rk_id entry, lk_status = ''active''\<rparr>) # ks))))"

definition process_auth ::
    "environment \<Rightarrow> (string \<Rightarrow> string) \<Rightarrow> raw_auth_config \<Rightarrow> (string \<times> api_key_lookup) list result" where
  "process_auth env sha256_hex raw =
     (if ra_mode raw = ''none''
      then Inl (''auth.mode '' @ quoted ''none'' @ '' is no longer supported. Use the --no-auth flag instead.'')
      else if ra_mode raw = ''api_key''
      then (if ra_keys raw = []
            then Inl (''auth.mode is '' @ quoted ''api_key'' @ '' but no keys are defined'')
            else auth_keys env sha256_hex (ra_keys raw))
      else Inl (''Unknown auth.mode '' @ quoted (ra_mode raw) @ '': expected '' @ quoted ''api_key''))"

section \<open>Repositories\<close>

text \<open>The table of keys, in the order a query returns its rows.\<close>

record api_key_row =
  row_id :: string
  row_uid :: string
  row_key_hash :: string
  row_status :: string
  row_expires_at :: "int option"

definition row_active :: "int \<Rightarrow> api_key_row \<Rightarrow> bool" where
  "row_active now row \<longleftrightarrow>
     row_status row = ''active'' \<and> (case row_expires_at row of None \<Rightarrow> True | Some t \<Rightarrow> now < t)"

definition find_all_active :: "int \<Rightarrow> api_key_row list \<Rightarrow> (string \<times> api_key_lookup) list" where
  "find_all_active now rows =
     map (\<lambda>row. (row_key_hash row, \<lparr>lk_id = row_id row, lk_uid = row_uid row, lk_status = ''active''\<rparr>))
       (filter (row_active now) rows)"

definition sql_find_active_by_hash :: "int \<Rightarrow> api_key_row list \<Rightarrow> string \<Rightarrow> api_key_lookup option" where
  "sql_find_active_by_hash now rows h =
     map_option (\<lambda>row. \<lparr>lk_id = row_id row, lk_uid = row_uid row, lk_status = row_status row\<rparr>)
       (List.find (\<lambda>row. row_key_hash row = h \<and> row_active now row) rows)"

type_synonym key_cache = "string \<Rightarrow> api_key_lookup option"

definition cached_new :: key_cache where
  "cached_new = Map.empty"

definition cached_reload :: "(string \<times> api_key_lookup) list \<Rightarrow> key_cache \<Rightarrow> key_cache" where
  "cached_reload entries cache = map_of (rev entries)"

definition cached_find_active_by_hash :: "key_cache \<Rightarrow> string \<Rightarrow> api_key_lookup option" where
  "cached_find_active_by_hash cache h = cache h"

section \<open>Errors\<close>

definition create_error :: "'j lib \<Rightarrow> (nat \<Rightarrow> string option) \<Rightarrow> nat \<Rightarrow> string \<Rightarrow> string \<Rightarrow> 'j response" where
  "create_error J reason st code message =
     \<lparr>status = st, resp_headers = [(''x-mp-error-code'', code)],
      body = BodyJson (j_obj J [(''error'', j_obj J
        [(''type'', j_str J (case reason st of Some r \<Rightarrow> r | None \<Rightarrow> ''Unknown Status Code'')),
         (''code'', j_str J code), (''message'', j_str J message)])])\<rparr>"

definition extract_error_code :: "'j lib \<Rightarrow> 'j response \<Rightarrow> string" where
  "extract_error_code J resp =
     (case Option.bind (header_get ''x-mp-error-code'' (resp_headers resp)) (hv_to_str J) of
        Some v \<Rightarrow> v | None \<Rightarrow> '''')"

section \<open>The authentication middleware\<close>

record api_key_identity =
  ident_key_id :: string
  ident_uid :: string

text \<open>Either the response to send, or the identity inserted before the handler runs.\<close>

definition auth_middleware ::
    "'j lib \<Rightarrow> (nat \<Rightarrow> string option) \<Rightarrow> (string \<Rightarrow> string) \<Rightarrow> bool
       \<Rightarrow> (string \<Rightarrow> string + api_key_lookup option) \<Rightarrow> headers \<Rightarrow> 'j response + api_key_identity" where
  "auth_middleware J reason sha256_hex auth_required repo hs =
     (if \<not> auth_required then Inr \<lparr>ident_key_id = ''anonymous'', ident_uid = ''anonymous''\<rparr>
      else
        (case extract_api_key J hs of
           None \<Rightarrow> Inl (create_error J reason 401 ''missing_api_key''
             ''Missing API key. Use Authorization: Bearer <token> or x-api-key header.'')
         | Some token \<Rightarrow>
             (case repo (sha256_hex token) of
                Inl e \<Rightarrow> Inl (create_error J reason 500 ''api_key_lookup_failed''
                  ''API key validation service is temporarily unavailable.'')
              | Inr None \<Rightarrow> Inl (create_error J reason 401 ''invalid_api_key''
                  ''Invalid, expired, or inactive API key.'')
              | Inr (Some record) \<Rightarrow> Inr \<lparr>ident_key_id = lk_id record, ident_uid = lk_uid record\<rparr>)))"

section \<open>Request ids\<close>

definition REQUEST_ID_CHARS :: string where
  "REQUEST_ID_CHARS = ''ABCDEFGHIJKLMNOPQRSTUVWXYZabcdefghijklmnopqrstuvwxyz0123456789''"

text \<open>\<open>draws\<close> gives the 24 random indices.\<close>

definition generate_request_id :: "(nat \<Rightarrow> nat) \<Rightarrow> string \<Rightarrow> string" where
  "generate_request_id draws path =
     (let prefix =
            (if str_contains ''/chat/completions'' path then ''chatcmpl-''
             else if str_contains ''/completions'' path then ''cmpl-''
             else if str_contains ''/generate'' path then ''gnt-''
             else if str_contains ''/responses'' path then ''resp-''
             else ''req-'')
      in prefix @ map (\<lambda>i. REQUEST_ID_CHARS ! (draws i mod length REQUEST_ID_CHARS)) [0..<24])"

fun first_header :: "'j lib \<Rightarrow> string list \<Rightarrow> headers \<Rightarrow> string option" where
  "first_header J [] hs = None"
| "first_header J (name # names) hs =
     (case Option.bind (header_get name hs) (hv_to_str J) of
        Some v \<Rightarrow> Some v | None \<Rightarrow> first_header J names hs)"

definition request_id_of :: "'j lib \<Rightarrow> string list \<Rightarrow> (nat \<Rightarrow> nat) \<Rightarrow> headers \<Rightarrow> string \<Rightarrow> string" where
  "request_id_of J names draws hs path =
     (case first_header J names hs of Some v \<Rightarrow> v | None \<Rightarrow> generate_request_id draws path)"

definition add_request_id :: "'j lib \<Rightarrow> string \<Rightarrow> 'j response \<Rightarrow> 'j response" where
  "add_request_id J request_id resp =
     resp\<lparr>resp_headers := header_insert ''x-request-id''
       (case hv_from_str J request_id of Some v \<Rightarrow> v | None \<Rightarrow> ''invalid-request-id'') (resp_headers resp)\<rparr>"

section \<open>Paths in metrics\<close>

definition is_hexdigit :: "char \<Rightarrow> bool" where
  "is_hexdigit c \<longleftrightarrow> is_digit_char c \<or> c \<in> set ''abcdefABCDEF''"

definition is_dynamic_id :: "string \<Rightarrow> bool" where
  "is_dynamic_id s \<longleftrightarrow>
     10 < length s \<and> CHR ''_'' \<in> set s
   \<or> 32 \<le> length s \<and> list_all (\<lambda>b. is_hexdigit b \<or> b = CHR ''-'') s
   \<or> s \<noteq> [] \<and> list_all is_digit_char s"

text \<open>
  The single pass: position, start of the current segment, its index, and the output once something
  has been replaced.
\<close>

record norm_state =
  segment_start :: nat
  segment_idx :: nat
  norm_result :: "string option"

definition norm_step :: "string \<Rightarrow> nat \<Rightarrow> norm_state \<Rightarrow> norm_state" where
  "norm_step path pos st =
     (let b = path ! pos in
      if b = CHR ''/'' \<or> pos = length path - 1 then
        (let segment_end = (if b = CHR ''/'' then pos else pos + 1);
             segment = drop (segment_start st) (take segment_end path);
             r1 = (if 2 < segment_idx st \<and> segment \<noteq> [] \<and> is_dynamic_id segment
                   then Some ((case norm_result st of Some r \<Rightarrow> r | None \<Rightarrow> take (segment_start st) path) @ ''{id}'')
                   else map_option (\<lambda>r. r @ segment) (norm_result st))
         in if b = CHR ''/''
            then \<lparr>segment_start = pos + 1, segment_idx = segment_idx st + 1,
                  norm_result = map_option (\<lambda>r. r @ ''/'') r1\<rparr>
            else st\<lparr>norm_result := r1\<rparr>)
      else st)"

definition normalize_path_for_metrics :: "string \<Rightarrow> string" where
  "normalize_path_for_metrics path =
     (case norm_result (fold (norm_step path) [0..<length path]
             \<lparr>segment_start = 0, segment_idx = 0, norm_result = None\<rparr>) of
        Some r \<Rightarrow> r | None \<Rightarrow> path)"

end
