(* ===== verification/Auth_Spec.thy ===== *)
theory Auth_Spec
  imports Auth Access_Log
begin

text \<open>
  What authentication guarantees: a key file admits exactly the enabled entries, the cached
  repository answers as the database does, and the single pass over a path is the replacement of
  its dynamic segments.
\<close>

section \<open>Key files\<close>

lemma auth_keys_sound:
  "auth_keys env sha es = Inr ks \<Longrightarrow> (h, lk) \<in> set ks \<Longrightarrow>
     \<exists>entry \<in> set es. \<not> rk_disabled entry \<and> key_hash_of env sha entry = Inr h
       \<and> lk = \<lparr>lk_id = rk_id entry, lk_uid = rk_id entry, lk_status = ''active''\<rparr>"
proof (induction es arbitrary: ks)
  case (Cons entry es)
  show ?case
  proof (cases "rk_disabled entry")
    case True
    with Cons show ?thesis by auto
  next
    case False
    with Cons.prems obtain h' ks' where r: "key_hash_of env sha entry = Inr h'" "auth_keys env sha es = Inr ks'"
      "ks = (h', \<lparr>lk_id = rk_id entry, lk_uid = rk_id entry, lk_status = ''active''\<rparr>) # ks'"
      by (auto simp: rbind_eq_Inr_iff)
    with Cons.IH [OF r(2)] Cons.prems(2) False show ?thesis by fastforce
  qed
qed simp

lemma auth_keys_complete:
  "auth_keys env sha es = Inr ks \<Longrightarrow> entry \<in> set es \<Longrightarrow> \<not> rk_disabled entry \<Longrightarrow>
     \<exists>h. key_hash_of env sha entry = Inr h
       \<and> (h, \<lparr>lk_id = rk_id entry, lk_uid = rk_id entry, lk_status = ''active''\<rparr>) \<in> set ks"
  by (induction es arbitrary: ks) (auto simp: rbind_eq_Inr_iff split: if_splits)

definition file_identity ::
    "'j lib \<Rightarrow> (nat \<Rightarrow> string option) \<Rightarrow> (string \<Rightarrow> string) \<Rightarrow> (string \<times> api_key_lookup) list \<Rightarrow> headers
       \<Rightarrow> 'j response + api_key_identity" where
  "file_identity J reason sha256_hex ks hs =
     auth_middleware J reason sha256_hex True
       (\<lambda>h. Inr (cached_find_active_by_hash (cached_reload ks cached_new) h)) hs"

lemma file_identity_Inr:
  "file_identity J reason sha ks hs = Inr ident \<longleftrightarrow>
     (\<exists>token lk. extract_api_key J hs = Some token \<and> map_of (rev ks) (sha token) = Some lk
        \<and> ident = \<lparr>ident_key_id = lk_id lk, ident_uid = lk_uid lk\<rparr>)"
  by (auto simp: file_identity_def auth_middleware_def cached_find_active_by_hash_def cached_reload_def
      split: option.split)

text \<open>
  C28. A loaded key file admits a request exactly when it carries a token whose hash belongs to an
  enabled entry, and the identity is that entry's id; every other request, one with the token of a
  disabled entry included, is answered with 401.
\<close>

theorem key_file_admits_enabled_keys:
  assumes "process_auth env sha raw = Inr ks"
  shows "case file_identity J reason sha ks hs of
           Inr ident \<Rightarrow> (\<exists>token entry. extract_api_key J hs = Some token \<and> entry \<in> set (ra_keys raw)
             \<and> \<not> rk_disabled entry \<and> key_hash_of env sha entry = Inr (sha token)
             \<and> ident = \<lparr>ident_key_id = rk_id entry, ident_uid = rk_id entry\<rparr>)
         | Inl resp \<Rightarrow> status resp = 401
             \<and> (\<forall>token entry. extract_api_key J hs = Some token \<longrightarrow> entry \<in> set (ra_keys raw)
                  \<longrightarrow> \<not> rk_disabled entry \<longrightarrow> key_hash_of env sha entry \<noteq> Inr (sha token))"
proof -
  have ks: "auth_keys env sha (ra_keys raw) = Inr ks"
    using assms by (auto simp: process_auth_def split: if_splits)
  show ?thesis
  proof (cases "file_identity J reason sha ks hs")
    case (Inr ident)
    then obtain token lk where t: "extract_api_key J hs = Some token" "map_of (rev ks) (sha token) = Some lk"
      "ident = \<lparr>ident_key_id = lk_id lk, ident_uid = lk_uid lk\<rparr>" by (auto simp: file_identity_Inr)
    from map_of_SomeD [OF t(2)] have "(sha token, lk) \<in> set ks" by simp
    from auth_keys_sound [OF ks this] t(1,3) Inr show ?thesis by fastforce
  next
    case (Inl resp)
    have "status resp = 401"
      using Inl by (auto simp: file_identity_def auth_middleware_def create_error_def split: option.splits)
    moreover have "key_hash_of env sha entry \<noteq> Inr (sha token)"
      if "extract_api_key J hs = Some token" "entry \<in> set (ra_keys raw)" "\<not> rk_disabled entry" for token entry
    proof
      assume "key_hash_of env sha entry = Inr (sha token)"
      with auth_keys_complete [OF ks that(2,3)] have "sha token \<in> fst ` set (rev ks)" by force
      then obtain lk where "map_of (rev ks) (sha token) = Some lk"
        by (cases "map_of (rev ks) (sha token)") (auto simp: map_of_eq_None_iff)
      with that(1) have "\<exists>ident. file_identity J reason sha ks hs = Inr ident" by (auto simp: file_identity_Inr)
      with Inl show False by simp
    qed
    ultimately show ?thesis using Inl by simp
  qed
qed

definition example_keys :: raw_auth_config where
  "example_keys =
     \<lparr>ra_mode = ''api_key'',
      ra_keys = [\<lparr>rk_id = ''a'', rk_name = None, rk_hash = Some ''h1'', rk_plain = None, rk_disabled = False\<rparr>,
                 \<lparr>rk_id = ''b'', rk_name = None, rk_hash = Some ''h2'', rk_plain = None, rk_disabled = True\<rparr>]\<rparr>"

lemma key_file_admits_enabled_keys_witness:
  "case process_auth Map.empty (\<lambda>t. t) example_keys of
     Inr ks \<Rightarrow> (case file_identity (json_lib (\<lambda>_. None)) (\<lambda>_. None) (\<lambda>t. t) ks [(''x-api-key'', ''h2'')] of
                 Inl resp \<Rightarrow> status resp = 401 | Inr _ \<Rightarrow> False)
   | Inl _ \<Rightarrow> False"
proof -
  let ?J = "json_lib (\<lambda>_. None)"
  obtain ks where ks: "process_auth Map.empty (\<lambda>t. t) example_keys = Inr ks"
    by (simp add: process_auth_def example_keys_def key_hash_of_def)
  have tok: "extract_api_key ?J [(''x-api-key'', ''h2'')] = Some ''h2''"
    by (simp add: extract_api_key_def header_get_def json_lib_def)
  have no: "key_hash_of Map.empty (\<lambda>t. t) entry \<noteq> Inr ''h2''"
    if "entry \<in> set (ra_keys example_keys)" "\<not> rk_disabled entry" for entry
    using that by (auto simp: example_keys_def key_hash_of_def)
  show ?thesis
    using key_file_admits_enabled_keys [OF ks, where J = ?J and reason = "\<lambda>_. None" and hs = "[(''x-api-key'', ''h2'')]"]
      ks tok no
    by (auto split: sum.splits)
qed

section \<open>Repositories\<close>

lemma map_of_rev_unique:
  assumes "distinct (map fst xs)"
  shows "map_of (rev xs) k = map_of xs k"
proof -
  have "distinct (map fst (rev xs))" using assms by (simp add: rev_map [symmetric])
  then show ?thesis using assms by (metis map_of_eqI set_rev map_of_is_SomeI map_of_SomeD dom_map_of_conv_image_fst
        domIff not_None_eq map_of_inject_set)
qed

text \<open>
  When the hashes of the active keys are distinct, the cached repository, reloaded from the
  table, answers every lookup exactly as the per-request query on that table does.
\<close>

lemma cached_keys_agree_with_table:
  assumes "distinct (map row_key_hash (filter (row_active now) rows))"
  shows "cached_find_active_by_hash (cached_reload (find_all_active now rows) cache) h
       = sql_find_active_by_hash now rows h"
proof -
  let ?entry = "\<lambda>row. (row_key_hash row, \<lparr>lk_id = row_id row, lk_uid = row_uid row, lk_status = ''active''\<rparr>)"
  have d: "distinct (map fst (find_all_active now rows))"
    using assms by (simp add: find_all_active_def comp_def)
  have "map_of (find_all_active now rows) h = sql_find_active_by_hash now rows h"
    by (induction rows) (auto simp: find_all_active_def sql_find_active_by_hash_def row_active_def)
  with map_of_rev_unique [OF d] show ?thesis
    by (simp add: cached_find_active_by_hash_def cached_reload_def)
qed

lemma cached_keys_agree_with_table_witness:
  "let rows = [\<lparr>row_id = ''1'', row_uid = ''u'', row_key_hash = ''h'', row_status = ''revoked'', row_expires_at = None\<rparr>,
               \<lparr>row_id = ''2'', row_uid = ''v'', row_key_hash = ''h'', row_status = ''active'', row_expires_at = Some 9\<rparr>]
   in cached_find_active_by_hash (cached_reload (find_all_active 5 rows) cached_new) ''h''
        = Some \<lparr>lk_id = ''2'', lk_uid = ''v'', lk_status = ''active''\<rparr>"
  using cached_keys_agree_with_table [of 5
    "[\<lparr>row_id = ''1'', row_uid = ''u'', row_key_hash = ''h'', row_status = ''revoked'', row_expires_at = None\<rparr>,
      \<lparr>row_id = ''2'', row_uid = ''v'', row_key_hash = ''h'', row_status = ''active'', row_expires_at = Some 9\<rparr>]"
    cached_new "''h''"]
  by (simp add: row_active_def sql_find_active_by_hash_def)

section \<open>Paths in metrics\<close>

fun join_slash :: "string list \<Rightarrow> string" where
  "join_slash [] = []"
| "join_slash [s] = s"
| "join_slash (s # t # ss) = s @ ''/'' @ join_slash (t # ss)"

fun replace_ids :: "nat \<Rightarrow> string list \<Rightarrow> string list" where
  "replace_ids i [] = []"
| "replace_ids i (s # ss) = (if 2 < i \<and> is_dynamic_id s then ''{id}'' else s) # replace_ids (Suc i) ss"

lemma replace_ids_eq_Nil [simp]: "replace_ids i ss = [] \<longleftrightarrow> ss = []"
  by (cases ss) auto

lemma join_slash_Cons: "ss \<noteq> [] \<Longrightarrow> join_slash (s # ss) = s @ ''/'' @ join_slash ss"
  by (cases ss) simp_all

lemma is_dynamic_id_Nil [simp]: "\<not> is_dynamic_id []"
  by (simp add: is_dynamic_id_def)

text \<open>Inside a segment the pass does nothing.\<close>

lemma norm_step_inside:
  assumes "\<forall>pos \<in> set ps. path ! pos \<noteq> CHR ''/'' \<and> pos \<noteq> length path - 1"
  shows "fold (norm_step path) ps st = st"
  using assms by (induction ps arbitrary: st) (simp_all add: norm_step_def Let_def)

lemma segment_nth:
  assumes "CHR ''/'' \<notin> set seg" "length whole \<le> pos" "pos < length whole + length seg"
  shows "(whole @ seg @ t) ! pos \<noteq> CHR ''/''"
proof -
  have "(whole @ seg @ t) ! pos = seg ! (pos - length whole)"
    using assms(2,3) less_diff_conv2 [OF assms(2), of "length seg"] by (simp add: nth_append add.commute)
  moreover have "seg ! (pos - length whole) \<in> set seg" using assms(2,3) by (intro nth_mem) simp
  ultimately show ?thesis using assms(1) by metis
qed

definition norm_out :: "string \<Rightarrow> norm_state \<Rightarrow> string" where
  "norm_out whole st = (case norm_result st of Some r \<Rightarrow> r | None \<Rightarrow> whole)"

lemma upt_split: "i \<le> j \<Longrightarrow> j < k \<Longrightarrow> [i..<k] = [i..<j] @ j # [Suc j..<k]"
  using upt_add_eq_append [of i j "k - j"] by (simp add: upt_conv_Cons)

lemma norm_pass:
  assumes "path = whole @ rest" "segment_start st = length whole"
  shows "norm_out path (fold (norm_step path) [length whole..<length path] st)
       = norm_out whole st @ join_slash (replace_ids (segment_idx st) (split_slash rest))"
  using assms
proof (induction "length rest" arbitrary: whole rest st rule: less_induct)
  case less
  show ?case
  proof (cases "CHR ''/'' \<in> set rest")
    case True
    then obtain seg t where r: "rest = seg @ CHR ''/'' # t" "CHR ''/'' \<notin> set seg"
      by (auto dest: split_list_first)
    let ?p = "length whole + length seg"
    have path: "path = whole @ seg @ CHR ''/'' # t" using less.prems(1) r(1) by simp
    have at: "path ! ?p = CHR ''/''" by (simp add: path nth_append)
    have idx: "[length whole..<length path] = [length whole..<?p] @ ?p # [Suc ?p..<length path]"
      by (rule upt_split) (simp_all add: path)
    have inside: "fold (norm_step path) [length whole..<?p] st = st"
    proof (rule norm_step_inside, intro ballI conjI)
      fix pos assume pos: "pos \<in> set [length whole..<?p]"
      then show "path ! pos \<noteq> CHR ''/''" unfolding path by (intro segment_nth [OF r(2)]) simp_all
      from pos show "pos \<noteq> length path - 1" by (simp add: path)
    qed
    have ne: "is_dynamic_id seg \<longrightarrow> seg \<noteq> []" by auto
    have seg: "drop (segment_start st) (take ?p path) = seg"
      by (simp add: path less.prems(2))
    let ?st = "norm_step path ?p st"
    let ?whole = "whole @ seg @ ''/''"
    have "segment_start ?st = length ?whole" "segment_idx ?st = Suc (segment_idx st)"
      "norm_out ?whole ?st = norm_out whole st
         @ (if 2 < segment_idx st \<and> is_dynamic_id seg then ''{id}'' else seg) @ ''/''"
      by (simp_all add: norm_step_def Let_def at seg norm_out_def less.prems(2) ne split: option.split)
        (use ne in \<open>auto simp: path\<close>)
    moreover have "norm_out path (fold (norm_step path) [length ?whole..<length path] ?st)
        = norm_out ?whole ?st @ join_slash (replace_ids (segment_idx ?st) (split_slash t))"
      by (rule less.hyps) (use less.prems r calculation in simp_all)
    ultimately show ?thesis
      using r by (simp add: idx inside split_slash_segment join_slash_Cons)
  next
    case False
    show ?thesis
    proof (cases "rest = []")
      case True
      with less.prems show ?thesis by (simp add: norm_out_def)
    next
      case ne: False
      let ?p = "length path - 1"
      have idx: "[length whole..<length path] = [length whole..<?p] @ [?p]"
        using upt_split [of "length whole" ?p "length path"] ne by (cases rest) (simp_all add: less.prems(1))
      have inside: "fold (norm_step path) [length whole..<?p] st = st"
      proof (rule norm_step_inside, intro ballI conjI)
        fix pos assume pos: "pos \<in> set [length whole..<?p]"
        then have "length whole \<le> pos" "pos < length whole + length rest" by (auto simp: less.prems(1))
        then show "path ! pos \<noteq> CHR ''/''"
          using segment_nth [OF False, of whole pos "[]"] by (simp add: less.prems(1))
        from pos show "pos \<noteq> length path - 1" by simp
      qed
      have at: "path ! ?p \<noteq> CHR ''/''"
        using segment_nth [OF False, of whole ?p "[]"] ne by (cases rest) (simp_all add: less.prems(1))
      have seg: "drop (segment_start st) (take (?p + 1) path) = rest" "take (segment_start st) path = whole"
        using ne by (simp_all add: less.prems)
      have "fold (norm_step path) [length whole..<length path] st = norm_step path ?p st"
        unfolding idx fold_append comp_def inside by simp
      moreover have "norm_out path (norm_step path ?p st)
          = norm_out whole st @ (if 2 < segment_idx st \<and> is_dynamic_id rest then ''{id}'' else rest)"
        using ne at seg less.prems(1) by (auto simp: norm_step_def Let_def norm_out_def split: option.split)
      ultimately show ?thesis by (simp add: split_slash_plain [OF False])
    qed
  qed
qed

text \<open>
  The single pass over a request path is the replacement it stands for: split at slashes, every
  segment after the third that looks like an id becomes \<open>{id}\<close>, and everything else, empty segments
  and a trailing slash included, stays.
\<close>

lemma normalize_path_replaces_ids:
  "normalize_path_for_metrics path = join_slash (replace_ids 0 (split_slash path))"
  using norm_pass [of path "[]" path "\<lparr>segment_start = 0, segment_idx = 0, norm_result = None\<rparr>"]
  by (simp add: normalize_path_for_metrics_def norm_out_def)

end
