(* ===== verification/Admission.thy ===== *)
theory Admission
  imports Router Auth
begin

text \<open>
  Admission: the quota overrides of \<^verbatim>\<open>server/src/quota_config.rs\<close> and
  \<^verbatim>\<open>server/src/db/quota_store.rs\<close>, and \<open>check_rate_limits\<close> of
  \<^verbatim>\<open>server/src/server.rs\<close> with the response and the log record of a rejection.
  The clock readings of the (at most six) limiter calls are an argument.
\<close>

section \<open>Quota overrides\<close>

record key_quota =
  key_rpm :: "u32 option"
  key_tpm :: "u32 option"

record raw_api_key_quota = key_quota +
  rq_api_key_id :: string
  rq_model_id :: string

type_synonym quota_store = "string \<times> string \<Rightarrow> key_quota option"

definition quota_store_new :: quota_store where
  "quota_store_new = Map.empty"

definition quota_reload :: "raw_api_key_quota list \<Rightarrow> quota_store \<Rightarrow> quota_store" where
  "quota_reload entries qs = map_of (rev (map (\<lambda>q. ((rq_api_key_id q, rq_model_id q), key_quota.truncate q)) entries))"

definition quota_get :: "quota_store \<Rightarrow> string \<Rightarrow> string \<Rightarrow> key_quota option" where
  "quota_get qs api_key_id mid = qs (api_key_id, mid)"

text \<open>A row: key, model, and the two \<open>i64\<close> columns, which the code casts with \<open>as u32\<close>.\<close>

definition load_all_quota_overrides ::
    "(string \<times> string \<times> int option \<times> int option) list \<Rightarrow> raw_api_key_quota list" where
  "load_all_quota_overrides rows =
     map (\<lambda>(kid, mid, rpm, tpm). \<lparr>key_rpm = map_option word_of_int rpm, key_tpm = map_option word_of_int tpm,
            rq_api_key_id = kid, rq_model_id = mid\<rparr>) rows"

section \<open>Rejections\<close>

definition rate_limit_response :: "'j lib \<Rightarrow> string \<Rightarrow> u32 \<Rightarrow> u64 \<Rightarrow> 'j response" where
  "rate_limit_response J dimension limit retry_after_secs =
     \<lparr>status = 429,
      resp_headers = (case hv_from_str J (show_nat (unat retry_after_secs)) of
                        Some v \<Rightarrow> [(''retry-after'', v)] | None \<Rightarrow> []),
      body = BodyJson (j_obj J [(''error'', j_obj J
        [(''type'', j_str J ''rate_limit_exceeded''),
         (''code'', j_str J (dimension @ ''_limit_exceeded'')),
         (''message'', j_str J (ascii_upper dimension @ '' limit of '' @ show_nat (unat limit)
            @ '' exceeded. Please retry after '' @ show_nat (unat retry_after_secs) @ '' seconds.''))])])\<rparr>"

definition rl_record :: "int \<Rightarrow> string \<Rightarrow> string \<Rightarrow> string \<Rightarrow> string \<Rightarrow> access_log_record" where
  "rl_record ts req_id api_key_id mid endpoint =
     \<lparr>rec_ts = ts, rec_request_id = req_id, rec_api_key_id = api_key_id, rec_model = mid,
      rec_endpoint = endpoint, rec_provider_url = '''', rec_provider_node_id = '''',
      rec_upstream_model = '''', rec_status_code = 429, rec_latency_ms = 0, rec_streaming = False,
      rec_ttft_ms = 0, rec_tpot_ms = Num 0, rec_prompt_tokens = 0, rec_completion_tokens = 0,
      rec_total_tokens = 0, rec_finish_reason = ''''\<rparr>"

definition emit_rl_log :: "int \<Rightarrow> string \<Rightarrow> string \<Rightarrow> string \<Rightarrow> string \<Rightarrow> ('s, 'j) world \<Rightarrow> ('s, 'j) world" where
  "emit_rl_log ts req_id api_key_id mid endpoint w =
     w\<lparr>w_sink := try_send (rl_record ts req_id api_key_id mid endpoint) (w_sink w)\<rparr>"

section \<open>Checks\<close>

text \<open>
  One check of a hard limit: nothing when the limit is not configured, the next check when it
  allows, and the rejection otherwise.
\<close>

definition hard_limit ::
    "'j lib \<Rightarrow> string \<Rightarrow> u32 option \<Rightarrow> (u32 \<Rightarrow> 's \<Rightarrow> rate_limit_decision \<times> 's)
       \<Rightarrow> ('s \<Rightarrow> ('j response + 'a) \<times> 's) \<Rightarrow> 's \<Rightarrow> ('j response + 'a) \<times> 's" where
  "hard_limit J dimension limit check k s =
     (case limit of
        None \<Rightarrow> k s
      | Some l \<Rightarrow>
          (case check l s of
             (Denied retry_after_secs, s') \<Rightarrow> (Inl (rate_limit_response J dimension l retry_after_secs), s')
           | (Allow, s') \<Rightarrow> k s'))"

text \<open>The four limits a model has, with the quota override taking precedence for the key's.\<close>

definition effective_limits :: "quota_store \<Rightarrow> registry \<Rightarrow> string \<Rightarrow> string \<Rightarrow> model_limits" where
  "effective_limits qs r api_key_id mid =
     (case get_rate_limits mid r of
        (default_key_rpm, default_key_tpm, model_rpm, model_tpm) \<Rightarrow>
          (let quota = quota_get qs api_key_id mid;
               k_rpm = (case Option.bind quota key_rpm of Some l \<Rightarrow> Some l | None \<Rightarrow> default_key_rpm);
               k_tpm = (case Option.bind quota key_tpm of Some l \<Rightarrow> Some l | None \<Rightarrow> default_key_tpm)
           in (k_rpm, k_tpm, model_rpm, model_tpm)))"

text \<open>The primary tier: 1 when one of its capacities is used up, else 0.\<close>

definition primary_priority ::
    "'s limiter_ops \<Rightarrow> (nat \<Rightarrow> int) \<Rightarrow> rate_limit_key \<Rightarrow> u32 option \<Rightarrow> u32 option \<Rightarrow> 's \<Rightarrow> u8 \<times> 's" where
  "primary_priority L now primary_key cap_rpm cap_tpm s =
     (let (p1, s1) = (case cap_rpm of
                        Some l \<Rightarrow> (case check_rpm L (now 4) primary_key l s of
                                    (Denied _, s') \<Rightarrow> (1, s') | (Allow, s') \<Rightarrow> (0, s'))
                      | None \<Rightarrow> (0, s))
      in if p1 = 0
         then (case cap_tpm of
                 Some l \<Rightarrow> (case check_tpm L (now 5) primary_key l s1 of
                             (Denied _, s') \<Rightarrow> (1, s') | (Allow, s') \<Rightarrow> (0, s'))
               | None \<Rightarrow> (0, s1))
         else (p1, s1))"

definition check_rate_limits ::
    "'j lib \<Rightarrow> 's limiter_ops option \<Rightarrow> quota_store \<Rightarrow> registry \<Rightarrow> (nat \<Rightarrow> int) \<Rightarrow> string \<Rightarrow> string \<Rightarrow> string
       \<Rightarrow> 's \<Rightarrow> ('j response + rate_limit_ctx option \<times> u8) \<times> 's" where
  "check_rate_limits J limiter qs r now api_key_id mid protocol s =
     (case limiter of
        None \<Rightarrow> (Inr (None, 0), s)
      | Some L \<Rightarrow>
          (case effective_limits qs r api_key_id mid of
             (k_rpm, k_tpm, m_rpm, m_tpm) \<Rightarrow>
          (case get_primary_capacity mid protocol r of
             (cap_rpm, cap_tpm) \<Rightarrow>
               (if k_rpm = None \<and> k_tpm = None \<and> m_rpm = None \<and> m_tpm = None \<and> cap_rpm = None \<and> cap_tpm = None
                then (Inr (None, 0), s)
                else
                  (let model_key = ModelBucket mid;
                       key_model_key = KeyModel api_key_id mid
                   in hard_limit J ''key_tpm'' k_tpm (check_tpm L (now 0) key_model_key)
                     (hard_limit J ''model_tpm'' m_tpm (check_tpm L (now 1) model_key)
                       (hard_limit J ''key_rpm'' k_rpm (check_rpm L (now 2) key_model_key)
                         (hard_limit J ''model_rpm'' m_rpm (check_rpm L (now 3) model_key)
                           (\<lambda>s. case primary_priority L now (PrimaryTier mid protocol) cap_rpm cap_tpm s of
                              (min_priority, s') \<Rightarrow>
                                (let rk = (k_tpm \<noteq> None); rm = (m_tpm \<noteq> None);
                                     rp = (cap_tpm \<noteq> None \<and> min_priority = 0)
                                 in (Inr (if rk \<or> rm \<or> rp
                                          then Some \<lparr>ctx_model_id = mid, ctx_protocol = protocol, record_key_tpm = rk,
                                                     record_model_tpm = rm, record_primary_tpm = rp\<rparr>
                                          else None, min_priority), s')))))) s)))))"

end
