(* ===== verification/Admission_Spec.thy ===== *)
theory Admission_Spec
  imports Admission Rate_Limit_Memory
begin

text \<open>
  What admission does to the counters of a limiter, proved once from the limiter's contract (locale
  \<open>rate_limiter\<close>) and stated for the in-memory limiter.
\<close>

definition has_room :: "nat \<Rightarrow> u32 option \<Rightarrow> bool" where
  "has_room used limit \<longleftrightarrow> (case limit of None \<Rightarrow> True | Some l \<Rightarrow> used < unat l)"

lemma has_room_None [simp]: "has_room used None" and has_room_Some [simp]: "has_room used (Some l) = (used < unat l)"
  by (simp_all add: has_room_def)

text \<open>The buckets of one request never coincide.\<close>

lemma request_buckets_distinct:
  "bucket_name (KeyModel kid mid) \<noteq> bucket_name (ModelBucket mid')"
  "bucket_name (KeyModel kid mid) \<noteq> bucket_name (PrimaryTier mid' proto)"
  "bucket_name (ModelBucket mid) \<noteq> bucket_name (PrimaryTier mid proto)"
  by auto

context rate_limiter
begin

text \<open>From \<open>s\<close> to \<open>s'\<close> the request counts of the window grew by \<open>d\<close> and the token sums stayed.\<close>

definition counted :: "int \<Rightarrow> (string \<Rightarrow> nat) \<Rightarrow> 's \<Rightarrow> 's \<Rightarrow> bool" where
  "counted now d s s' \<longleftrightarrow>
     room 0 s' \<and> (\<forall>b. rpm_used now b s' = rpm_used now b s + d b \<and> tpm_used now b s' = tpm_used now b s)"

lemma counted_trans:
  "counted now d s s' \<Longrightarrow> counted now d' s' s'' \<Longrightarrow> counted now (\<lambda>b. d b + d' b) s s''"
  by (simp add: counted_def)

lemma check_tpm_counted: "room 0 s \<Longrightarrow> counted now (\<lambda>_. 0) s (snd (check_tpm L now k l s))"
  by (simp add: counted_def check_tpm_frame room_ops)

lemma check_rpm_counted:
  "room 0 s \<Longrightarrow>
     counted now (\<lambda>b. if b = bucket_name k \<and> rpm_used now b s < unat l then 1 else 0) s (snd (check_rpm L now k l s))"
  by (simp add: counted_def check_rpm_used check_rpm_tpm room_ops)

text \<open>One hard limit: it rejects and counts nothing, or passes on.\<close>

lemma hard_limit_tpm:
  assumes "hard_limit J dim l (check_tpm L now k) rest s = (res, s')" "room 0 s"
  shows "(\<exists>resp. res = Inl resp \<and> status resp = 429 \<and> \<not> has_room (tpm_used now (bucket_name k) s) l
            \<and> counted now (\<lambda>_. 0) s s')
       \<or> (\<exists>s1. rest s1 = (res, s') \<and> has_room (tpm_used now (bucket_name k) s) l \<and> counted now (\<lambda>_. 0) s s1)"
proof (cases l)
  case None
  with assms show ?thesis by (auto simp: hard_limit_def counted_def)
next
  case (Some v)
  obtain d s1 where c: "check_tpm L now k v s = (d, s1)" by force
  have "counted now (\<lambda>_. 0) s s1" using check_tpm_counted [OF assms(2), of now k v] c by simp
  moreover have "d = (if tpm_used now (bucket_name k) s < unat v then Allow else Denied (retry s))"
    using check_tpm_decision [OF assms(2), of now k v] c by simp
  ultimately show ?thesis
    using assms(1) Some c by (auto simp: hard_limit_def rate_limit_response_def split: if_splits)
qed

lemma hard_limit_rpm:
  assumes "hard_limit J dim l (check_rpm L now k) rest s = (res, s')" "room 0 s"
  shows "(\<exists>resp. res = Inl resp \<and> status resp = 429 \<and> \<not> has_room (rpm_used now (bucket_name k) s) l
            \<and> counted now (\<lambda>_. 0) s s')
       \<or> (\<exists>s1. rest s1 = (res, s') \<and> has_room (rpm_used now (bucket_name k) s) l
            \<and> counted now (\<lambda>b. if l \<noteq> None \<and> b = bucket_name k then 1 else 0) s s1)"
proof (cases l)
  case None
  with assms show ?thesis by (auto simp: hard_limit_def counted_def)
next
  case (Some v)
  obtain d s1 where c: "check_rpm L now k v s = (d, s1)" by force
  have cnt: "counted now (\<lambda>b. if b = bucket_name k \<and> rpm_used now b s < unat v then 1 else 0) s s1"
    using check_rpm_counted [OF assms(2), of now k v] c by simp
  have d: "d = (if rpm_used now (bucket_name k) s < unat v then Allow else Denied (retry s))"
    using check_rpm_decision [OF assms(2), of now k v] c by simp
  show ?thesis
  proof (cases "rpm_used now (bucket_name k) s < unat v")
    case True
    then have "(\<lambda>b. if b = bucket_name k \<and> rpm_used now b s < unat v then 1 else 0)
        = (\<lambda>b. if l \<noteq> None \<and> b = bucket_name k then 1 else (0::nat))" using Some by auto
    with assms(1) Some c cnt d True show ?thesis by (auto simp: hard_limit_def)
  next
    case False
    then have "(\<lambda>b. if b = bucket_name k \<and> rpm_used now b s < unat v then 1 else 0) = (\<lambda>_. 0::nat)" by auto
    with assms(1) Some c cnt d False show ?thesis by (auto simp: hard_limit_def rate_limit_response_def)
  qed
qed

text \<open>The same relative to an earlier state.\<close>

lemma later_tpm:
  assumes "hard_limit J dim l (check_tpm L now k) rest s = (res, s')" "counted now d s0 s"
  shows "(\<exists>resp. res = Inl resp \<and> status resp = 429 \<and> \<not> has_room (tpm_used now (bucket_name k) s0) l
            \<and> counted now d s0 s')
       \<or> (\<exists>s1. rest s1 = (res, s') \<and> has_room (tpm_used now (bucket_name k) s0) l \<and> counted now d s0 s1)"
proof -
  have room: "room 0 s" "tpm_used now (bucket_name k) s = tpm_used now (bucket_name k) s0"
    using assms(2) by (auto simp: counted_def)
  have "counted now (\<lambda>_. 0) s s'' \<Longrightarrow> counted now d s0 s''" for s''
    using counted_trans [OF assms(2)] by fastforce
  with hard_limit_tpm [OF assms(1) room(1)] room(2) show ?thesis by auto
qed

lemma later_rpm:
  assumes "hard_limit J dim l (check_rpm L now k) rest s = (res, s')" "counted now d s0 s" "d (bucket_name k) = 0"
  shows "(\<exists>resp. res = Inl resp \<and> status resp = 429 \<and> \<not> has_room (rpm_used now (bucket_name k) s0) l
            \<and> counted now d s0 s')
       \<or> (\<exists>s1. rest s1 = (res, s') \<and> has_room (rpm_used now (bucket_name k) s0) l
            \<and> counted now (\<lambda>b. d b + (if l \<noteq> None \<and> b = bucket_name k then 1 else 0)) s0 s1)"
proof -
  have room: "room 0 s" "rpm_used now (bucket_name k) s = rpm_used now (bucket_name k) s0"
    using assms(2,3) by (auto simp: counted_def)
  have "counted now (\<lambda>_. 0) s s'' \<Longrightarrow> counted now d s0 s''" for s''
    using counted_trans [OF assms(2)] by fastforce
  with hard_limit_rpm [OF assms(1) room(1)] room(2) counted_trans [OF assms(2)] show ?thesis by auto
qed

lemma primary_priority_counted:
  assumes "primary_priority L (\<lambda>_. now) k cap_rpm cap_tpm s = (p, s')" "room 0 s"
  shows "p = (if has_room (rpm_used now (bucket_name k) s) cap_rpm \<and> has_room (tpm_used now (bucket_name k) s) cap_tpm
              then 0 else 1)
       \<and> counted now (\<lambda>b. if cap_rpm \<noteq> None \<and> has_room (rpm_used now (bucket_name k) s) cap_rpm \<and> b = bucket_name k
                          then 1 else 0) s s'"
proof -
  define rp where "rp = (case cap_rpm of
      Some l \<Rightarrow> (case check_rpm L now k l s of (Denied _, s') \<Rightarrow> (1, s') | (Allow, s') \<Rightarrow> (0, s'))
    | None \<Rightarrow> (0::u8, s))"
  obtain p1 s1 where rp1: "rp = (p1, s1)" by force
  have r: "p1 = (if has_room (rpm_used now (bucket_name k) s) cap_rpm then 0 else 1)
      \<and> counted now (\<lambda>b. if cap_rpm \<noteq> None \<and> has_room (rpm_used now (bucket_name k) s) cap_rpm \<and> b = bucket_name k
                          then 1 else 0) s s1"
  proof (cases cap_rpm)
    case None
    with rp1 assms(2) show ?thesis by (simp add: rp_def counted_def)
  next
    case (Some l)
    have "(\<lambda>b. if b = bucket_name k \<and> rpm_used now b s < unat l then 1 else 0)
        = (\<lambda>b. if rpm_used now (bucket_name k) s < unat l \<and> b = bucket_name k then 1 else (0::nat))" by auto
    with Some rp1 check_rpm_counted [OF assms(2), of now k l] check_rpm_decision [OF assms(2), of now k l]
    show ?thesis by (auto simp: rp_def split: prod.splits if_splits)
  qed
  then have room1: "room 0 s1" and used: "tpm_used now b s1 = tpm_used now b s" for b
    by (auto simp: counted_def)
  have res: "(p, s') = (if p1 = 0
      then (case cap_tpm of
              Some l \<Rightarrow> (case check_tpm L now k l s1 of (Denied _, s') \<Rightarrow> (1, s') | (Allow, s') \<Rightarrow> (0, s'))
            | None \<Rightarrow> (0, s1))
      else (p1, s1))"
    using assms(1) by (simp add: primary_priority_def rp_def [symmetric] rp1)
  show ?thesis
  proof (cases "p1 = 0 \<and> cap_tpm \<noteq> None")
    case True
    then obtain l where l: "cap_tpm = Some l" "p1 = 0" by auto
    note c = check_tpm_counted [OF room1, of now k l]
    have "s' = snd (check_tpm L now k l s1)" "p = (if tpm_used now (bucket_name k) s < unat l then 0 else 1)"
      using res l check_tpm_decision [OF room1, of now k l] used by (auto split: prod.splits if_splits)
    with r l counted_trans [OF conjunct2 [OF r] c] show ?thesis by (auto split: if_splits)
  next
    case False
    with r res show ?thesis by (auto split: if_splits)
  qed
qed

lemma admission:
  fixes J :: "'j lib"
  assumes "check_rate_limits J (Some L) qs r (\<lambda>_. now) kid mid proto s = (res, s')" "room 0 s"
    and "effective_limits qs r kid mid = (k_rpm, k_tpm, m_rpm, m_tpm)"
    and "get_primary_capacity mid proto r = (cap_rpm, cap_tpm)"
    and "kb = bucket_name (KeyModel kid mid)" "mb = bucket_name (ModelBucket mid)"
    and "pb = bucket_name (PrimaryTier mid proto)"
    and "ok = (has_room (tpm_used now kb s) k_tpm \<and> has_room (tpm_used now mb s) m_tpm
             \<and> has_room (rpm_used now kb s) k_rpm \<and> has_room (rpm_used now mb s) m_rpm)"
  shows "case res of
           Inl resp \<Rightarrow> \<not> ok \<and> status resp = 429
             \<and> (\<exists>n. n \<le> 1 \<and> counted now (\<lambda>b. if b = kb then n else 0) s s')
         | Inr (rl, p) \<Rightarrow> ok
             \<and> p = (if has_room (rpm_used now pb s) cap_rpm \<and> has_room (tpm_used now pb s) cap_tpm then 0 else 1)
             \<and> counted now (\<lambda>b. (if k_rpm \<noteq> None \<and> b = kb then 1 else 0) + (if m_rpm \<noteq> None \<and> b = mb then 1 else 0)
                 + (if cap_rpm \<noteq> None \<and> has_room (rpm_used now pb s) cap_rpm \<and> b = pb then 1 else 0)) s s'"
proof (cases "k_rpm = None \<and> k_tpm = None \<and> m_rpm = None \<and> m_tpm = None \<and> cap_rpm = None \<and> cap_tpm = None")
  case True
  with assms(1,3,4) have "res = Inr (None, 0)" "s' = s" by (simp_all add: check_rate_limits_def)
  with True assms(2,8) show ?thesis by (simp add: counted_def)
next
  case False
  define fin :: "'s \<Rightarrow> ('j response + rate_limit_ctx option \<times> u8) \<times> 's" where "fin = (\<lambda>s. case primary_priority L (\<lambda>_. now) (PrimaryTier mid proto) cap_rpm cap_tpm s of
      (min_priority, s') \<Rightarrow>
        (let rk = (k_tpm \<noteq> None); rm = (m_tpm \<noteq> None); rp = (cap_tpm \<noteq> None \<and> min_priority = 0)
         in (Inr (if rk \<or> rm \<or> rp
                  then Some \<lparr>ctx_model_id = mid, ctx_protocol = proto, record_key_tpm = rk,
                             record_model_tpm = rm, record_primary_tpm = rp\<rparr>
                  else None, min_priority), s')))"
  have run: "hard_limit J ''key_tpm'' k_tpm (check_tpm L now (KeyModel kid mid))
      (hard_limit J ''model_tpm'' m_tpm (check_tpm L now (ModelBucket mid))
        (hard_limit J ''key_rpm'' k_rpm (check_rpm L now (KeyModel kid mid))
          (hard_limit J ''model_rpm'' m_rpm (check_rpm L now (ModelBucket mid)) fin))) s = (res, s')"
    using assms(1) False unfolding check_rate_limits_def assms(3,4) fin_def by (simp add: Let_def)
  have dist: "mb \<noteq> kb" "kb \<noteq> pb" "mb \<noteq> pb"
    unfolding assms(5-7) using request_buckets_distinct by metis+
  have start: "counted now (\<lambda>_. 0) s s" using assms(2) by (simp add: counted_def)
  have zero: "counted now (\<lambda>_. 0) s s'' \<Longrightarrow> \<exists>n. n \<le> 1 \<and> counted now (\<lambda>b. if b = kb then n else 0) s s''" for s''
    by (intro exI [of _ 0]) simp
  note stage = assms(5,6) [symmetric]
  let ?d = "\<lambda>b. if k_rpm \<noteq> None \<and> b = kb then 1 else (0::nat)"
  have one: "counted now ?d s s'' \<Longrightarrow> \<exists>n. n \<le> 1 \<and> counted now (\<lambda>b. if b = kb then n else 0) s s''" for s''
    by (cases k_rpm) (auto intro: exI [of _ 0] exI [of _ 1])
  from later_tpm [OF run start] show ?thesis
  proof (elim disjE exE conjE; unfold stage)
    fix s1 assume kt: "has_room (tpm_used now kb s) k_tpm" and c1: "counted now (\<lambda>_. 0) s s1"
      and run1: "hard_limit J ''model_tpm'' m_tpm (check_tpm L now (ModelBucket mid))
        (hard_limit J ''key_rpm'' k_rpm (check_rpm L now (KeyModel kid mid))
          (hard_limit J ''model_rpm'' m_rpm (check_rpm L now (ModelBucket mid)) fin)) s1 = (res, s')"
    from later_tpm [OF run1 c1] show ?thesis
    proof (elim disjE exE conjE; unfold stage)
      fix s2 assume mt: "has_room (tpm_used now mb s) m_tpm" and c2: "counted now (\<lambda>_. 0) s s2"
        and run2: "hard_limit J ''key_rpm'' k_rpm (check_rpm L now (KeyModel kid mid))
          (hard_limit J ''model_rpm'' m_rpm (check_rpm L now (ModelBucket mid)) fin) s2 = (res, s')"
      from later_rpm [OF run2 c2 refl] show ?thesis
      proof (elim disjE exE conjE; unfold stage)
        fix s3 assume kr: "has_room (rpm_used now kb s) k_rpm"
          and c3: "counted now (\<lambda>b. 0 + (if k_rpm \<noteq> None \<and> b = kb then 1 else 0)) s s3"
          and run3: "hard_limit J ''model_rpm'' m_rpm (check_rpm L now (ModelBucket mid)) fin s3 = (res, s')"
        have c3': "counted now ?d s s3" using c3 by simp
        have "?d (bucket_name (ModelBucket mid)) = 0" using dist(1) unfolding stage by simp
        from later_rpm [OF run3 c3' this] show ?thesis
        proof (elim disjE exE conjE; unfold stage)
          fix s4 assume mr: "has_room (rpm_used now mb s) m_rpm"
            and c4: "counted now (\<lambda>b. ?d b + (if m_rpm \<noteq> None \<and> b = mb then 1 else 0)) s s4"
            and run4: "fin s4 = (res, s')"
          obtain p s5 where p: "primary_priority L (\<lambda>_. now) (PrimaryTier mid proto) cap_rpm cap_tpm s4 = (p, s5)" by force
          have room4: "room 0 s4" "rpm_used now pb s4 = rpm_used now pb s" "tpm_used now pb s4 = tpm_used now pb s"
            using c4 dist by (auto simp: counted_def)
          note pp = primary_priority_counted [OF p room4(1), folded assms(7), unfolded room4(2,3)]
          have "s' = s5" "\<exists>rl. res = Inr (rl, p)" using run4 p by (auto simp: fin_def Let_def)
          with pp counted_trans [OF c4 conjunct2 [OF pp]] kt mt kr mr assms(8) show ?thesis by auto
        qed (use one assms(8) in simp)
      qed (use zero assms(8) in simp)
    qed (use zero assms(8) in simp)
  qed (use zero assms(8) in simp)
qed

end

section \<open>Properties\<close>

text \<open>
  C3. Admission with the in-memory limiter, at one clock reading.  A request is admitted exactly when
  every hard limit configured for it has room, and then takes one place of the key's and of the
  model's request window where these are limited, and one of the primary tier's where its capacity
  has room; it is sent past the primary tier exactly when one of that tier's capacities is used up.
  A rejected request gets 429 and takes at most one place of its own key's window; the shared
  windows are untouched.  No token sum changes either way.
\<close>

theorem admission_counts:
  assumes "mem_room 0 s" "check_rate_limits J (Some mem_ops) qs r (\<lambda>_. now) kid mid proto s = (res, s')"
    and "effective_limits qs r kid mid = (k_rpm, k_tpm, m_rpm, m_tpm)"
    and "get_primary_capacity mid proto r = (cap_rpm, cap_tpm)"
    and "kb = bucket_name (KeyModel kid mid)" "mb = bucket_name (ModelBucket mid)"
    and "pb = bucket_name (PrimaryTier mid proto)"
  shows "let ok = (has_room (mem_tpm_used now kb s) k_tpm \<and> has_room (mem_tpm_used now mb s) m_tpm
                 \<and> has_room (mem_rpm_used now kb s) k_rpm \<and> has_room (mem_rpm_used now mb s) m_rpm)
         in (case res of
               Inl resp \<Rightarrow> \<not> ok \<and> status resp = 429
                 \<and> (\<exists>n \<le> 1. \<forall>b. mem_rpm_used now b s' = mem_rpm_used now b s + (if b = kb then n else 0))
             | Inr (rl, p) \<Rightarrow> ok
                 \<and> p = (if has_room (mem_rpm_used now pb s) cap_rpm \<and> has_room (mem_tpm_used now pb s) cap_tpm
                        then 0 else 1)
                 \<and> (\<forall>b. mem_rpm_used now b s' = mem_rpm_used now b s
                      + ((if k_rpm \<noteq> None \<and> b = kb then 1 else 0) + (if m_rpm \<noteq> None \<and> b = mb then 1 else 0)
                        + (if cap_rpm \<noteq> None \<and> has_room (mem_rpm_used now pb s) cap_rpm \<and> b = pb then 1 else 0))))
          \<and> (\<forall>b. mem_tpm_used now b s' = mem_tpm_used now b s)"
proof -
  note adm = mem.admission [OF assms(2,1,3-7) refl]
  show ?thesis
  proof (cases res)
    case (Inl resp)
    with adm show ?thesis unfolding Let_def mem.counted_def by auto
  next
    case (Inr rp)
    with adm show ?thesis unfolding Let_def mem.counted_def by (cases rp) simp
  qed
qed

definition example_quota :: quota_store where
  "example_quota = quota_reload [\<lparr>key_rpm = Some 1, key_tpm = None, rq_api_key_id = ''k'', rq_model_id = ''m''\<rparr>] quota_store_new"

lemma admission_counts_witness:
  "let check = check_rate_limits (json_lib (\<lambda>_. None)) (Some mem_ops) example_quota registry_new (\<lambda>_. 5) ''k'' ''m'' ''openai''
   in isl (fst (check (snd (check (mem_limiter_new 60))))) \<and> \<not> isl (fst (check (mem_limiter_new 60)))"
proof -
  let ?check = "check_rate_limits (json_lib (\<lambda>_. None)) (Some mem_ops) example_quota registry_new (\<lambda>_. 5) ''k'' ''m'' ''openai''"
  let ?kb = "bucket_name (KeyModel ''k'' ''m'')"
  obtain r1 s1 r2 s2 where run: "?check (mem_limiter_new 60) = (r1, s1)" "?check s1 = (r2, s2)" by force
  have lim: "effective_limits example_quota registry_new ''k'' ''m'' = (Some 1, None, None, None)"
    "get_primary_capacity ''m'' ''openai'' registry_new = (None, None)"
    by (simp_all add: effective_limits_def get_rate_limits_def registry_new_def quota_get_def example_quota_def
        quota_reload_def key_quota.defs get_primary_capacity_def get_protocol_group_def Let_def)
  have room: "mem_room 0 (mem_limiter_new 60)" "mem_rpm_used 5 ?kb (mem_limiter_new 60) = 0"
    by (simp_all add: mem_room_def mem_limiter_new_def rpm_window_def tpm_window_def mem_rpm_used_def evict_rpm_def)
  from admission_counts [OF room(1) run(1) lim refl refl refl] room(2)
  have one: "\<not> isl r1" "mem_rpm_used 5 ?kb s1 = 1"
    by (auto simp: Let_def split: sum.splits prod.splits)
  have "mem_room 0 s1"
    using mem.admission [OF run(1) room(1) lim refl refl refl refl]
    by (auto simp: mem.counted_def split: sum.splits prod.splits)
  from admission_counts [OF this run(2) lim refl refl refl] one(2) have "isl r2"
    by (auto simp: Let_def split: sum.splits prod.splits)
  with one run show ?thesis by (simp add: Let_def)
qed

end
