(* ===== verification/Server.thy ===== *)
theory Server
  imports Admission
begin

text \<open>
  The handlers and the application of \<^verbatim>\<open>server/src/server.rs\<close>: admission before every
  routed request, the routes of \<open>build_app\<close>, authentication on the protected ones, and the layers
  that identify and count requests.  Extractors, the answers of the framework to a request that no
  route takes, and the decoding of a path segment are arguments; the CORS and body-limit layers are
  the framework's and are left out.
\<close>

section \<open>State and environment\<close>

record ('s, 'g) gateway_state =
  gs_router :: "'g gateway_router"
  gs_api_key_repo :: "string \<Rightarrow> string + api_key_lookup option"
  gs_auth_required :: bool
  gs_rate_limiter :: "'s limiter_ops option"
  gs_quota_store :: quota_store

record ('j, 'g) serve_env =
  se_now :: "nat \<Rightarrow> int"            \<comment> \<open>clock readings of the admission checks\<close>
  se_ts :: int
  se_route :: "('j, 'g) route_env"
  se_proxy :: "'j proxy_env"
  se_draws :: "nat \<Rightarrow> nat"

text \<open>Without a limiter no context asks for a recording, and these operations are never called.\<close>

definition router_limiter :: "('s, 'g) gateway_state \<Rightarrow> 's limiter_ops" where
  "router_limiter S =
     (case gs_rate_limiter S of
        Some L \<Rightarrow> L
      | None \<Rightarrow> \<lparr>check_rpm = (\<lambda>_ _ _ s. (Allow, s)), check_tpm = (\<lambda>_ _ _ s. (Allow, s)),
                 record_tokens = (\<lambda>_ _ _ s. s)\<rparr>)"

section \<open>Handlers\<close>

definition with_admission ::
    "'j lib \<Rightarrow> ('s, 'g) gateway_state \<Rightarrow> ('j, 'g) serve_env \<Rightarrow> string \<Rightarrow> api_key_identity \<Rightarrow> string \<Rightarrow> string
       \<Rightarrow> string \<Rightarrow> (request_context \<Rightarrow> ('s, 'j) world \<Rightarrow> 'j response \<times> ('s, 'j) world)
       \<Rightarrow> ('s, 'j) world \<Rightarrow> 'j response \<times> ('s, 'j) world" where
  "with_admission J S env request_id identity mid protocol endpoint k w =
     (case check_rate_limits J (gs_rate_limiter S) (gs_quota_store S) (w_registry w) (se_now env)
             (ident_key_id identity) mid protocol (w_limiter w) of
        (Inl resp, s) \<Rightarrow>
          (resp, emit_rl_log (se_ts env) request_id (ident_key_id identity) mid endpoint (w\<lparr>w_limiter := s\<rparr>))
      | (Inr (rate_limit, min_priority), s) \<Rightarrow>
          k \<lparr>rc_request_id = request_id, rc_api_key_id = ident_key_id identity,
             rc_rate_limit = rate_limit, rc_min_priority = min_priority\<rparr> (w\<lparr>w_limiter := s\<rparr>))"

definition v1_chat_completions ::
    "'j lib \<Rightarrow> 'f hash_ops \<Rightarrow> 'g f32_ops \<Rightarrow> ('s, 'g) gateway_state \<Rightarrow> ('j, 'g) serve_env \<Rightarrow> headers \<Rightarrow> string
       \<Rightarrow> api_key_identity \<Rightarrow> 'j typed_request \<Rightarrow> ('s, 'j) world \<Rightarrow> 'j response \<times> ('s, 'j) world" where
  "v1_chat_completions J H F S env hs request_id identity rbody =
     with_admission J S env request_id identity (tr_model rbody) ''openai'' ENDPOINT_CHAT
       (\<lambda>ctx. route_chat J H (router_limiter S) F (gs_router S) rbody (Some (tr_model rbody)) hs ctx (se_route env))"

definition v1_messages ::
    "'j lib \<Rightarrow> 'f hash_ops \<Rightarrow> 'g f32_ops \<Rightarrow> ('s, 'g) gateway_state \<Rightarrow> ('j, 'g) serve_env \<Rightarrow> headers \<Rightarrow> string
       \<Rightarrow> api_key_identity \<Rightarrow> 'j typed_request \<Rightarrow> ('s, 'j) world \<Rightarrow> 'j response \<times> ('s, 'j) world" where
  "v1_messages J H F S env hs request_id identity rbody =
     with_admission J S env request_id identity (tr_model rbody) ''anthropic'' ENDPOINT_MESSAGES
       (\<lambda>ctx. route_messages J H (router_limiter S) F (gs_router S) rbody (Some (tr_model rbody)) hs ctx (se_route env))"

definition v1_embeddings ::
    "'j lib \<Rightarrow> 'f hash_ops \<Rightarrow> 'g f32_ops \<Rightarrow> ('s, 'g) gateway_state \<Rightarrow> ('j, 'g) serve_env \<Rightarrow> headers \<Rightarrow> string
       \<Rightarrow> api_key_identity \<Rightarrow> 'j typed_request \<Rightarrow> ('s, 'j) world \<Rightarrow> 'j response \<times> ('s, 'j) world" where
  "v1_embeddings J H F S env hs request_id identity rbody =
     with_admission J S env request_id identity (tr_model rbody) ''openai'' ENDPOINT_EMBEDDINGS
       (\<lambda>ctx. route_embedding J H (router_limiter S) F (gs_router S) rbody (Some (tr_model rbody)) hs ctx (se_route env))"

definition v1_responses ::
    "'j lib \<Rightarrow> 'g f32_ops \<Rightarrow> ('s, 'g) gateway_state \<Rightarrow> ('j, 'g) serve_env \<Rightarrow> headers \<Rightarrow> string
       \<Rightarrow> api_key_identity \<Rightarrow> 'j \<Rightarrow> ('s, 'j) world \<Rightarrow> 'j response \<times> ('s, 'j) world" where
  "v1_responses J F S env hs request_id identity rbody =
     with_admission J S env request_id identity (or_default (opt_str J ''model'' rbody) '''') ''openai'' ENDPOINT_RESPONSES
       (\<lambda>ctx. route_responses J (router_limiter S) F (gs_router S) rbody hs ctx (se_route env))"

definition unlimited_context :: "string \<Rightarrow> api_key_identity \<Rightarrow> request_context" where
  "unlimited_context request_id identity =
     \<lparr>rc_request_id = request_id, rc_api_key_id = ident_key_id identity, rc_rate_limit = None, rc_min_priority = 0\<rparr>"

definition v1_responses_retrieve ::
    "'j lib \<Rightarrow> ('s, 'g) gateway_state \<Rightarrow> ('j, 'g) serve_env \<Rightarrow> headers \<Rightarrow> string \<Rightarrow> api_key_identity \<Rightarrow> string
       \<Rightarrow> ('s, 'j) world \<Rightarrow> 'j response \<times> ('s, 'j) world" where
  "v1_responses_retrieve J S env hs request_id identity response_id =
     route_response_retrieve J (gs_router S) response_id hs (unlimited_context request_id identity) (se_proxy env)"

definition v1_responses_delete ::
    "'j lib \<Rightarrow> ('s, 'g) gateway_state \<Rightarrow> ('j, 'g) serve_env \<Rightarrow> headers \<Rightarrow> string \<Rightarrow> api_key_identity \<Rightarrow> string
       \<Rightarrow> ('s, 'j) world \<Rightarrow> 'j response \<times> ('s, 'j) world" where
  "v1_responses_delete J S env hs request_id identity response_id =
     route_response_delete J (gs_router S) response_id hs (unlimited_context request_id identity) (se_proxy env)"

text \<open>The decoded query parameters, in the order the map yields them, are joined without encoding.\<close>

definition upstream_qs :: "(string \<times> string) list \<Rightarrow> string" where
  "upstream_qs params = join_strings ''&'' (map (\<lambda>(k, v). k @ ''='' @ v) params)"

definition v1_responses_input_items ::
    "'j lib \<Rightarrow> ('s, 'g) gateway_state \<Rightarrow> ('j, 'g) serve_env \<Rightarrow> headers \<Rightarrow> string \<Rightarrow> api_key_identity \<Rightarrow> string
       \<Rightarrow> (string \<times> string) list \<Rightarrow> ('s, 'j) world \<Rightarrow> 'j response \<times> ('s, 'j) world" where
  "v1_responses_input_items J S env hs request_id identity response_id params =
     route_response_input_items J (gs_router S) response_id (upstream_qs params) hs
       (unlimited_context request_id identity) (se_proxy env)"

definition health :: "'j response" where
  "health = \<lparr>status = 200, resp_headers = [], body = BodyText ''OK''\<rparr>"

definition v1_models :: "'j lib \<Rightarrow> registry \<Rightarrow> 'j response" where
  "v1_models J r =
     \<lparr>status = 200, resp_headers = [],
      body = BodyJson (j_obj J [(''object'', j_str J ''list''),
        (''data'', j_list J (map (\<lambda>i. j_obj J [(''id'', j_str J i), (''object'', j_str J ''model''),
           (''created'', j_int J 0), (''owned_by'', j_str J ''system'')]) (all_model_ids r)))])\<rparr>"

section \<open>The application\<close>

text \<open>A request as the routes see it, with what each extractor yields for it.\<close>

record 'j http_in =
  hi_method :: string
  hi_path :: string
  hi_headers :: headers
  hi_typed :: "'j response + 'j typed_request"
  hi_json :: "'j response + 'j"
  hi_query :: "'j response + (string \<times> string) list"
  hi_decode :: "string \<Rightarrow> 'j response + string"
  hi_unmatched :: "'j response"

datatype route =
    ChatRoute | MessagesRoute | EmbeddingsRoute | ResponsesRoute
  | RetrieveRoute string | DeleteRoute string | InputItemsRoute string
  | HealthRoute | ModelsRoute | Unmatched

text \<open>A \<open>GET\<close> route also takes \<open>HEAD\<close>; a parameter matches one non-empty segment.\<close>

definition is_get :: "string \<Rightarrow> bool" where
  "is_get verb \<longleftrightarrow> verb = ''GET'' \<or> verb = ''HEAD''"

definition app_route :: "string \<Rightarrow> string \<Rightarrow> route" where
  "app_route verb path =
     (let segs = split_slash path in
      if segs = ['''', ''v1'', ''chat'', ''completions''] \<and> verb = ''POST'' then ChatRoute
      else if segs = ['''', ''v1'', ''messages''] \<and> verb = ''POST'' then MessagesRoute
      else if segs = ['''', ''v1'', ''embeddings''] \<and> verb = ''POST'' then EmbeddingsRoute
      else if segs = ['''', ''v1'', ''responses''] \<and> verb = ''POST'' then ResponsesRoute
      else if segs = ['''', ''health''] \<and> is_get verb then HealthRoute
      else if segs = ['''', ''v1'', ''models''] \<and> is_get verb then ModelsRoute
      else
        (case segs of
           [e, v, r, rid] \<Rightarrow>
             (if e = '''' \<and> v = ''v1'' \<and> r = ''responses'' \<and> rid \<noteq> '''' then
                (if is_get verb then RetrieveRoute rid
                 else if verb = ''DELETE'' then DeleteRoute rid else Unmatched)
              else Unmatched)
         | [e, v, r, rid, items] \<Rightarrow>
             (if e = '''' \<and> v = ''v1'' \<and> r = ''responses'' \<and> rid \<noteq> '''' \<and> items = ''input_items'' \<and> is_get verb
              then InputItemsRoute rid else Unmatched)
         | _ \<Rightarrow> Unmatched))"

definition extracted :: "'e + 'x \<Rightarrow> ('x \<Rightarrow> 'w \<Rightarrow> 'e \<times> 'w) \<Rightarrow> 'w \<Rightarrow> 'e \<times> 'w" where
  "extracted x k w = (case x of Inl resp \<Rightarrow> (resp, w) | Inr v \<Rightarrow> k v w)"

definition protected_handler ::
    "'j lib \<Rightarrow> 'f hash_ops \<Rightarrow> 'g f32_ops \<Rightarrow> ('s, 'g) gateway_state \<Rightarrow> ('j, 'g) serve_env \<Rightarrow> 'j http_in \<Rightarrow> string
       \<Rightarrow> api_key_identity \<Rightarrow> route \<Rightarrow> ('s, 'j) world \<Rightarrow> 'j response \<times> ('s, 'j) world" where
  "protected_handler J H F S env hi request_id identity rt =
     (let hs = hi_headers hi in
      case rt of
        ChatRoute \<Rightarrow> extracted (hi_typed hi) (v1_chat_completions J H F S env hs request_id identity)
      | MessagesRoute \<Rightarrow> extracted (hi_typed hi) (v1_messages J H F S env hs request_id identity)
      | EmbeddingsRoute \<Rightarrow> extracted (hi_typed hi) (v1_embeddings J H F S env hs request_id identity)
      | ResponsesRoute \<Rightarrow> extracted (hi_json hi) (v1_responses J F S env hs request_id identity)
      | RetrieveRoute rid \<Rightarrow>
          extracted (hi_decode hi rid) (v1_responses_retrieve J S env hs request_id identity)
      | DeleteRoute rid \<Rightarrow>
          extracted (hi_decode hi rid) (v1_responses_delete J S env hs request_id identity)
      | InputItemsRoute rid \<Rightarrow>
          extracted (hi_decode hi rid)
            (\<lambda>d. extracted (hi_query hi) (v1_responses_input_items J S env hs request_id identity d))
      | _ \<Rightarrow> (\<lambda>w. (hi_unmatched hi, w)))"

definition dispatch ::
    "'j lib \<Rightarrow> 'f hash_ops \<Rightarrow> 'g f32_ops \<Rightarrow> (nat \<Rightarrow> string option) \<Rightarrow> (string \<Rightarrow> string) \<Rightarrow> ('s, 'g) gateway_state
       \<Rightarrow> ('j, 'g) serve_env \<Rightarrow> 'j http_in \<Rightarrow> string \<Rightarrow> ('s, 'j) world \<Rightarrow> 'j response \<times> ('s, 'j) world" where
  "dispatch J H F reason sha256_hex S env hi request_id w =
     (case app_route (hi_method hi) (hi_path hi) of
        HealthRoute \<Rightarrow> (health, w)
      | ModelsRoute \<Rightarrow> (v1_models J (w_registry w), w)
      | Unmatched \<Rightarrow> (hi_unmatched hi, w)
      | rt \<Rightarrow>
          (case auth_middleware J reason sha256_hex (gs_auth_required S) (gs_api_key_repo S) (hi_headers hi) of
             Inl resp \<Rightarrow> (resp, w)
           | Inr identity \<Rightarrow> protected_handler J H F S env hi request_id identity rt w))"

definition serve ::
    "'j lib \<Rightarrow> 'f hash_ops \<Rightarrow> 'g f32_ops \<Rightarrow> (nat \<Rightarrow> string option) \<Rightarrow> (string \<Rightarrow> string) \<Rightarrow> string list
       \<Rightarrow> ('s, 'g) gateway_state \<Rightarrow> ('j, 'g) serve_env \<Rightarrow> 'j http_in \<Rightarrow> ('s, 'j) world
       \<Rightarrow> 'j response \<times> ('s, 'j) world" where
  "serve J H F reason sha256_hex request_id_headers S env hi w =
     (let request_id = request_id_of J request_id_headers (se_draws env) (hi_headers hi) (hi_path hi);
          w1 = metric (record_http_request (method_to_static_str (hi_method hi))
                 (normalize_path_for_metrics (hi_path hi))) w
      in case dispatch J H F reason sha256_hex S env hi request_id w1 of
           (resp, w2) \<Rightarrow>
             (add_request_id J request_id resp,
              metric (record_http_response (status resp) (extract_error_code J resp)) w2))"

end
