(* ===== verification/Server_Spec.thy ===== *)
theory Server_Spec
  imports Server Admission_Spec Router_Properties Auth_Spec
begin

text \<open>
  Properties that span the whole path of a request: authentication guards every state the gateway
  keeps, and an exhausted primary tier sends requests to the fallback tier.
\<close>

section \<open>Authentication\<close>

definition untouched :: "('s, 'j) world \<Rightarrow> ('s, 'j) world \<Rightarrow> bool" where
  "untouched w w' \<longleftrightarrow>
     w_registry w' = w_registry w \<and> w_limiter w' = w_limiter w \<and> w_sink w' = w_sink w
   \<and> w_access w' = w_access w \<and> w_sent w' = w_sent w \<and> w_tasks w' = w_tasks w"

lemma untouched_intros [simp, intro]:
  "untouched w w" "untouched w (metric f w)" "untouched (metric f w) w' \<Longrightarrow> untouched w w'"
  "untouched w w' \<Longrightarrow> untouched w (metric f w')"
  by (simp_all add: untouched_def)

definition key_known ::
    "'j lib \<Rightarrow> (string \<Rightarrow> string) \<Rightarrow> ('s, 'g) gateway_state \<Rightarrow> headers \<Rightarrow> bool" where
  "key_known J sha256_hex S hs \<longleftrightarrow>
     (case extract_api_key J hs of
        None \<Rightarrow> False
      | Some token \<Rightarrow> (case gs_api_key_repo S (sha256_hex token) of Inr (Some _) \<Rightarrow> True | _ \<Rightarrow> False))"

text \<open>401 without a key and for a key the repository does not know, 500 when the repository cannot say.\<close>

definition refusal_status ::
    "'j lib \<Rightarrow> (string \<Rightarrow> string) \<Rightarrow> ('s, 'g) gateway_state \<Rightarrow> headers \<Rightarrow> nat" where
  "refusal_status J sha256_hex S hs =
     (case extract_api_key J hs of
        None \<Rightarrow> 401
      | Some token \<Rightarrow> (case gs_api_key_repo S (sha256_hex token) of Inl _ \<Rightarrow> 500 | Inr _ \<Rightarrow> 401))"

lemma auth_refuses:
  assumes "gs_auth_required S" "\<not> key_known J sha S hs"
  shows "\<exists>resp. auth_middleware J reason sha (gs_auth_required S) (gs_api_key_repo S) hs = Inl resp
       \<and> status resp = refusal_status J sha S hs"
  using assms
  by (auto simp: auth_middleware_def key_known_def refusal_status_def create_error_def
      split: option.splits sum.splits)

lemma no_key_untouched:
  assumes "serve J H F reason sha names S env hi w = (resp, w')"
    and "gs_auth_required S" "\<not> key_known J sha S (hi_headers hi)"
  shows "untouched w w'"
    and "app_route (hi_method hi) (hi_path hi) \<notin> {HealthRoute, ModelsRoute, Unmatched} \<Longrightarrow>
      status resp = refusal_status J sha S (hi_headers hi)"
proof -
  obtain r where r: "auth_middleware J reason sha (gs_auth_required S) (gs_api_key_repo S) (hi_headers hi) = Inl r"
    "status r = refusal_status J sha S (hi_headers hi)" using auth_refuses [OF assms(2,3)] by blast
  let ?rid = "request_id_of J names (se_draws env) (hi_headers hi) (hi_path hi)"
  let ?w1 = "metric (record_http_request (method_to_static_str (hi_method hi))
                 (normalize_path_for_metrics (hi_path hi))) w"
  obtain resp2 w2 where d: "dispatch J H F reason sha S env hi ?rid ?w1 = (resp2, w2)" by force
  with assms(1) have f: "resp = add_request_id J ?rid resp2" "\<exists>f. w' = metric f w2"
    by (auto simp: serve_def)
  have "w2 = ?w1" using d r(1) by (auto simp: dispatch_def split: route.splits)
  with f(2) show "untouched w w'" by auto
  show "status resp = refusal_status J sha S (hi_headers hi)"
    if "app_route (hi_method hi) (hi_path hi) \<notin> {HealthRoute, ModelsRoute, Unmatched}"
    using that d r f(1) by (cases "app_route (hi_method hi) (hi_path hi)") (auto simp: dispatch_def add_request_id_def)
qed

text \<open>
  C4. When the gateway requires keys (it does unless started with \<open>--no-auth\<close>), a request without a
  known key changes nothing but metrics, whatever its method, path and body: no upstream, breaker,
  limiter, log or task is touched; and on a protected route it is answered with 401 when it carries no
  key or one the repository does not know, and with 500 exactly when it carries a key whose lookup
  failed.
\<close>

theorem no_key_no_effect:
  assumes "serve J H F reason sha names S env hi w = (resp, w')"
    and "gs_auth_required S" "\<not> key_known J sha S (hi_headers hi)"
  shows "untouched w w'
       \<and> (if app_route (hi_method hi) (hi_path hi) \<in> {HealthRoute, ModelsRoute, Unmatched} then True
          else status resp =
            (case extract_api_key J (hi_headers hi) of
               None \<Rightarrow> 401
             | Some token \<Rightarrow> (case gs_api_key_repo S (sha token) of Inl _ \<Rightarrow> 500 | Inr _ \<Rightarrow> 401)))"
  using no_key_untouched [OF assms] by (simp add: refusal_status_def)

definition example_gateway :: "(mem_limiter, int) gateway_state" where
  "example_gateway =
     \<lparr>gs_router = example_router, gs_api_key_repo = (\<lambda>h. Inr (if h = ''good'' then Some
          \<lparr>lk_id = ''k1'', lk_uid = ''u'', lk_status = ''active''\<rparr> else None)),
      gs_auth_required = True, gs_rate_limiter = Some mem_ops, gs_quota_store = quota_store_new\<rparr>"

definition example_serve_env :: "(json, int) serve_env" where
  "example_serve_env =
     \<lparr>se_now = (\<lambda>_. 5), se_ts = 5, se_route = example_env, se_proxy = example_proxy_env, se_draws = (\<lambda>i. i)\<rparr>"

definition example_in :: "headers \<Rightarrow> json http_in" where
  "example_in hs =
     \<lparr>hi_method = ''POST'', hi_path = ''/v1/chat/completions'', hi_headers = hs, hi_typed = Inr example_request,
      hi_json = Inr JNull, hi_query = Inr [], hi_decode = Inr, hi_unmatched = bad_request ''''\<rparr>"

lemma no_key_no_effect_witness:
  "let r = serve example_lib example_hash_ops example_f32 (\<lambda>_. None) (\<lambda>t. t) [''x-request-id''] example_gateway
             example_serve_env (example_in [(''x-api-key'', ''bad'')])
             (example_world (register_group 7 example_group registry_new))
   in w_sent (snd r) = [] \<and> status (fst r) = 401"
proof -
  let ?w = "example_world (register_group 7 example_group registry_new)"
  obtain resp w' where r: "serve example_lib example_hash_ops example_f32 (\<lambda>_. None) (\<lambda>t. t) [''x-request-id'']
      example_gateway example_serve_env (example_in [(''x-api-key'', ''bad'')]) ?w = (resp, w')" by force
  have no: "\<not> key_known example_lib (\<lambda>t. t) example_gateway (hi_headers (example_in [(''x-api-key'', ''bad'')]))"
    by (simp add: key_known_def example_in_def extract_api_key_def header_get_def json_lib_def example_gateway_def)
  have req: "gs_auth_required example_gateway" by (simp add: example_gateway_def)
  have chat: "app_route (hi_method (example_in hs)) (hi_path (example_in hs)) = ChatRoute" for hs
    by (simp add: example_in_def app_route_def)
  have "w_sent ?w = []" by (simp add: example_world_def)
  moreover have "extract_api_key example_lib (hi_headers (example_in [(''x-api-key'', ''bad'')])) = Some ''bad''"
    by (simp add: example_in_def extract_api_key_def header_get_def json_lib_def)
  moreover have "gs_api_key_repo example_gateway ''bad'' = Inr None" by (simp add: example_gateway_def)
  ultimately show ?thesis using no_key_no_effect [OF r req no] by (simp add: r chat untouched_def)
qed

section \<open>Spilling to the fallback tier\<close>

text \<open>
  C19. Capacity spills: when one of the capacities of a model's primary tier is used up, a chat request
  that passes its hard limits is sent to fallback bindings only (tier at least 1), never to the
  primary tier and never answered with 429 for lack of primary capacity.
\<close>

theorem exhausted_primary_spills:
  assumes "gs_rate_limiter S = Some mem_ops" "se_now env = (\<lambda>_. now)" "tr_value rbody = Inr payload"
    and "registry_inv (w_registry w)" "mem_room 0 (w_limiter w)"
    and "get_primary_capacity (tr_model rbody) ''openai'' (w_registry w) = (cap_rpm, cap_tpm)"
    and "pb = bucket_name (PrimaryTier (tr_model rbody) ''openai'')"
    and "\<not> (has_room (mem_rpm_used now pb (w_limiter w)) cap_rpm \<and> has_room (mem_tpm_used now pb (w_limiter w)) cap_tpm)"
    and "v1_chat_completions J H F S env hs request_id identity rbody w = (resp, w')"
  shows "\<exists>us. w_sent w' = w_sent w @ map (\<lambda>u. request_to J (chat_spec J H (gs_router S) (tr_model rbody)
             (tr_stream rbody) (extract_routing_key J hs) 1) payload (deref (w_registry w) u)) us
       \<and> (\<forall>u \<in> set us. model_good (tr_model rbody) OpenAiApi 1 (w_registry w) u)
       \<and> (status resp = 429 \<and> us = [] \<or> (\<exists>ctx. rc_min_priority ctx = 1
            \<and> resp = fst (route_chat J H mem_ops F (gs_router S) rbody (Some (tr_model rbody)) hs ctx (se_route env)
                (w\<lparr>w_limiter := snd (check_rate_limits J (Some mem_ops) (gs_quota_store S) (w_registry w) (\<lambda>_. now)
                   (ident_key_id identity) (tr_model rbody) ''openai'' (w_limiter w))\<rparr>))))"
proof -
  let ?check = "check_rate_limits J (Some mem_ops) (gs_quota_store S) (w_registry w) (\<lambda>_. now)
      (ident_key_id identity) (tr_model rbody) ''openai'' (w_limiter w)"
  obtain res s where c: "?check = (res, s)" by force
  obtain k_rpm k_tpm m_rpm m_tpm where lim:
    "effective_limits (gs_quota_store S) (w_registry w) (ident_key_id identity) (tr_model rbody)
      = (k_rpm, k_tpm, m_rpm, m_tpm)" by (metis prod.collapse)
  note adm = mem.admission [OF c assms(5) lim assms(6) refl refl assms(7) refl]
  show ?thesis
  proof (cases res)
    case (Inl r)
    with assms(1,2,9) c have "resp = r" "w_sent w' = w_sent w"
      by (auto simp: v1_chat_completions_def with_admission_def emit_rl_log_def)
    with adm Inl show ?thesis by (intro exI [of _ "[]"]) auto
  next
    case (Inr rp)
    obtain rl p where rp: "rp = (rl, p)" by force
    have p: "p = 1" using adm assms(8) Inr rp by auto
    let ?ctx = "\<lparr>rc_request_id = request_id, rc_api_key_id = ident_key_id identity, rc_rate_limit = rl, rc_min_priority = 1\<rparr>"
    let ?sp = "chat_spec J H (gs_router S) (tr_model rbody) (tr_stream rbody) (extract_routing_key J hs) 1"
    have run: "route_chat J H mem_ops F (gs_router S) rbody (Some (tr_model rbody)) hs ?ctx (se_route env)
        (w\<lparr>w_limiter := s\<rparr>) = (resp, w')"
      using assms(1,2,9) c Inr rp p by (simp add: v1_chat_completions_def with_admission_def router_limiter_def)
    then have core: "route_core J mem_ops F (gr_retry_config (gs_router S)) ?sp ?ctx (se_route env) payload
        (w\<lparr>w_limiter := s\<rparr>) = (resp, w')"
      using assms(3) by (simp add: route_chat_def or_default_def Let_def)
    have "sp_pick ?sp = (\<lambda>now. registry_select H now (tr_model rbody) (extract_routing_key J hs) (Some External)
        (Some OpenAiApi) 1)" by (simp add: chat_spec_def)
    from model_picker.route_core_sent [OF core this] assms(4) obtain us where
      us: "\<forall>u \<in> set us. model_good (tr_model rbody) OpenAiApi 1 (w_registry w) u"
        "w_sent w' = w_sent w @ map (\<lambda>u. request_to J ?sp payload (deref (w_registry w) u)) us"
      by (auto simp: model_picker.sent_ok_def)
    show ?thesis
      by (intro exI [of _ us] conjI us disjI2 exI [of _ ?ctx]) (use us c run in simp_all)
  qed
qed

definition spilling_group :: upstream_group where
  "spilling_group = with_primary_capacity (Some 0) None example_group"

lemma exhausted_primary_spills_witness:
  "list_all (\<lambda>q. req_url q = ''b/chat/completions'')
     (w_sent (snd (v1_chat_completions example_lib example_hash_ops example_f32 example_gateway example_serve_env []
        ''r'' \<lparr>ident_key_id = ''k1'', ident_uid = ''u''\<rparr> example_request
        (example_world (register_group 7 spilling_group registry_new)))))"
proof -
  let ?r = "register_group 7 spilling_group registry_new"
  let ?w = "example_world ?r"
  have like: "model spilling_group = model example_group" "upstreams spilling_group = upstreams example_group"
    by (simp_all add: spilling_group_def with_primary_capacity_def)
  note look = example_like_lookup [OF like, of 7]
  obtain resp w' where r: "v1_chat_completions example_lib example_hash_ops example_f32 example_gateway
      example_serve_env [] ''r'' \<lparr>ident_key_id = ''k1'', ident_uid = ''u''\<rparr> example_request ?w = (resp, w')" by force
  have w: "w_registry ?w = ?r" "w_sent ?w = []" "w_limiter ?w = mem_limiter_new 60" by (simp_all add: example_world_def)
  have "group_wf spilling_group"
    by (simp add: group_wf_def spilling_group_def with_primary_capacity_def example_group_def example_binding_def
        breaker_new_def inv_created)
  then have inv: "registry_inv (w_registry ?w)" by (simp add: w registry_inv_register registry_inv_new)
  have room: "mem_room 0 (w_limiter ?w)"
    by (simp add: w mem_room_def mem_limiter_new_def rpm_window_def tpm_window_def)
  have m: "tr_model example_request = ''m''" "tr_value example_request = Inr (JObj [(''model'', JStr ''m'')])"
    by (simp_all add: example_request_def)
  have cap: "get_primary_capacity (tr_model example_request) ''openai'' (w_registry ?w) = (Some 0, None)"
    unfolding get_primary_capacity_def m w look option.case Let_def
    by (simp add: spilling_group_def with_primary_capacity_def)
  have gw: "gs_rate_limiter example_gateway = Some mem_ops" "se_now example_serve_env = (\<lambda>_. 5)"
    by (simp_all add: example_gateway_def example_serve_env_def)
  let ?sp = "chat_spec example_lib example_hash_ops (gs_router example_gateway) (tr_model example_request)
      (tr_stream example_request) (extract_routing_key example_lib []) 1"
  obtain us where us: "w_sent w' = map (\<lambda>u. request_to example_lib ?sp (JObj [(''model'', JStr ''m'')]) (deref ?r u)) us"
    "\<forall>u \<in> set us. model_good (tr_model example_request) OpenAiApi 1 ?r u"
    using exhausted_primary_spills [OF gw m(2) inv room cap refl _ r] by (auto simp: w)
  have url: "req_url (request_to example_lib ?sp p (deref ?r u)) = ''b/chat/completions''"
    if good: "model_good (tr_model example_request) OpenAiApi 1 ?r u" for u p
  proof -
    have st: "length (group_store ?r) = 1" by (simp add: register_group_def registry_new_def)
    from good obtain i where i: "u = GroupUpstream 0 i" "i < 2" "enabled (upstreams example_group ! i)"
      unfolding model_good_def assigned_def st
      by (auto simp: Let_def look like example_group_def)
    then have "i = 1" by (cases i) (auto simp: example_group_def)
    with i(1) show ?thesis
      by (simp add: deref_def look like example_group_def request_to_def attempt_request_def chat_spec_def
          example_binding_def Let_def)
  qed
  show ?thesis unfolding r snd_conv us(1) using us(2) url by (simp add: list_all_iff)
qed

end
