(* ===== verification/File_Config.thy ===== *)
theory File_Config
  imports Env_Expand Registry
begin

text \<open>
  Routes from a file (\<^verbatim>\<open>server/src/file_config.rs\<close>): from the parsed YAML document to the
  groups the registry loads.  The document is an argument (reading and parsing the file is the
  library's part); a \<open>HashMap\<close> of the document is the list of its entries in iteration order.
\<close>

section \<open>The document\<close>

record raw_region =
  reg_openai :: "string option"      \<comment> \<open>the \<open>base_url\<close> of the endpoint\<close>
  reg_anthropic :: "string option"

record raw_provider =
  prov_api_key :: "string option"
  prov_provider_type :: provider_type
  prov_regions :: "(string \<times> raw_region) list"

record raw_upstream_ref =
  ur_provider :: string
  ur_region :: string
  ur_weight :: "u8 option"
  ur_disabled :: bool
  ur_upstream_model :: "string option"

record raw_tier_config =
  tc_strategy :: "routing_strategy option"
  tc_capacity_rpm :: "u32 option"
  tc_capacity_tpm :: "u32 option"
  tc_upstreams :: "raw_upstream_ref list"

record raw_protocol_route =
  pr_strategy :: "routing_strategy option"
  pr_upstreams :: "raw_upstream_ref list"
  pr_primary :: "raw_tier_config option"
  pr_fallback :: "raw_tier_config option"

record raw_native_upstream_ref =
  nu_provider :: string
  nu_url :: string
  nu_weight :: "u8 option"
  nu_disabled :: bool
  nu_upstream_model :: "string option"

record raw_native_protocol_route =
  nr_strategy :: "routing_strategy option"
  nr_upstreams :: "raw_native_upstream_ref list"

record raw_route =
  rt_model :: string
  rt_aliases :: "string list"
  rt_key_rpm :: "u32 option"
  rt_key_tpm :: "u32 option"
  rt_model_rpm :: "u32 option"
  rt_model_tpm :: "u32 option"
  rt_openai :: "raw_protocol_route option"
  rt_anthropic :: "raw_protocol_route option"
  rt_native :: "raw_native_protocol_route option"

record raw_config =
  rc_upstreams :: "(string \<times> raw_provider) list"
  rc_routes :: "raw_route list"

section \<open>Lookup tables\<close>

record resolved_endpoint =
  ep_credential_name :: string
  ep_base_url :: string
  ep_api_key :: "string option"
  ep_compatibility :: api_compatibility
  ep_provider_type :: provider_type

record resolved_provider =
  rp_api_key :: "string option"
  rp_provider_type :: provider_type

type_synonym endpoint_table = "string \<Rightarrow> resolved_endpoint list option"
type_synonym provider_table = "string \<Rightarrow> resolved_provider option"

text \<open>The dash of two messages, in UTF-8.\<close>

definition em_dash :: string where
  "em_dash = map char_of [0xE2, 0x80, 0x94 :: nat]"

text \<open>\<open>map(..).transpose()?\<close> and \<open>if let Some(..)\<close> over a fallible body.\<close>

definition opt_result :: "('a \<Rightarrow> 'b result) \<Rightarrow> 'a option \<Rightarrow> 'b option result" where
  "opt_result f x = (case x of None \<Rightarrow> Inr None | Some y \<Rightarrow> rbind (f y) (\<lambda>z. Inr (Some z)))"

definition opt_list :: "'a option \<Rightarrow> 'a list" where
  "opt_list x = (case x of None \<Rightarrow> [] | Some y \<Rightarrow> [y])"

definition resolve_region ::
    "environment \<Rightarrow> string \<Rightarrow> string option \<Rightarrow> provider_type \<Rightarrow> string \<times> raw_region
       \<Rightarrow> (string \<times> resolved_endpoint list) result" where
  "resolve_region env provider_name api_key ptype nr =
     (case nr of (region_name, region) \<Rightarrow>
        (let key = provider_name @ ''.'' @ region_name;
             endpoint = (\<lambda>ac url. rbind (expand_env env url)
               (\<lambda>u. Inr \<lparr>ep_credential_name = key, ep_base_url = u, ep_api_key = api_key,
                         ep_compatibility = ac, ep_provider_type = ptype\<rparr>))
         in rbind (opt_result (endpoint OpenAiApi) (reg_openai region))
              (\<lambda>e1. rbind (opt_result (endpoint AnthropicApi) (reg_anthropic region))
                (\<lambda>e2. let endpoints = opt_list e1 @ opt_list e2 in
                   if endpoints = []
                   then Inl (''Upstream '' @ quoted (provider_name @ ''.'' @ region_name)
                     @ '' has no endpoints (add '' @ quoted ''openai'' @ '' or '' @ quoted ''anthropic''
                     @ '' section)'')
                   else Inr (key, endpoints)))))"

definition resolve_endpoints :: "environment \<Rightarrow> (string \<times> raw_provider) list \<Rightarrow> endpoint_table result" where
  "resolve_endpoints env providers =
     rbind (collect_results
       (\<lambda>(provider_name, provider).
          rbind (opt_result (expand_env env) (prov_api_key provider))
            (\<lambda>api_key. collect_results
               (resolve_region env provider_name api_key (prov_provider_type provider)) (prov_regions provider)))
       providers)
       (\<lambda>tables. Inr (map_of (rev (concat tables))))"

definition resolve_providers :: "environment \<Rightarrow> (string \<times> raw_provider) list \<Rightarrow> provider_table result" where
  "resolve_providers env providers =
     rbind (collect_results
       (\<lambda>(provider_name, provider).
          rbind (opt_result (expand_env env) (prov_api_key provider))
            (\<lambda>api_key. Inr (provider_name,
               \<lparr>rp_api_key = api_key, rp_provider_type = prov_provider_type provider\<rparr>)))
       providers)
       (\<lambda>entries. Inr (map_of (rev entries)))"

section \<open>Bindings\<close>

definition strategy_or_default :: "routing_strategy option \<Rightarrow> routing_strategy" where
  "strategy_or_default s = (case s of Some x \<Rightarrow> x | None \<Rightarrow> Swrr)"

definition effective_strategy :: "raw_protocol_route \<Rightarrow> routing_strategy" where
  "effective_strategy proto =
     (case pr_primary proto of
        Some primary \<Rightarrow> strategy_or_default (tc_strategy primary)
      | None \<Rightarrow> strategy_or_default (pr_strategy proto))"

definition lookup_endpoints :: "string \<Rightarrow> endpoint_table \<Rightarrow> api_compatibility \<Rightarrow> resolved_endpoint list result" where
  "lookup_endpoints name table ac =
     (case table name of
        None \<Rightarrow> Inl (''Upstream '' @ quoted name @ '' not found '' @ em_dash @ '' check your upstreams config'')
      | Some all \<Rightarrow>
          (let matched = filter (\<lambda>ep. ep_compatibility ep = ac) all in
           if matched = []
           then Inl (''Upstream '' @ quoted name @ '' has no '' @ api_compatibility_str ac @ '' endpoint defined'')
           else Inr matched))"

definition strategy_config_of :: "routing_strategy \<Rightarrow> u8 \<Rightarrow> routing_strategy_config" where
  "strategy_config_of s weight = (case s of Swrr \<Rightarrow> SwrrConfig weight | WeightedHash \<Rightarrow> WeightedHashConfig weight)"

definition make_binding ::
    "nat \<Rightarrow> resolved_endpoint \<Rightarrow> routing_strategy \<Rightarrow> u8 \<Rightarrow> string option \<Rightarrow> u8 \<Rightarrow> binding result" where
  "make_binding now ep s weight up_model prio =
     binding_new now
       \<lparr>profile = \<lparr>profile_base_url = ep_base_url ep, profile_provider_node_id = '''',
                   profile_api_compatibility = ep_compatibility ep, profile_runtime_type = External,
                   profile_credential = \<lparr>cred_name = ep_credential_name ep, cred_api_key = ep_api_key ep,
                                         cred_provider_type = ep_provider_type ep\<rparr>,
                   profile_upstream_model_name = up_model\<rparr>,
        healthy = True\<rparr>
       True (strategy_config_of s weight) prio"

definition weight_or_one :: "u8 option \<Rightarrow> u8" where
  "weight_or_one w = (case w of Some x \<Rightarrow> x | None \<Rightarrow> 1)"

definition add_tier_bindings ::
    "nat \<Rightarrow> raw_upstream_ref list \<Rightarrow> api_compatibility \<Rightarrow> routing_strategy \<Rightarrow> u8 \<Rightarrow> endpoint_table
       \<Rightarrow> binding list result" where
  "add_tier_bindings now ups ac s prio table =
     rbind (collect_results
       (\<lambda>up_ref.
          rbind (lookup_endpoints (ur_provider up_ref @ ''.'' @ ur_region up_ref) table ac)
            (collect_results (\<lambda>ep. make_binding now ep s (weight_or_one (ur_weight up_ref))
               (ur_upstream_model up_ref) prio)))
       (filter (\<lambda>up_ref. \<not> ur_disabled up_ref) ups))
       (\<lambda>bss. Inr (concat bss))"

section \<open>Groups\<close>

definition section_bindings ::
    "nat \<Rightarrow> endpoint_table \<Rightarrow> api_compatibility \<Rightarrow> raw_protocol_route \<Rightarrow> binding list result" where
  "section_bindings now table ac proto =
     (let s = effective_strategy proto;
          tier = (\<lambda>prio t. case t of None \<Rightarrow> Inr []
                   | Some tc \<Rightarrow> add_tier_bindings now (tc_upstreams tc) ac s prio table)
      in if pr_primary proto \<noteq> None \<or> pr_fallback proto \<noteq> None
         then rbind (tier 0 (pr_primary proto))
                (\<lambda>bs0. rbind (tier 1 (pr_fallback proto)) (\<lambda>bs1. Inr (bs0 @ bs1)))
         else add_tier_bindings now (pr_upstreams proto) ac s 0 table)"

definition route_card :: "raw_route \<Rightarrow> model_card" where
  "route_card route = with_aliases (model_card_new (rt_model route)) (rt_aliases route)"

definition limited_group :: "raw_route \<Rightarrow> routing_strategy \<Rightarrow> binding list \<Rightarrow> upstream_group result" where
  "limited_group route s bs =
     rbind (group_new (route_card route) s bs)
       (\<lambda>g. Inr (with_rate_limits (rt_key_rpm route) (rt_key_tpm route) (rt_model_rpm route) (rt_model_tpm route) g))"

definition build_section ::
    "nat \<Rightarrow> endpoint_table \<Rightarrow> api_compatibility \<Rightarrow> raw_route \<Rightarrow> raw_protocol_route \<Rightarrow> upstream_group list result" where
  "build_section now table ac route proto =
     rbind (section_bindings now table ac proto)
       (\<lambda>bs. if bs = [] then Inr []
             else
               (let (cap_rpm, cap_tpm) =
                  (case pr_primary proto of Some t \<Rightarrow> (tc_capacity_rpm t, tc_capacity_tpm t) | None \<Rightarrow> (None, None))
                in rbind (limited_group route (effective_strategy proto) bs)
                     (\<lambda>g. Inr [with_primary_capacity cap_rpm cap_tpm g])))"

definition native_binding ::
    "environment \<Rightarrow> nat \<Rightarrow> provider_table \<Rightarrow> raw_route \<Rightarrow> routing_strategy \<Rightarrow> raw_native_upstream_ref
       \<Rightarrow> binding result" where
  "native_binding env now ptable route s up_ref =
     (case ptable (nu_provider up_ref) of
        None \<Rightarrow> Inl (''Native route for '' @ quoted (rt_model route) @ '': provider '' @ quoted (nu_provider up_ref)
          @ '' not found '' @ em_dash @ '' check your upstreams config'')
      | Some prov \<Rightarrow>
          rbind (expand_env env (nu_url up_ref))
            (\<lambda>url. binding_new now
               \<lparr>profile = \<lparr>profile_base_url = url, profile_provider_node_id = '''',
                           profile_api_compatibility = NativeApi, profile_runtime_type = External,
                           profile_credential = \<lparr>cred_name = nu_provider up_ref, cred_api_key = rp_api_key prov,
                                                 cred_provider_type = rp_provider_type prov\<rparr>,
                           profile_upstream_model_name = nu_upstream_model up_ref\<rparr>,
                healthy = True\<rparr>
               True (strategy_config_of s (weight_or_one (nu_weight up_ref))) 0))"

definition build_native ::
    "environment \<Rightarrow> nat \<Rightarrow> provider_table \<Rightarrow> raw_route \<Rightarrow> raw_native_protocol_route \<Rightarrow> upstream_group list result" where
  "build_native env now ptable route proto =
     (let s = strategy_or_default (nr_strategy proto) in
      rbind (collect_results (native_binding env now ptable route s)
               (filter (\<lambda>up_ref. \<not> nu_disabled up_ref) (nr_upstreams proto)))
        (\<lambda>bs. if bs = [] then Inr [] else rbind (limited_group route s bs) (\<lambda>g. Inr [g])))"

definition opt_section :: "('a \<Rightarrow> 'b list result) \<Rightarrow> 'a option \<Rightarrow> 'b list result" where
  "opt_section f x = (case x of None \<Rightarrow> Inr [] | Some y \<Rightarrow> f y)"

definition build_route ::
    "environment \<Rightarrow> nat \<Rightarrow> endpoint_table \<Rightarrow> provider_table \<Rightarrow> raw_route \<Rightarrow> upstream_group list result" where
  "build_route env now table ptable route =
     rbind (opt_section (build_section now table OpenAiApi route) (rt_openai route))
       (\<lambda>g1. rbind (opt_section (build_section now table AnthropicApi route) (rt_anthropic route))
         (\<lambda>g2. rbind (opt_section (build_native env now ptable route) (rt_native route))
           (\<lambda>g3. if g1 @ g2 @ g3 = []
                 then Inl (''Route '' @ quoted (rt_model route) @ '' has no active upstreams (all may be disabled)'')
                 else Inr (g1 @ g2 @ g3))))"

definition build_groups ::
    "environment \<Rightarrow> nat \<Rightarrow> raw_route list \<Rightarrow> endpoint_table \<Rightarrow> provider_table \<Rightarrow> upstream_group list result" where
  "build_groups env now routes table ptable =
     rbind (collect_results (build_route env now table ptable) routes) (\<lambda>gss. Inr (concat gss))"

definition file_config_load :: "environment \<Rightarrow> nat \<Rightarrow> raw_config \<Rightarrow> upstream_group list result" where
  "file_config_load env now raw =
     rbind (resolve_endpoints env (rc_upstreams raw))
       (\<lambda>table. rbind (resolve_providers env (rc_upstreams raw))
         (\<lambda>ptable. build_groups env now (rc_routes raw) table ptable))"

end
