(* ===== verification/File_Config_Spec.thy ===== *)
theory File_Config_Spec
  imports File_Config
begin

text \<open>What a loaded route file guarantees, up to the registry that loads its groups.\<close>

section \<open>Bindings of a section\<close>

definition loaded_binding :: "api_compatibility \<Rightarrow> routing_strategy \<Rightarrow> binding \<Rightarrow> bool" where
  "loaded_binding ac s b \<longleftrightarrow>
     api_compatibility_of b = ac \<and> enabled b \<and> healthy (node b) \<and> runtime_type_of b = External
   \<and> priority b \<le> 1 \<and> rsc_strategy (strategy_config b) = s \<and> binding_weight b \<noteq> 0
   \<and> breaker_inv (circuit_breaker b)"

lemma strategy_config_of [simp]: "rsc_strategy (strategy_config_of s w) = s"
  by (cases s) (simp_all add: strategy_config_of_def)

lemma make_binding_loaded:
  "make_binding now ep s w up prio = Inr b \<Longrightarrow> prio \<le> 1 \<Longrightarrow> loaded_binding (ep_compatibility ep) s b"
  by (auto simp: make_binding_def binding_new_eq_Inr_iff loaded_binding_def breaker_new_def inv_created)

lemma add_tier_bindings_loaded:
  assumes "add_tier_bindings now ups ac s prio table = Inr bs" "prio \<le> 1" "b \<in> set bs"
  shows "loaded_binding ac s b"
proof -
  obtain bss where bss: "collect_results (\<lambda>up_ref.
        rbind (lookup_endpoints (ur_provider up_ref @ ''.'' @ ur_region up_ref) table ac)
          (collect_results (\<lambda>ep. make_binding now ep s (weight_or_one (ur_weight up_ref)) (ur_upstream_model up_ref) prio)))
      (filter (\<lambda>up_ref. \<not> ur_disabled up_ref) ups) = Inr bss" "bs = concat bss"
    using assms(1) by (auto simp: add_tier_bindings_def rbind_eq_Inr_iff)
  from assms(3) bss(2) obtain bs1 where bs1: "bs1 \<in> set bss" "b \<in> set bs1" by auto
  from collect_results_member [OF bss(1) bs1(1)] obtain up_ref :: raw_upstream_ref where
    "rbind (lookup_endpoints (ur_provider up_ref @ ''.'' @ ur_region up_ref) table ac)
       (collect_results (\<lambda>ep. make_binding now ep s (weight_or_one (ur_weight up_ref)) (ur_upstream_model up_ref) prio))
     = Inr bs1" by blast
  then obtain eps where
    "lookup_endpoints (ur_provider up_ref @ ''.'' @ ur_region up_ref) table ac = Inr eps"
    "collect_results (\<lambda>ep. make_binding now ep s (weight_or_one (ur_weight up_ref)) (ur_upstream_model up_ref) prio) eps
      = Inr bs1"
    unfolding rbind_eq_Inr_iff by blast
  note e = this
  from collect_results_set [OF e(2)] bs1(2) obtain ep where
    "ep \<in> set eps" "make_binding now ep s (weight_or_one (ur_weight up_ref)) (ur_upstream_model up_ref) prio = Inr b"
    by auto
  moreover have "ep_compatibility ep = ac" if "ep \<in> set eps" for ep
    using e(1) that by (auto simp: lookup_endpoints_def Let_def split: option.splits if_splits)
  ultimately show ?thesis using make_binding_loaded assms(2) by blast
qed

lemma section_bindings_loaded:
  assumes "section_bindings now table ac proto = Inr bs" "b \<in> set bs"
  shows "loaded_binding ac (effective_strategy proto) b"
proof -
  let ?s = "effective_strategy proto"
  have tier: "loaded_binding ac ?s b"
    if "(case t of None \<Rightarrow> Inr [] | Some tc \<Rightarrow> add_tier_bindings now (tc_upstreams tc) ac ?s prio table) = Inr bs'"
      "prio \<le> 1" "b \<in> set bs'" for t prio bs'
    using that add_tier_bindings_loaded by (cases t) auto
  show ?thesis
  proof (cases "pr_primary proto \<noteq> None \<or> pr_fallback proto \<noteq> None")
    case True
    with assms(1) obtain bs0 bs1 where
      "(case pr_primary proto of None \<Rightarrow> Inr [] | Some tc \<Rightarrow> add_tier_bindings now (tc_upstreams tc) ac ?s 0 table) = Inr bs0"
      "(case pr_fallback proto of None \<Rightarrow> Inr [] | Some tc \<Rightarrow> add_tier_bindings now (tc_upstreams tc) ac ?s 1 table) = Inr bs1"
      "bs = bs0 @ bs1"
      unfolding section_bindings_def Let_def by (auto simp: rbind_eq_Inr_iff)
    with assms(2) tier [where t = "pr_primary proto" and prio = 0] tier [where t = "pr_fallback proto" and prio = 1] show ?thesis by auto
  next
    case False
    with assms show ?thesis using add_tier_bindings_loaded [of now _ ac ?s 0 table bs b]
      by (auto simp: section_bindings_def)
  qed
qed

section \<open>Groups of a route\<close>

definition loaded_group :: "raw_route \<Rightarrow> upstream_group \<Rightarrow> bool" where
  "loaded_group route g \<longleftrightarrow>
     group_wf g \<and> model g = route_card route \<and> key_rpm_limit g = rt_key_rpm route \<and> key_tpm_limit g = rt_key_tpm route
   \<and> model_rpm_limit g = rt_model_rpm route \<and> model_tpm_limit g = rt_model_tpm route
   \<and> (\<exists>ac. \<forall>b \<in> set (upstreams g). loaded_binding ac (strategy g) b)"

lemma limited_group_loaded:
  assumes "limited_group route s bs = Inr g" "\<forall>b \<in> set bs. loaded_binding ac s b"
  shows "loaded_group route g" "loaded_group route (with_primary_capacity rpm tpm g)"
proof -
  have "bs \<noteq> []" "model g = route_card route" "upstreams g = bs" "strategy g = s" "key_rpm_limit g = rt_key_rpm route"
    "key_tpm_limit g = rt_key_tpm route" "model_rpm_limit g = rt_model_rpm route" "model_tpm_limit g = rt_model_tpm route"
    using assms(1) by (auto simp: limited_group_def rbind_eq_Inr_iff group_new_eq_Inr_iff with_rate_limits_def)
  note f = this
  then show "loaded_group route g"
    using assms(2) unfolding loaded_group_def group_wf_def loaded_binding_def by auto
  then show "loaded_group route (with_primary_capacity rpm tpm g)"
    by (simp add: loaded_group_def with_primary_capacity_def group_wf_def)
qed

lemma build_section_loaded:
  assumes "build_section now table ac route proto = Inr gs" "g \<in> set gs"
  shows "loaded_group route g"
proof -
  obtain bs where bs: "section_bindings now table ac proto = Inr bs" "bs \<noteq> []"
    using assms by (auto simp: build_section_def rbind_eq_Inr_iff split: if_splits)
  with assms obtain g' rpm tpm where g': "limited_group route (effective_strategy proto) bs = Inr g'"
    "g = with_primary_capacity rpm tpm g'"
    by (auto simp: build_section_def rbind_eq_Inr_iff split: prod.splits)
  from section_bindings_loaded [OF bs(1)] have "\<forall>b \<in> set bs. loaded_binding ac (effective_strategy proto) b" by blast
  from limited_group_loaded(2) [OF g'(1) this] g'(2) show ?thesis by simp
qed

lemma build_native_loaded:
  assumes "build_native env now ptable route proto = Inr gs" "g \<in> set gs"
  shows "loaded_group route g"
proof -
  let ?s = "strategy_or_default (nr_strategy proto)"
  obtain bs where bs: "collect_results (native_binding env now ptable route ?s)
      (filter (\<lambda>up_ref. \<not> nu_disabled up_ref) (nr_upstreams proto)) = Inr bs" "limited_group route ?s bs = Inr g"
    using assms by (auto simp: build_native_def Let_def rbind_eq_Inr_iff split: if_splits)
  have "loaded_binding NativeApi ?s b" if "native_binding env now ptable route ?s up_ref = Inr b" for up_ref b
    using that by (auto simp: native_binding_def rbind_eq_Inr_iff binding_new_eq_Inr_iff loaded_binding_def
        breaker_new_def inv_created split: option.splits)
  with collect_results_set [OF bs(1)] have "\<forall>b \<in> set bs. loaded_binding NativeApi ?s b" by auto
  from limited_group_loaded(1) [OF bs(2) this] show ?thesis .
qed

lemma build_route_loaded:
  assumes "build_route env now table ptable route = Inr gs"
  shows "gs \<noteq> []" "\<forall>g \<in> set gs. loaded_group route g"
proof -
  obtain g1 g2 g3 where g: "opt_section (build_section now table OpenAiApi route) (rt_openai route) = Inr g1"
    "opt_section (build_section now table AnthropicApi route) (rt_anthropic route) = Inr g2"
    "opt_section (build_native env now ptable route) (rt_native route) = Inr g3" "gs = g1 @ g2 @ g3" "gs \<noteq> []"
    using assms by (auto simp: build_route_def rbind_eq_Inr_iff split: if_splits)
  then show "gs \<noteq> []" by simp
  have "\<forall>g \<in> set g1. loaded_group route g" "\<forall>g \<in> set g2. loaded_group route g" "\<forall>g \<in> set g3. loaded_group route g"
    using g(1-3) build_section_loaded build_native_loaded by (auto simp: opt_section_def split: option.splits)
  with g(4) show "\<forall>g \<in> set gs. loaded_group route g" by auto
qed

lemma loaded_group_serves:
  assumes "loaded_group route g"
  shows "\<exists>ac. serves g (rt_model route) (api_compatibility_str ac)"
proof -
  from assms obtain b bs ac where "upstreams g = b # bs" "api_compatibility_of b = ac"
    by (cases "upstreams g") (auto simp: loaded_group_def group_wf_def)
  then have "infer_protocol g = api_compatibility_str ac" by (simp add: infer_protocol_def)
  then show ?thesis using assms
    by (auto simp: serves_def loaded_group_def group_matches_def model_matches_def route_card_def with_aliases_def
        model_card_new_def)
qed

text \<open>
  C27. A route file that loads is fit for the registry: after the registry has loaded its groups, the
  registry's invariant holds and every route's model is registered under some protocol; every group
  belongs to a route and has its limits, and all its bindings are enabled, healthy, external
  runtimes of one protocol and one strategy, in tier 0 or 1, with a weight that is not 0.
\<close>

theorem file_routes_registered:
  assumes "file_config_load env now raw = Inr gs" "registry_inv r"
  shows "registry_inv (reload_all now gs r)
       \<and> (\<forall>route \<in> set (rc_routes raw). \<exists>ac.
            get_protocol_group (rt_model route) (api_compatibility_str ac) (reload_all now gs r) \<noteq> None)
       \<and> (\<forall>g \<in> set gs. \<exists>route \<in> set (rc_routes raw). loaded_group route g)"
proof -
  obtain table ptable gss where gss: "collect_results (build_route env now table ptable) (rc_routes raw) = Inr gss"
    "gs = concat gss"
    using assms(1) by (auto simp: file_config_load_def build_groups_def rbind_eq_Inr_iff)
  have groups: "\<exists>route \<in> set (rc_routes raw). loaded_group route g" if "g \<in> set gs" for g
    using that gss(2) collect_results_set [OF gss(1)] build_route_loaded(2) by fastforce
  then have wf: "\<forall>g \<in> set gs. group_wf g" by (auto simp: loaded_group_def)
  have "get_protocol_group (rt_model route) (api_compatibility_str ac) (reload_all now gs r) \<noteq> None"
    if "g \<in> set gs" "serves g (rt_model route) (api_compatibility_str ac)" for g route ac
    using reload_all_lookup [OF api_compatibility_str_no_nul wf, of r "rt_model route" ac] assms(2) that
    by (auto simp: reload_all_eq get_protocol_group_def registry_inv_def split: option.splits)
  note found = this
  have "\<exists>ac. get_protocol_group (rt_model route) (api_compatibility_str ac) (reload_all now gs r) \<noteq> None"
    if "route \<in> set (rc_routes raw)" for route
  proof -
    from collect_results_image [OF gss(1) that]
    obtain gs1 where gs1: "gs1 \<in> set gss" "build_route env now table ptable route = Inr gs1" by blast
    from build_route_loaded [OF gs1(2)] obtain g where "g \<in> set gs1" "loaded_group route g" by (cases gs1) auto
    with loaded_group_serves found gs1(1) gss(2) show ?thesis by fastforce
  qed
  with registry_inv_reload [OF assms(2) wf] groups show ?thesis by blast
qed

definition example_file :: raw_config where
  "example_file =
     \<lparr>rc_upstreams = [(''p'', \<lparr>prov_api_key = Some ''${K}'', prov_provider_type = OpenAi,
         prov_regions = [(''r'', \<lparr>reg_openai = Some ''u'', reg_anthropic = None\<rparr>)]\<rparr>)],
      rc_routes = [\<lparr>rt_model = ''m'', rt_aliases = [], rt_key_rpm = Some 5, rt_key_tpm = None, rt_model_rpm = None,
         rt_model_tpm = None,
         rt_openai = Some \<lparr>pr_strategy = None,
           pr_upstreams = [\<lparr>ur_provider = ''p'', ur_region = ''r'', ur_weight = None, ur_disabled = False,
                            ur_upstream_model = None\<rparr>], pr_primary = None, pr_fallback = None\<rparr>,
         rt_anthropic = None, rt_native = None\<rparr>]\<rparr>"

lemma file_routes_registered_witness:
  "case file_config_load [''K'' \<mapsto> ''s''] 7 example_file of
     Inr gs \<Rightarrow> (\<exists>ac. get_protocol_group ''m'' (api_compatibility_str ac) (reload_all 7 gs registry_new) \<noteq> None)
   | Inl e \<Rightarrow> False"
proof -
  have "\<exists>gs. file_config_load [''K'' \<mapsto> ''s''] 7 example_file = Inr gs"
    by (simp add: file_config_load_def example_file_def resolve_endpoints_def resolve_region_def opt_result_def
        opt_list_def resolve_providers_def build_groups_def build_route_def opt_section_def build_section_def
        section_bindings_def effective_strategy_def strategy_or_default_def add_tier_bindings_def
        lookup_endpoints_def make_binding_def binding_new_def rsc_validate_def strategy_config_of_def
        weight_or_one_def limited_group_def group_new_def Let_def)
  then obtain gs where gs: "file_config_load [''K'' \<mapsto> ''s''] 7 example_file = Inr gs" by blast
  have route: "hd (rc_routes example_file) \<in> set (rc_routes example_file)" "rt_model (hd (rc_routes example_file)) = ''m''"
    by (simp_all add: example_file_def)
  from file_routes_registered [where now = 7, OF gs registry_inv_new, THEN conjunct2, THEN conjunct1, rule_format, OF route(1)]
  obtain ac where "get_protocol_group ''m'' (api_compatibility_str ac) (reload_all 7 gs registry_new) \<noteq> None"
    unfolding route(2) by blast
  then have "\<exists>ac. get_protocol_group ''m'' (api_compatibility_str ac) (reload_all 7 gs registry_new) \<noteq> None" by blast
  then show ?thesis unfolding gs by simp
qed

end
