(* ===== verification/Route_Store.thy ===== *)
theory Route_Store
  imports Registry
begin

text \<open>
  Routes from the database (\<^verbatim>\<open>server/src/db/route_store.rs\<close>): from the rows of the three
  queries to the groups the registry loads.  The rows are arguments, in the order the database
  returns them; a column that a row lacks or that is null is \<open>None\<close>.  Rows are grouped in a
  \<open>HashMap\<close>, whose iteration order is the argument \<open>keys\<close>.
\<close>

record route_row =
  rr_model_id :: string
  rr_strategy :: string
  rr_is_fallback :: "int option"
  rr_weight :: int
  rr_upstream_model_name :: "string option"
  rr_provider_node_id :: string
  rr_base_url :: string
  rr_api_compatibility :: string
  rr_api_key :: "string option"
  rr_provider_name :: string
  rr_provider_type :: "string option"
  rr_key_rpm :: "int option"
  rr_key_tpm :: "int option"
  rr_model_rpm :: "int option"
  rr_model_tpm :: "int option"

text \<open>Alias and model.\<close>

type_synonym alias_row = "string \<times> string"

text \<open>Model, protocol, and the two capacities.\<close>

type_synonym capacity_row = "string \<times> string \<times> int option \<times> int option"

text \<open>\<open>u32::try_from(v).unwrap_or(u32::MAX)\<close>.\<close>

definition clamp_u32 :: "int \<Rightarrow> u32" where
  "clamp_u32 v = (if 0 \<le> v \<and> v < 2 ^ 32 then word_of_int v else - 1)"

definition aliases_of :: "alias_row list \<Rightarrow> string \<Rightarrow> string list" where
  "aliases_of alias_rows mid = map fst (filter (\<lambda>(alias, m). m = mid) alias_rows)"

definition capacity_of :: "capacity_row list \<Rightarrow> string \<Rightarrow> string \<Rightarrow> u32 option \<times> u32 option" where
  "capacity_of cap_rows mid protocol =
     (case map_of (rev (map (\<lambda>(m, p, rpm, tpm). ((m, p), (map_option clamp_u32 rpm, map_option clamp_u32 tpm))) cap_rows))
             (mid, protocol) of
        Some c \<Rightarrow> c | None \<Rightarrow> (None, None))"

definition row_key :: "route_row \<Rightarrow> string \<times> string" where
  "row_key row = (rr_model_id row, rr_api_compatibility row)"

definition row_fallback :: "route_row \<Rightarrow> bool" where
  "row_fallback row = (case rr_is_fallback row of Some v \<Rightarrow> v \<noteq> 0 | None \<Rightarrow> False)"

definition strategy_of_str :: "string \<Rightarrow> routing_strategy" where
  "strategy_of_str s = (if s = ''weighted_hash'' then WeightedHash else Swrr)"

definition clamp_weight :: "int \<Rightarrow> u8" where
  "clamp_weight w = word_of_int (max 1 (min 255 w))"

definition row_binding :: "nat \<Rightarrow> routing_strategy \<Rightarrow> route_row \<Rightarrow> binding result" where
  "row_binding now s row =
     (let ac = (case api_compatibility_from_str (rr_api_compatibility row) of Inr a \<Rightarrow> a | Inl _ \<Rightarrow> OpenAiApi);
          ptype = (case rr_provider_type row of
                     Some t \<Rightarrow> (case provider_type_from_str t of Inr p \<Rightarrow> p | Inl _ \<Rightarrow> Unknown)
                   | None \<Rightarrow> Unknown);
          nd = \<lparr>profile = \<lparr>profile_base_url = rr_base_url row, profile_provider_node_id = rr_provider_node_id row,
                            profile_api_compatibility = ac, profile_runtime_type = External,
                            profile_credential = \<lparr>cred_name = rr_provider_name row, cred_api_key = rr_api_key row,
                                                  cred_provider_type = ptype\<rparr>,
                            profile_upstream_model_name = rr_upstream_model_name row\<rparr>,
                healthy = True\<rparr>;
          weight = clamp_weight (rr_weight row);
          cfg = (case s of WeightedHash \<Rightarrow> WeightedHashConfig weight | Swrr \<Rightarrow> SwrrConfig weight)
      in binding_new now nd True cfg (if row_fallback row then 1 else 0))"

text \<open>One group, \<open>[]\<close> when the constructor refuses it (the code logs and skips).\<close>

definition rows_group ::
    "nat \<Rightarrow> alias_row list \<Rightarrow> capacity_row list \<Rightarrow> string \<times> string \<Rightarrow> route_row list \<Rightarrow> upstream_group list result" where
  "rows_group now alias_rows cap_rows key rows =
     (case key of (mid, protocol) \<Rightarrow>
        (let s = (case rows of r # _ \<Rightarrow> strategy_of_str (rr_strategy r) | [] \<Rightarrow> Swrr);
             limit = (\<lambda>f. case rows of r # _ \<Rightarrow> map_option clamp_u32 (f r) | [] \<Rightarrow> None);
             (cap_rpm, cap_tpm) = capacity_of cap_rows mid protocol;
             card = with_aliases (model_card_new mid) (aliases_of alias_rows mid)
         in rbind (collect_results (row_binding now s) rows)
              (\<lambda>bindings.
                 case group_new card s bindings of
                   Inr g \<Rightarrow> Inr [with_primary_capacity cap_rpm cap_tpm
                     (with_rate_limits (limit rr_key_rpm) (limit rr_key_tpm) (limit rr_model_rpm) (limit rr_model_tpm) g)]
                 | Inl e \<Rightarrow> Inr [])))"

definition load_all_upstream_groups ::
    "nat \<Rightarrow> (string \<times> string) list \<Rightarrow> route_row list \<Rightarrow> alias_row list \<Rightarrow> capacity_row list
       \<Rightarrow> upstream_group list result" where
  "load_all_upstream_groups now keys rows alias_rows cap_rows =
     (if rows = [] then Inr []
      else rbind (collect_results
             (\<lambda>key. rows_group now alias_rows cap_rows key (filter (\<lambda>row. row_key row = key) rows)) keys)
             (\<lambda>gss. Inr (concat gss)))"

section \<open>The clamped weight\<close>

lemma clamp_weight_nonzero: "clamp_weight w \<noteq> 0"
proof -
  have "uint (clamp_weight w) = max 1 (min 255 w)"
    unfolding clamp_weight_def uint_word_of_int by (rule mod_pos_pos_trivial) auto
  then have "uint (clamp_weight w) \<noteq> 0" by simp
  then show ?thesis by auto
qed

text \<open>What a row says of a binding.\<close>

definition row_api :: "route_row \<Rightarrow> api_compatibility" where
  "row_api row = (case api_compatibility_from_str (rr_api_compatibility row) of Inr a \<Rightarrow> a | Inl _ \<Rightarrow> OpenAiApi)"

definition row_summary :: "route_row \<Rightarrow> string \<times> string \<times> string \<times> string option \<times> api_compatibility \<times> u8 \<times> bool" where
  "row_summary row =
     (rr_base_url row, rr_provider_name row, rr_provider_node_id row, rr_upstream_model_name row, row_api row,
      if row_fallback row then 1 else 0, True)"

definition binding_summary :: "binding \<Rightarrow> string \<times> string \<times> string \<times> string option \<times> api_compatibility \<times> u8 \<times> bool" where
  "binding_summary b =
     (base_url b, provider_id b, provider_node_id b, profile_upstream_model_name (profile (node b)), api_compatibility_of b,
      priority b, enabled b \<and> healthy (node b))"

lemma row_binding_total:
  "\<exists>b. row_binding now s row = Inr b \<and> binding_summary b = row_summary row
     \<and> rsc_strategy (strategy_config b) = s \<and> binding_weight b \<noteq> 0 \<and> breaker_inv (circuit_breaker b)"
  by (cases s) (simp_all add: row_binding_def binding_new_def rsc_validate_def clamp_weight_nonzero Let_def
      breaker_new_def inv_created binding_summary_def row_summary_def row_api_def)

lemma row_bindings_total:
  "\<exists>bs. collect_results (row_binding now s) rs = Inr bs \<and> map binding_summary bs = map row_summary rs
     \<and> (\<forall>b \<in> set bs. rsc_strategy (strategy_config b) = s \<and> binding_weight b \<noteq> 0 \<and> breaker_inv (circuit_breaker b))"
proof (induction rs)
  case (Cons r rs)
  with row_binding_total [of now s r] show ?case by auto
qed simp

text \<open>The group a key's rows become.\<close>

definition group_of_rows :: "alias_row list \<Rightarrow> string \<times> string \<Rightarrow> route_row list \<Rightarrow> upstream_group \<Rightarrow> bool" where
  "group_of_rows alias_rows key rows g \<longleftrightarrow>
     model_id (model g) = fst key \<and> aliases (model g) = aliases_of alias_rows (fst key) \<and> group_wf g
   \<and> map binding_summary (upstreams g) = map row_summary rows"

lemma rows_group_total:
  assumes "rs \<noteq> []"
  shows "\<exists>g. rows_group now alias_rows cap_rows key rs = Inr [g] \<and> group_of_rows alias_rows key rs g"
proof -
  let ?s = "case rs of r # _ \<Rightarrow> strategy_of_str (rr_strategy r) | [] \<Rightarrow> Swrr"
  obtain bs where b: "collect_results (row_binding now ?s) rs = Inr bs"
    "map binding_summary bs = map row_summary rs"
    "\<forall>b \<in> set bs. rsc_strategy (strategy_config b) = ?s \<and> binding_weight b \<noteq> 0 \<and> breaker_inv (circuit_breaker b)"
    using row_bindings_total by blast
  from b(2) assms have "bs \<noteq> []" by auto
  obtain mid protocol where k: "key = (mid, protocol)" by force
  let ?card = "with_aliases (model_card_new mid) (aliases_of alias_rows mid)"
  have "\<exists>g. group_new ?card ?s bs = Inr g" unfolding group_new_eq_Inr_iff using \<open>bs \<noteq> []\<close> b(3) by blast
  then obtain g where g: "group_new ?card ?s bs = Inr g" by blast
  have gf: "model g = ?card" "upstreams g = bs" using g by (auto simp: group_new_eq_Inr_iff)
  have "group_wf g" using g b(3) \<open>bs \<noteq> []\<close> by (auto simp: group_new_eq_Inr_iff group_wf_def)
  with g gf b k show ?thesis
    by (auto simp: rows_group_def Let_def with_primary_capacity_def with_rate_limits_def group_wf_def group_of_rows_def
        with_aliases_def model_card_new_def split: prod.split)
qed

text \<open>
  Loading routes from the database always succeeds, whatever the columns hold: every pair of a
  model and a protocol that has rows, in the order the map yields them, becomes exactly one group, well formed, with one binding per
  row, in the order of the rows, enabled, healthy and with a weight that is not 0, in tier 1 when the
  row is a fallback and in tier 0 otherwise.
\<close>

lemma database_routes_total:
  assumes "set keys = set (map row_key rows)"
  shows "\<exists>gs. load_all_upstream_groups now keys rows alias_rows cap_rows = Inr gs
       \<and> list_all2 (\<lambda>key. group_of_rows alias_rows key (filter (\<lambda>row. row_key row = key) rows)) keys gs"
proof -
  let ?rows = "\<lambda>key. filter (\<lambda>row. row_key row = key) rows"
  let ?f = "\<lambda>key. rows_group now alias_rows cap_rows key (?rows key)"
  have one: "\<exists>g. ?f key = Inr [g] \<and> group_of_rows alias_rows key (?rows key) g" if "key \<in> set keys" for key
    using that assms by (intro rows_group_total) (auto simp: filter_empty_conv)
  have "\<exists>gs. collect_results ?f ks = Inr (map (\<lambda>g. [g]) gs)
      \<and> list_all2 (\<lambda>key. group_of_rows alias_rows key (?rows key)) ks gs" if "set ks \<subseteq> set keys" for ks
    using that
  proof (induction ks)
    case (Cons k ks)
    from one [of k] Cons.prems obtain g where g: "?f k = Inr [g]" "group_of_rows alias_rows k (?rows k) g" by auto
    from Cons obtain gs where gs: "collect_results ?f ks = Inr (map (\<lambda>g. [g]) gs)"
      "list_all2 (\<lambda>key. group_of_rows alias_rows key (?rows key)) ks gs" by auto
    from g gs show ?case by (intro exI [of _ "g # gs"]) simp
  qed simp
  then obtain gs where gs: "collect_results ?f keys = Inr (map (\<lambda>g. [g]) gs)"
    "list_all2 (\<lambda>key. group_of_rows alias_rows key (?rows key)) keys gs" by blast
  show ?thesis
  proof (cases "rows = []")
    case True
    with assms show ?thesis by (simp add: load_all_upstream_groups_def)
  next
    case False
    with gs show ?thesis
      by (intro exI [of _ gs]) (simp add: load_all_upstream_groups_def comp_def)
  qed
qed

definition example_row :: "string \<Rightarrow> int \<Rightarrow> route_row" where
  "example_row url w =
     \<lparr>rr_model_id = ''m'', rr_strategy = ''swrr'', rr_is_fallback = Some 1, rr_weight = w,
      rr_upstream_model_name = None, rr_provider_node_id = ''n'', rr_base_url = url,
      rr_api_compatibility = ''openai'', rr_api_key = None, rr_provider_name = ''p'', rr_provider_type = None,
      rr_key_rpm = None, rr_key_tpm = None, rr_model_rpm = None, rr_model_tpm = None\<rparr>"

end
