(* ===== verification/Route_Query.thy ===== *)
theory Route_Query
  imports Route_Store "HOL-Library.Multiset"
begin

text \<open>
  The queries behind the routes of a database (\<^verbatim>\<open>server/src/db/route_store.rs\<close>) as
  relational algebra over the tables, and what the tables decide of the registry.  The collation that
  orders texts is a parameter; the order of rows that its keys do not tell apart is left open.
\<close>

section \<open>Tables\<close>

record model_rec =
  m_id :: string
  m_status :: "string option"
  m_key_rpm :: "int option"
  m_key_tpm :: "int option"
  m_model_rpm :: "int option"
  m_model_tpm :: "int option"

record provider_rec =
  p_id :: string
  p_name :: string
  p_api_key :: "string option"
  p_provider_type :: "string option"

record provider_node_rec =
  pn_id :: string
  pn_provider_id :: string
  pn_base_url :: string
  pn_api_compatibility :: string

record model_route_rec =
  mr_model_id :: string
  mr_provider_node_id :: string
  mr_strategy :: string
  mr_is_fallback :: bool
  mr_weight :: int
  mr_upstream_model_name :: "string option"

record route_tables =
  t_models :: "model_rec list"
  t_providers :: "provider_rec list"
  t_provider_nodes :: "provider_node_rec list"
  t_model_routes :: "model_route_rec list"
  t_model_aliases :: "alias_row list"
  t_capacities :: "capacity_row list"

section \<open>The query\<close>

text \<open>A null status makes the condition unknown, which drops the row.\<close>

definition not_disabled :: "model_rec \<Rightarrow> bool" where
  "not_disabled m = (case m_status m of Some s \<Rightarrow> s \<noteq> ''disabled'' | None \<Rightarrow> False)"

definition select_row :: "model_route_rec \<Rightarrow> provider_node_rec \<Rightarrow> provider_rec \<Rightarrow> model_rec \<Rightarrow> route_row" where
  "select_row mr pn p m =
     \<lparr>rr_model_id = mr_model_id mr, rr_strategy = mr_strategy mr,
      rr_is_fallback = Some (if mr_is_fallback mr then 1 else 0), rr_weight = mr_weight mr,
      rr_upstream_model_name = mr_upstream_model_name mr, rr_provider_node_id = pn_id pn,
      rr_base_url = pn_base_url pn, rr_api_compatibility = pn_api_compatibility pn, rr_api_key = p_api_key p,
      rr_provider_name = p_name p, rr_provider_type = p_provider_type p, rr_key_rpm = m_key_rpm m,
      rr_key_tpm = m_key_tpm m, rr_model_rpm = m_model_rpm m, rr_model_tpm = m_model_tpm m\<rparr>"

definition route_join :: "route_tables \<Rightarrow> route_row list" where
  "route_join db =
     [select_row mr pn p m. mr \<leftarrow> t_model_routes db,
        pn \<leftarrow> t_provider_nodes db, pn_id pn = mr_provider_node_id mr,
        p \<leftarrow> t_providers db, p_id p = pn_provider_id pn,
        m \<leftarrow> t_models db, m_id m = mr_model_id mr, not_disabled m]"

text \<open>\<open>ORDER BY model_id, api_compatibility, is_fallback, weight DESC\<close>.\<close>

definition fallback_column :: "route_row \<Rightarrow> int" where
  "fallback_column row = (case rr_is_fallback row of Some v \<Rightarrow> v | None \<Rightarrow> 0)"

definition row_before :: "(string \<Rightarrow> 'k::linorder) \<Rightarrow> route_row \<Rightarrow> route_row \<Rightarrow> bool" where
  "row_before coll a b \<longleftrightarrow>
     coll (rr_model_id a) < coll (rr_model_id b)
   \<or> (coll (rr_model_id a) = coll (rr_model_id b)
      \<and> (coll (rr_api_compatibility a) < coll (rr_api_compatibility b)
        \<or> (coll (rr_api_compatibility a) = coll (rr_api_compatibility b)
           \<and> (fallback_column a < fallback_column b
             \<or> (fallback_column a = fallback_column b \<and> rr_weight b \<le> rr_weight a)))))"

definition query_answer :: "(string \<Rightarrow> 'k::linorder) \<Rightarrow> route_tables \<Rightarrow> route_row list \<Rightarrow> bool" where
  "query_answer coll db rows \<longleftrightarrow> mset rows = mset (route_join db) \<and> sorted_wrt (row_before coll) rows"

text \<open>
  The load from the tables: the three queries, and the rows grouped in the order \<open>keys\<close>.
\<close>

definition load_from_tables ::
    "nat \<Rightarrow> (string \<times> string) list \<Rightarrow> route_row list \<Rightarrow> route_tables \<Rightarrow> upstream_group list result" where
  "load_from_tables now keys rows db =
     load_all_upstream_groups now keys rows (t_model_aliases db) (t_capacities db)"

section \<open>What the tables say\<close>

definition routed :: "route_tables \<Rightarrow> model_route_rec \<Rightarrow> provider_node_rec \<Rightarrow> provider_rec \<Rightarrow> model_rec \<Rightarrow> bool" where
  "routed db mr pn p m \<longleftrightarrow>
     mr \<in> set (t_model_routes db) \<and> pn \<in> set (t_provider_nodes db) \<and> p \<in> set (t_providers db) \<and> m \<in> set (t_models db)
   \<and> pn_id pn = mr_provider_node_id mr \<and> p_id p = pn_provider_id pn \<and> m_id m = mr_model_id mr \<and> not_disabled m"

lemma set_route_join: "set (route_join db) = {select_row mr pn p m | mr pn p m. routed db mr pn p m}"
  by (auto simp: route_join_def routed_def split: if_splits)

definition node_protocol :: "provider_node_rec \<Rightarrow> string" where
  "node_protocol pn = api_compatibility_str (case api_compatibility_from_str (pn_api_compatibility pn) of
     Inr a \<Rightarrow> a | Inl _ \<Rightarrow> OpenAiApi)"

text \<open>A model is asked for by its id or by an alias of it.\<close>

definition names_model :: "route_tables \<Rightarrow> string \<Rightarrow> string \<Rightarrow> bool" where
  "names_model db name mid \<longleftrightarrow> name = mid \<or> (name, mid) \<in> set (t_model_aliases db)"

definition route_summary ::
    "model_route_rec \<Rightarrow> provider_node_rec \<Rightarrow> provider_rec \<Rightarrow> string \<times> string \<times> string \<times> string option \<times> string \<times> u8 \<times> bool" where
  "route_summary mr pn p =
     (pn_base_url pn, p_name p, pn_id pn, mr_upstream_model_name mr, node_protocol pn,
      if mr_is_fallback mr then 1 else 0, True)"

definition binding_as_route :: "binding \<Rightarrow> string \<times> string \<times> string \<times> string option \<times> string \<times> u8 \<times> bool" where
  "binding_as_route b =
     (base_url b, provider_id b, provider_node_id b, profile_upstream_model_name (profile (node b)),
      api_compatibility_str (api_compatibility_of b), priority b, enabled b \<and> healthy (node b))"

lemma select_row_simps [simp]:
  "rr_model_id (select_row mr pn p m) = mr_model_id mr"
  "row_key (select_row mr pn p m) = (mr_model_id mr, pn_api_compatibility pn)"
  "row_fallback (select_row mr pn p m) = mr_is_fallback mr"
  "fallback_column (select_row mr pn p m) = (if mr_is_fallback mr then 1 else 0)"
  "api_compatibility_str (row_api (select_row mr pn p m)) = node_protocol pn"
  by (simp_all add: select_row_def row_key_def row_fallback_def fallback_column_def row_api_def node_protocol_def)

lemma summary_as_route:
  "binding_summary b = row_summary (select_row mr pn p m) \<Longrightarrow> binding_as_route b = route_summary mr pn p"
  by (auto simp: binding_summary_def row_summary_def binding_as_route_def route_summary_def row_api_def
      node_protocol_def select_row_def row_fallback_def)

section \<open>From tables to groups\<close>

text \<open>One loaded group and the key whose rows it holds.\<close>

lemma group_from_key:
  assumes "group_of_rows (t_model_aliases db) key (filter (\<lambda>row. row_key row = key) rows) g"
    and "set rows = set (route_join db)" "key \<in> set (map row_key rows)"
  obtains mr pn p m where "routed db mr pn p m" "key = (mr_model_id mr, pn_api_compatibility pn)"
    "model_id (model g) = mr_model_id mr" "infer_protocol g = node_protocol pn"
    "\<forall>name. group_matches g name \<longleftrightarrow> names_model db name (mr_model_id mr)"
    "\<forall>b \<in> set (upstreams g). \<exists>mr' pn' p' m'. routed db mr' pn' p' m' \<and> mr_model_id mr' = mr_model_id mr
       \<and> pn_api_compatibility pn' = pn_api_compatibility pn \<and> binding_as_route b = route_summary mr' pn' p'"
proof -
  let ?rs = "filter (\<lambda>row. row_key row = key) rows"
  have all: "\<exists>mr pn p m. row = select_row mr pn p m \<and> routed db mr pn p m \<and> row_key row = key" if "row \<in> set ?rs" for row
    using that assms(2) by (fastforce simp: set_route_join)
  obtain r rs where rs: "?rs = r # rs" using assms(3) by (cases ?rs) (auto simp: filter_empty_conv)
  then have "r \<in> set ?rs" by simp
  then obtain mr pn p m where r: "r = select_row mr pn p m" "routed db mr pn p m" "row_key r = key" using all by blast
  from assms(1) have g: "model_id (model g) = fst key" "aliases (model g) = aliases_of (t_model_aliases db) (fst key)"
    "map binding_summary (upstreams g) = map row_summary ?rs" by (simp_all add: group_of_rows_def)
  from r have key: "key = (mr_model_id mr, pn_api_compatibility pn)" by simp
  show ?thesis
  proof
    show "routed db mr pn p m" by (rule r(2))
    show "key = (mr_model_id mr, pn_api_compatibility pn)" by (rule key)
    show "model_id (model g) = mr_model_id mr" using g(1) key by simp
    obtain b bs where b: "upstreams g = b # bs" "binding_summary b = row_summary r"
      using g(3) unfolding rs by (cases "upstreams g") auto
    from summary_as_route [OF b(2) [unfolded r(1)]] b(1) show "infer_protocol g = node_protocol pn"
      by (simp add: infer_protocol_def binding_as_route_def route_summary_def)
    show "\<forall>name. group_matches g name \<longleftrightarrow> names_model db name (mr_model_id mr)"
      using g(1,2) key by (auto simp: group_matches_def model_matches_def aliases_of_def names_model_def image_iff)
    show "\<forall>b \<in> set (upstreams g). \<exists>mr' pn' p' m'. routed db mr' pn' p' m' \<and> mr_model_id mr' = mr_model_id mr
       \<and> pn_api_compatibility pn' = pn_api_compatibility pn \<and> binding_as_route b = route_summary mr' pn' p'"
    proof
      fix b assume "b \<in> set (upstreams g)"
      then have "binding_summary b \<in> row_summary ` set ?rs" using g(3) by (metis image_eqI list.set_map)
      then obtain row where row: "row \<in> set ?rs" "binding_summary b = row_summary row" by blast
      from all [OF row(1)] obtain mr' pn' p' m' where
        "row = select_row mr' pn' p' m'" "routed db mr' pn' p' m'" "row_key row = key" by blast
      with row(2) key show "\<exists>mr' pn' p' m'. routed db mr' pn' p' m' \<and> mr_model_id mr' = mr_model_id mr
         \<and> pn_api_compatibility pn' = pn_api_compatibility pn \<and> binding_as_route b = route_summary mr' pn' p'"
        using summary_as_route by auto
    qed
  qed
qed

text \<open>Within a key the rows come in tiers, so the bindings of a group do.\<close>

lemma rows_in_tiers:
  assumes "sorted_wrt (row_before coll) rows" "set rows \<subseteq> set (route_join db)"
  shows "sorted (map (\<lambda>row. if row_fallback row then 1 else (0::u8)) (filter (\<lambda>row. row_key row = key) rows))"
  using assms
proof (induction rows)
  case (Cons r rows)
  have "row_fallback r \<Longrightarrow> row_fallback row" if "row \<in> set rows" "row_key row = row_key r" for row
    using that Cons.prems by (fastforce simp: set_route_join row_before_def row_key_def split: if_splits)
  with Cons show ?case by auto
qed simp

lemma group_in_tiers:
  assumes "group_of_rows alias_rows key (filter (\<lambda>row. row_key row = key) rows) g"
    and "sorted_wrt (row_before coll) rows" "set rows \<subseteq> set (route_join db)"
  shows "sorted (map priority (upstreams g))"
proof -
  let ?tier = "\<lambda>(url, name, nid, um, api, prio, up). prio"
  have "map priority (upstreams g) = map ?tier (map binding_summary (upstreams g))"
    by (simp add: comp_def binding_summary_def)
  also have "\<dots> = map ?tier (map row_summary (filter (\<lambda>row. row_key row = key) rows))"
    using assms(1) by (simp add: group_of_rows_def)
  also have "\<dots> = map (\<lambda>row. if row_fallback row then 1 else 0) (filter (\<lambda>row. row_key row = key) rows)"
    by (simp add: comp_def row_summary_def)
  finally show ?thesis using rows_in_tiers [OF assms(2,3)] by simp
qed

section \<open>From tables to the registry\<close>

text \<open>The route rows that serve a name on a protocol.\<close>

definition routes_to :: "route_tables \<Rightarrow> string \<Rightarrow> string \<Rightarrow> model_route_rec \<Rightarrow> provider_node_rec \<Rightarrow> provider_rec \<Rightarrow> bool" where
  "routes_to db name proto mr pn p \<longleftrightarrow>
     (\<exists>m. routed db mr pn p m) \<and> names_model db name (mr_model_id mr) \<and> node_protocol pn = proto"

lemma list_all2_members:
  assumes "list_all2 P xs ys"
  shows "y \<in> set ys \<Longrightarrow> \<exists>x \<in> set xs. P x y" "x \<in> set xs \<Longrightarrow> \<exists>y \<in> set ys. P x y"
  using assms by (induction rule: list_all2_induct) auto

lemma loaded_groups:
  assumes "query_answer coll db rows" "set keys = set (map row_key rows)"
  obtains gs where "load_from_tables now keys rows db = Inr gs"
    "\<And>g. g \<in> set gs \<Longrightarrow> \<exists>key \<in> set keys. group_of_rows (t_model_aliases db) key (filter (\<lambda>row. row_key row = key) rows) g"
    "\<And>key. key \<in> set keys \<Longrightarrow> \<exists>g \<in> set gs. group_of_rows (t_model_aliases db) key (filter (\<lambda>row. row_key row = key) rows) g"
proof -
  from database_routes_total [OF assms(2), of now "t_model_aliases db" "t_capacities db"] obtain gs where
    gs: "load_from_tables now keys rows db = Inr gs"
    "list_all2 (\<lambda>key. group_of_rows (t_model_aliases db) key (filter (\<lambda>row. row_key row = key) rows)) keys gs"
    unfolding load_from_tables_def by blast
  show ?thesis
  proof (rule that [OF gs(1)])
    show "\<exists>key \<in> set keys. group_of_rows (t_model_aliases db) key (filter (\<lambda>row. row_key row = key) rows) g"
      if "g \<in> set gs" for g
      by (rule list_all2_members(1) [OF gs(2) that])
    show "\<exists>g \<in> set gs. group_of_rows (t_model_aliases db) key (filter (\<lambda>row. row_key row = key) rows) g"
      if "key \<in> set keys" for key
      by (rule list_all2_members(2) [OF gs(2) that])
  qed
qed

text \<open>A loaded group serves a name on a protocol iff a route of the tables leads there.\<close>

lemma group_serves_route:
  assumes "query_answer coll db rows" "set keys = set (map row_key rows)" "key \<in> set keys"
    and "group_of_rows (t_model_aliases db) key (filter (\<lambda>row. row_key row = key) rows) g" "serves g name proto"
  shows "(\<forall>b \<in> set (upstreams g). \<exists>mr pn p. routes_to db name proto mr pn p \<and> binding_as_route b = route_summary mr pn p)
       \<and> sorted (map priority (upstreams g)) \<and> (\<exists>mr pn p. routes_to db name proto mr pn p)"
proof -
  from assms(1) have rows: "set rows = set (route_join db)" "sorted_wrt (row_before coll) rows"
    by (auto simp: query_answer_def dest: mset_eq_setD)
  from assms(2,3) have "key \<in> set (map row_key rows)" by simp
  then obtain mr pn p m where k:
    "routed db mr pn p m" "infer_protocol g = node_protocol pn"
    "\<forall>name. group_matches g name \<longleftrightarrow> names_model db name (mr_model_id mr)"
    "\<forall>b \<in> set (upstreams g). \<exists>mr' pn' p' m'. routed db mr' pn' p' m' \<and> mr_model_id mr' = mr_model_id mr
       \<and> pn_api_compatibility pn' = pn_api_compatibility pn \<and> binding_as_route b = route_summary mr' pn' p'"
    by (rule group_from_key [OF assms(4) rows(1)])
  have to: "names_model db name (mr_model_id mr)" "node_protocol pn = proto"
    using k(2,3) assms(5) by (auto simp: serves_def)
  have same: "node_protocol pn' = node_protocol pn" if "pn_api_compatibility pn' = pn_api_compatibility pn" for pn'
    using that by (simp add: node_protocol_def)
  have "\<forall>b \<in> set (upstreams g). \<exists>mr pn p. routes_to db name proto mr pn p \<and> binding_as_route b = route_summary mr pn p"
    using k(4) to same unfolding routes_to_def by metis
  moreover have "sorted (map priority (upstreams g))"
    by (rule group_in_tiers [where db = db, OF assms(4) rows(2)]) (simp add: rows(1))
  ultimately show ?thesis using k(1) to unfolding routes_to_def by blast
qed

lemma route_has_group:
  assumes "query_answer coll db rows" "set keys = set (map row_key rows)" "routed db mr pn p m"
    and "\<And>key. key \<in> set keys \<Longrightarrow> \<exists>g \<in> set gs. group_of_rows (t_model_aliases db) key (filter (\<lambda>row. row_key row = key) rows) g"
  shows "\<exists>g \<in> set gs. model_id (model g) = mr_model_id mr
       \<and> (\<forall>name. names_model db name (mr_model_id mr) \<longrightarrow> serves g name (node_protocol pn))"
proof -
  from assms(1) have rows: "set rows = set (route_join db)" by (auto simp: query_answer_def dest: mset_eq_setD)
  have "select_row mr pn p m \<in> set rows" using assms(3) by (auto simp: rows set_route_join)
  then have key: "(mr_model_id mr, pn_api_compatibility pn) \<in> set (map row_key rows)"
    by (metis image_eqI list.set_map select_row_simps(2))
  with assms(2,4) obtain g where g: "g \<in> set gs"
    "group_of_rows (t_model_aliases db) (mr_model_id mr, pn_api_compatibility pn)
       (filter (\<lambda>row. row_key row = (mr_model_id mr, pn_api_compatibility pn)) rows) g" by blast
  obtain mr' pn' p' m' where k: "routed db mr' pn' p' m'"
    "(mr_model_id mr, pn_api_compatibility pn) = (mr_model_id mr', pn_api_compatibility pn')"
    "model_id (model g) = mr_model_id mr'" "infer_protocol g = node_protocol pn'"
    "\<forall>name. group_matches g name \<longleftrightarrow> names_model db name (mr_model_id mr')"
    "\<forall>b \<in> set (upstreams g). \<exists>mr'' pn'' p'' m''. routed db mr'' pn'' p'' m'' \<and> mr_model_id mr'' = mr_model_id mr'
       \<and> pn_api_compatibility pn'' = pn_api_compatibility pn' \<and> binding_as_route b = route_summary mr'' pn'' p''"
    by (rule group_from_key [OF g(2) rows key])
  with g(1) show ?thesis by (auto simp: serves_def node_protocol_def)
qed

text \<open>
  C40. The tables of the database decide what the gateway routes: loading the query's answer succeeds
  and, after the reload, a name leads to a group on a protocol exactly when a route of the tables joins
  a model of that name or alias, not disabled, to a node of that protocol; every binding of that group
  is such a route, with its URL, provider, node, model name and tier, the primary tier first; the
  listed models are those with a route, and a disabled model is never listed.
\<close>

theorem tables_decide_routing:
  assumes "query_answer coll db rows" "set keys = set (map row_key rows)"
    and "registry_inv r" "CHR 0x00 \<notin> set proto" "distinct (map m_id (t_models db))"
  shows "\<exists>gs. load_from_tables now keys rows db = Inr gs
       \<and> (case get_protocol_group name proto (reload_all now' gs r) of
            None \<Rightarrow> \<forall>mr pn p. \<not> routes_to db name proto mr pn p
          | Some gi \<Rightarrow>
              (\<exists>mr pn p. routes_to db name proto mr pn p)
            \<and> (\<forall>b \<in> set (upstreams (group_store (reload_all now' gs r) ! gi)).
                 \<exists>mr pn p. routes_to db name proto mr pn p \<and> binding_as_route b = route_summary mr pn p)
            \<and> sorted (map priority (upstreams (group_store (reload_all now' gs r) ! gi))))
       \<and> set (all_model_ids (reload_all now' gs r)) = {mr_model_id mr | mr pn p m. routed db mr pn p m}
       \<and> (\<forall>m \<in> set (t_models db). \<not> not_disabled m \<longrightarrow> m_id m \<notin> set (all_model_ids (reload_all now' gs r)))"
proof -
  from loaded_groups [OF assms(1,2), of now] obtain gs where gs: "load_from_tables now keys rows db = Inr gs"
    and of_key: "\<And>g. g \<in> set gs \<Longrightarrow>
      \<exists>key \<in> set keys. group_of_rows (t_model_aliases db) key (filter (\<lambda>row. row_key row = key) rows) g"
    and of_group: "\<And>key. key \<in> set keys \<Longrightarrow>
      \<exists>g \<in> set gs. group_of_rows (t_model_aliases db) key (filter (\<lambda>row. row_key row = key) rows) g"
    by blast
  let ?r = "reload_all now' gs r"
  have wf: "\<forall>g \<in> set gs. group_wf g" using of_key by (auto simp: group_of_rows_def)
  note reload = reload_replaces_all [OF assms(3) wf assms(4) refl, of name now' "[]"]
  have lookup: "case get_protocol_group name proto ?r of
            None \<Rightarrow> \<forall>mr pn p. \<not> routes_to db name proto mr pn p
          | Some gi \<Rightarrow>
              (\<exists>mr pn p. routes_to db name proto mr pn p)
            \<and> (\<forall>b \<in> set (upstreams (group_store ?r ! gi)).
                 \<exists>mr pn p. routes_to db name proto mr pn p \<and> binding_as_route b = route_summary mr pn p)
            \<and> sorted (map priority (upstreams (group_store ?r ! gi)))"
  proof (cases "get_protocol_group name proto ?r")
    case None
    then have "\<forall>g \<in> set gs. \<not> serves g name proto" using reload by simp
    then show ?thesis
      using None route_has_group [OF assms(1,2) _ of_group] by (fastforce simp: routes_to_def)
  next
    case (Some gi)
    from reload [THEN conjunct1] obtain xs g ys where split: "gs = xs @ g # ys" "serves g name proto" "group_store ?r ! gi = g"
      unfolding Some option.case by blast
    from split(1) have "g \<in> set gs" by simp
    with split have g: "group_store ?r ! gi \<in> set gs" "serves (group_store ?r ! gi) name proto" by simp_all
    from of_key [OF g(1)] group_serves_route [OF assms(1,2) _ _ g(2)] show ?thesis unfolding Some option.case by blast
  qed
  have ids: "set (all_model_ids ?r) = {mr_model_id mr | mr pn p m. routed db mr pn p m}"
  proof -
    have "set (all_model_ids ?r) = (\<lambda>g. model_id (model g)) ` set gs" using reload by simp
    moreover have loaded: "\<exists>mr pn p m. routed db mr pn p m \<and> model_id (model g) = mr_model_id mr" if "g \<in> set gs" for g
    proof -
      from of_key [OF that] obtain key where key: "key \<in> set keys"
        "group_of_rows (t_model_aliases db) key (filter (\<lambda>row. row_key row = key) rows) g" by blast
      from assms(1) have "set rows = set (route_join db)" by (auto simp: query_answer_def dest: mset_eq_setD)
      moreover from key(1) assms(2) have "key \<in> set (map row_key rows)" by simp
      ultimately show ?thesis by (rule group_from_key [OF key(2)]) blast
    qed
    moreover have "mr_model_id mr \<in> (\<lambda>g. model_id (model g)) ` set gs" if "routed db mr pn p m" for mr pn p m
      using route_has_group [OF assms(1,2) that of_group] by (auto simp: image_iff) metis
    ultimately show ?thesis by (auto dest!: loaded)
  qed
  have "m_id m \<notin> set (all_model_ids ?r)" if "m \<in> set (t_models db)" "\<not> not_disabled m" for m
    using that assms(5) unfolding ids routed_def by (clarsimp simp: distinct_map) (metis inj_onD)
  with gs lookup ids show ?thesis by blast
qed

text \<open>Two models behind one node, one of them disabled.\<close>

definition example_model :: "string \<Rightarrow> string \<Rightarrow> model_rec" where
  "example_model mid status =
     \<lparr>m_id = mid, m_status = Some status, m_key_rpm = None, m_key_tpm = None, m_model_rpm = None, m_model_tpm = None\<rparr>"

definition example_route :: "string \<Rightarrow> bool \<Rightarrow> model_route_rec" where
  "example_route mid fallback =
     \<lparr>mr_model_id = mid, mr_provider_node_id = ''n'', mr_strategy = ''swrr'', mr_is_fallback = fallback,
      mr_weight = 1, mr_upstream_model_name = None\<rparr>"

definition example_tables :: route_tables where
  "example_tables =
     \<lparr>t_models = [example_model ''a'' ''active'', example_model ''b'' ''disabled''],
      t_providers = [\<lparr>p_id = ''p'', p_name = ''acme'', p_api_key = None, p_provider_type = None\<rparr>],
      t_provider_nodes = [\<lparr>pn_id = ''n'', pn_provider_id = ''p'', pn_base_url = ''u'', pn_api_compatibility = ''openai''\<rparr>],
      t_model_routes = [example_route ''a'' True, example_route ''b'' False, example_route ''a'' False],
      t_model_aliases = [(''alias'', ''a'')], t_capacities = []\<rparr>"

lemma tables_decide_routing_witness:
  "let rows = rev (route_join example_tables)
   in \<exists>gs. load_from_tables 7 [(''a'', ''openai'')] rows example_tables = Inr gs
       \<and> get_protocol_group ''alias'' ''openai'' (reload_all 8 gs registry_new) \<noteq> None
       \<and> set (all_model_ids (reload_all 8 gs registry_new)) = {''a''}"
proof -
  let ?rows = "rev (route_join example_tables)"
  note tables = example_tables_def example_model_def example_route_def
  have join: "route_join example_tables =
      [select_row (example_route ''a'' f) (hd (t_provider_nodes example_tables)) (hd (t_providers example_tables))
         (hd (t_models example_tables)). f \<leftarrow> [True, False]]"
    by (simp add: route_join_def tables not_disabled_def)
  have "query_answer length example_tables ?rows"
    unfolding query_answer_def join by (simp add: row_before_def select_row_def tables fallback_column_def)
  moreover have "set [(''a'', ''openai'')] = set (map row_key ?rows)"
    unfolding join by (simp add: tables)
  moreover have "CHR 0x00 \<notin> set ''openai''" "distinct (map m_id (t_models example_tables))"
    by (simp_all add: tables)
  ultimately obtain gs where gs: "load_from_tables 7 [(''a'', ''openai'')] ?rows example_tables = Inr gs"
    "case get_protocol_group ''alias'' ''openai'' (reload_all 8 gs registry_new) of
       None \<Rightarrow> \<forall>mr pn p. \<not> routes_to example_tables ''alias'' ''openai'' mr pn p | Some gi \<Rightarrow> True"
    "set (all_model_ids (reload_all 8 gs registry_new)) = {mr_model_id mr | mr pn p m. routed example_tables mr pn p m}"
    using tables_decide_routing [OF _ _ registry_inv_new, of length example_tables ?rows "[(''a'', ''openai'')]"
        "''openai''" 7 "''alias''" 8]
    by (auto split: option.splits)
  have routed: "routed example_tables mr pn p m \<longleftrightarrow>
      mr \<in> {example_route ''a'' True, example_route ''a'' False} \<and> pn = hd (t_provider_nodes example_tables)
    \<and> p = hd (t_providers example_tables) \<and> m = hd (t_models example_tables)" for mr pn p m
    by (auto simp: routed_def tables not_disabled_def)
  have "routes_to example_tables ''alias'' ''openai'' (example_route ''a'' True)
      (hd (t_provider_nodes example_tables)) (hd (t_providers example_tables))"
    unfolding routes_to_def routed
    by (simp add: names_model_def node_protocol_def api_compatibility_from_str_def eq_ignore_ascii_case_def tables)
  with gs(2) have "get_protocol_group ''alias'' ''openai'' (reload_all 8 gs registry_new) \<noteq> None"
    by (auto split: option.splits)
  moreover have "{mr_model_id mr | mr pn p m. routed example_tables mr pn p m} = {''a''}"
    unfolding routed
    by (auto simp: example_route_def intro: exI [of _ "example_route ''a'' True", unfolded example_route_def])
  ultimately show ?thesis using gs(1,3) by auto
qed

end
