(* ===== verification/Config_Poll.thy ===== *)
theory Config_Poll
  imports Admission Route_Store Registry_Evolution
begin

text \<open>
  Hot reload: the polling tasks of \<^verbatim>\<open>server/src/server.rs\<close> and the version read of
  \<^verbatim>\<open>server/src/db/config_version.rs\<close>.  The three database pollers (routes, keys, quotas)
  are one algorithm over three stores, whose contract with the poller is the locale
  \<open>reload_target\<close>, interpreted on each of them.  A tick reads the version, decides, loads and
  publishes; the database may change, and requests may use the store, between any two of these,
  which the step relation below allows.
\<close>

section \<open>One tick\<close>

datatype config_resource = Routes | ApiKeys | Quota

fun config_resource_str :: "config_resource \<Rightarrow> string" where
  "config_resource_str Routes = ''routes''"
| "config_resource_str ApiKeys = ''api_keys''"
| "config_resource_str Quota = ''quota''"

text \<open>The rows of \<open>config_versions\<close>; \<open>None\<close> also stands for a failed query.\<close>

definition load_config_version :: "(string \<Rightarrow> int option) option \<Rightarrow> config_resource \<Rightarrow> int option" where
  "load_config_version rows resource =
     (case rows of Some r \<Rightarrow> r (config_resource_str resource) | None \<Rightarrow> None)"

record poll_state =
  last_version :: "int option"
  last_full :: nat      \<comment> \<open>seconds\<close>

definition poll_start :: "nat \<Rightarrow> poll_state" where
  "poll_start now = \<lparr>last_version = None, last_full = now\<rparr>"

definition reload_due :: "nat \<Rightarrow> nat \<Rightarrow> int option \<Rightarrow> poll_state \<Rightarrow> bool" where
  "reload_due force_reload now current st =
     (let forced = (0 < force_reload \<and> force_reload \<le> now - last_full st)
      in \<not> (\<not> forced \<and> current \<noteq> None \<and> current = last_version st))"

definition publish ::
    "(nat \<Rightarrow> 'v \<Rightarrow> 's \<Rightarrow> 's) \<Rightarrow> nat \<Rightarrow> int option \<Rightarrow> 'v result \<Rightarrow> poll_state \<times> 's \<Rightarrow> poll_state \<times> 's" where
  "publish install now current loaded sx =
     (case loaded of
        Inr v \<Rightarrow> (\<lparr>last_version = current, last_full = now\<rparr>, install now v (snd sx))
      | Inl e \<Rightarrow> sx)"

definition db_poll_tick ::
    "(nat \<Rightarrow> 'v \<Rightarrow> 's \<Rightarrow> 's) \<Rightarrow> nat \<Rightarrow> nat \<Rightarrow> nat \<Rightarrow> int option \<Rightarrow> 'v result \<Rightarrow> poll_state \<times> 's \<Rightarrow> poll_state \<times> 's" where
  "db_poll_tick install force_reload now done current loaded sx =
     (if reload_due force_reload now current (fst sx) then publish install done current loaded sx else sx)"

definition routes_poll_tick ::
    "nat \<Rightarrow> nat \<Rightarrow> nat \<Rightarrow> int option \<Rightarrow> upstream_group list result \<Rightarrow> poll_state \<times> registry \<Rightarrow> poll_state \<times> registry" where
  "routes_poll_tick force_reload now done = db_poll_tick reload_all force_reload now done"

definition keys_poll_tick ::
    "nat \<Rightarrow> nat \<Rightarrow> nat \<Rightarrow> int option \<Rightarrow> (string \<times> api_key_lookup) list result \<Rightarrow> poll_state \<times> key_cache
       \<Rightarrow> poll_state \<times> key_cache" where
  "keys_poll_tick force_reload now done = db_poll_tick (\<lambda>_. cached_reload) force_reload now done"

definition quota_poll_tick ::
    "nat \<Rightarrow> nat \<Rightarrow> nat \<Rightarrow> int option \<Rightarrow> raw_api_key_quota list result \<Rightarrow> poll_state \<times> quota_store
       \<Rightarrow> poll_state \<times> quota_store" where
  "quota_poll_tick force_reload now done = db_poll_tick (\<lambda>_. quota_reload) force_reload now done"

text \<open>The file pollers compare modification times, and note the new one before they load.\<close>

definition file_poll_tick ::
    "('v \<Rightarrow> 's \<Rightarrow> 's) \<Rightarrow> 't option \<Rightarrow> 'v result \<Rightarrow> 't option \<times> 's \<Rightarrow> 't option \<times> 's" where
  "file_poll_tick install current_mod loaded sx =
     (if current_mod \<noteq> fst sx
      then (current_mod, case loaded of Inr v \<Rightarrow> install v (snd sx) | Inl e \<Rightarrow> snd sx)
      else sx)"

section \<open>The database and its poller\<close>

text \<open>
  The database's version and content, what the content was at every version so far, and the poller:
  its state, the store it publishes to, and the version it has read while it loads.  Requests use
  the store between the ticks, and may change in it what \<open>uses\<close> allows.
\<close>

record ('v, 's) sync =
  sy_version :: int
  sy_content :: 'v
  sy_history :: "int \<Rightarrow> 'v"
  sy_poll :: poll_state
  sy_store :: 's
  sy_loading :: "int option option"

text \<open>
  The database's side and the poller's.  A change of the content and the bump of the version are one
  step, as the administrator's transaction makes them, and a load is one snapshot of the content.  The
  code reads it with three queries; a load torn by a change between them is older than the version
  that change left, so the next tick loads again.
\<close>

inductive sync_step ::
    "(nat \<Rightarrow> 'v \<Rightarrow> 's \<Rightarrow> 's) \<Rightarrow> ('s \<Rightarrow> 's \<Rightarrow> bool) \<Rightarrow> nat \<Rightarrow> ('v, 's) sync \<Rightarrow> ('v, 's) sync \<Rightarrow> bool"
  for install uses force_reload where
  admin_change:
    "sync_step install uses force_reload y
       (y\<lparr>sy_version := sy_version y + 1, sy_content := v, sy_history := (sy_history y)(sy_version y + 1 := v)\<rparr>)"
| request_uses:
    "uses (sy_store y) s \<Longrightarrow> sync_step install uses force_reload y (y\<lparr>sy_store := s\<rparr>)"
| tick_skips:
    "sy_loading y = None \<Longrightarrow> current \<in> {None, Some (sy_version y)} \<Longrightarrow>
     \<not> reload_due force_reload now current (sy_poll y) \<Longrightarrow> sync_step install uses force_reload y y"
| tick_reads:
    "sy_loading y = None \<Longrightarrow> current \<in> {None, Some (sy_version y)} \<Longrightarrow>
     reload_due force_reload now current (sy_poll y) \<Longrightarrow>
     sync_step install uses force_reload y (y\<lparr>sy_loading := Some current\<rparr>)"
| tick_loads:
    "sy_loading y = Some current \<Longrightarrow> loaded \<in> {Inl e, Inr (sy_content y)} \<Longrightarrow>
     publish install now current loaded (sy_poll y, sy_store y) = (st, s) \<Longrightarrow>
     sync_step install uses force_reload y (y\<lparr>sy_poll := st, sy_store := s, sy_loading := None\<rparr>)"

definition sync_start :: "int \<Rightarrow> 'v \<Rightarrow> nat \<Rightarrow> 's \<Rightarrow> ('v, 's) sync" where
  "sync_start v content now s =
     \<lparr>sy_version = v, sy_content = content, sy_history = (\<lambda>_. content), sy_poll = poll_start now,
      sy_store = s, sy_loading = None\<rparr>"

section \<open>What a store promises its poller\<close>

text \<open>
  Installing a content makes the store agree with it, whatever the store held and whenever it
  happens, and using the store keeps that.
\<close>

locale reload_target =
  fixes install :: "nat \<Rightarrow> 'v \<Rightarrow> 's \<Rightarrow> 's"
    and uses :: "'s \<Rightarrow> 's \<Rightarrow> bool"
    and agrees :: "'v \<Rightarrow> 's \<Rightarrow> bool"
  assumes agrees_install: "agrees v (install t v s)"
    and agrees_uses: "agrees v s \<Longrightarrow> uses s s' \<Longrightarrow> agrees v s'"
begin

definition synced :: "('v, 's) sync \<Rightarrow> bool" where
  "synced y \<longleftrightarrow>
     sy_history y (sy_version y) = sy_content y
   \<and> (\<forall>v. sy_loading y = Some (Some v) \<longrightarrow> v \<le> sy_version y)
   \<and> (\<forall>v. last_version (sy_poll y) = Some v \<longrightarrow>
        (\<exists>u. v \<le> u \<and> u \<le> sy_version y \<and> agrees (sy_history y u) (sy_store y)))"

lemma synced_start: "synced (sync_start v content now s)"
  by (simp add: synced_def sync_start_def poll_start_def)

lemma synced_change:
  assumes "synced y"
  shows "synced (y\<lparr>sy_version := sy_version y + 1, sy_content := v,
                   sy_history := (sy_history y)(sy_version y + 1 := v)\<rparr>)" (is "synced ?y")
proof -
  have "\<exists>u. w \<le> u \<and> u \<le> sy_version ?y \<and> agrees (sy_history ?y u) (sy_store ?y)"
    if last: "last_version (sy_poll y) = Some w" for w
  proof -
    from assms last obtain u where u: "w \<le> u" "u \<le> sy_version y" "agrees (sy_history y u) (sy_store y)"
      unfolding synced_def by blast
    then have "u \<le> sy_version ?y" "agrees (sy_history ?y u) (sy_store ?y)" by simp_all
    with u(1) show ?thesis by blast
  qed
  moreover have "w \<le> sy_version ?y" if "sy_loading y = Some (Some w)" for w
    using assms that unfolding synced_def by fastforce
  ultimately show ?thesis unfolding synced_def by simp
qed

lemma synced_load:
  assumes "synced y" "sy_loading y = Some current" "loaded \<in> {Inl e, Inr (sy_content y)}"
    "publish install now current loaded (sy_poll y, sy_store y) = (st, s)"
  shows "synced (y\<lparr>sy_poll := st, sy_store := s, sy_loading := None\<rparr>)" (is "synced ?y")
proof (cases loaded)
  case (Inl e')
  with assms(4) have "st = sy_poll y" "s = sy_store y" by (auto simp: publish_def)
  with assms(1) show ?thesis by (simp add: synced_def)
next
  case (Inr v)
  with assms(3,4) have v: "st = \<lparr>last_version = current, last_full = now\<rparr>"
    "s = install now (sy_content y) (sy_store y)" by (auto simp: publish_def)
  have "\<exists>u. w \<le> u \<and> u \<le> sy_version ?y \<and> agrees (sy_history ?y u) (sy_store ?y)"
    if last: "last_version (sy_poll ?y) = Some w" for w
  proof -
    from last v(1) have "sy_loading y = Some (Some w)" using assms(2) by simp
    with assms(1) have "w \<le> sy_version ?y" unfolding synced_def by simp
    moreover have "agrees (sy_history ?y (sy_version ?y)) (sy_store ?y)"
      using v(2) assms(1) agrees_install by (simp add: synced_def)
    ultimately show ?thesis by blast
  qed
  moreover have "sy_history ?y (sy_version ?y) = sy_content ?y" "sy_loading ?y = None"
    using assms(1) by (simp_all add: synced_def)
  ultimately show ?thesis unfolding synced_def by simp
qed

lemma synced_step: "sync_step install uses force_reload y y' \<Longrightarrow> synced y \<Longrightarrow> synced y'"
proof (induction rule: sync_step.induct)
  case (request_uses y s)
  then have "agrees (sy_history y u) s" if "agrees (sy_history y u) (sy_store y)" for u
    using agrees_uses that by blast
  with request_uses.prems show ?case unfolding synced_def by (simp; blast)
next
  case (tick_reads y current now)
  have "w \<le> sy_version y" if "current = Some w" for w
    using tick_reads(2) that by auto
  with tick_reads.prems show ?case unfolding synced_def by simp
next
  case (tick_loads y current loaded e now st s)
  show ?case by (rule synced_load) (use tick_loads in simp_all)
qed (simp_all add: synced_change)

lemma reachable_synced:
  "(sync_step install uses force_reload)\<^sup>*\<^sup>* (sync_start v content now s) y \<Longrightarrow> synced y"
  by (induction rule: rtranclp_induct) (auto intro: synced_start synced_step)

lemma tick_agrees:
  assumes "(sync_step install uses force_reload)\<^sup>*\<^sup>* (sync_start v content now s) y"
    and "db_poll_tick install force_reload t done (Some (sy_version y)) (Inr (sy_content y)) (sy_poll y, sy_store y)
           = (st', s')"
  shows "agrees (sy_content y) s'"
proof (cases "reload_due force_reload t (Some (sy_version y)) (sy_poll y)")
  case True
  with assms(2) agrees_install show ?thesis by (auto simp: db_poll_tick_def publish_def)
next
  case False
  note inv = reachable_synced [OF assms(1)]
  from False have "last_version (sy_poll y) = Some (sy_version y)" by (auto simp: reload_due_def)
  with inv obtain u where "sy_version y \<le> u" "u \<le> sy_version y" "agrees (sy_history y u) (sy_store y)"
    unfolding synced_def by blast
  then have "u = sy_version y" "agrees (sy_history y u) (sy_store y)" by simp_all
  with inv have "agrees (sy_content y) (sy_store y)" by (simp add: synced_def)
  moreover from False assms(2) have "s' = sy_store y" by (simp add: db_poll_tick_def)
  ultimately show ?thesis by simp
qed

end

section \<open>The three stores\<close>

interpretation keys_target: reload_target "\<lambda>_. cached_reload" "(=)" "\<lambda>entries cache. cache = map_of (rev entries)"
  by unfold_locales (auto simp: cached_reload_def)

interpretation quotas_target: reload_target "\<lambda>_. quota_reload" "(=)"
    "\<lambda>entries qs. \<forall>kid mid. quota_get qs kid mid
       = map_of (rev (map (\<lambda>q. ((rq_api_key_id q, rq_model_id q), key_quota.truncate q)) entries)) (kid, mid)"
  by unfold_locales (auto simp: quota_reload_def quota_get_def)

text \<open>
  A registry agrees with a list of groups when it leads from the same keys, to groups configured as
  those a fresh registry loads; requests change only what \<open>evolves\<close> allows.
\<close>

definition same_routes :: "registry \<Rightarrow> registry \<Rightarrow> bool" where
  "same_routes r r' \<longleftrightarrow>
     reg_model_ids r = reg_model_ids r'
   \<and> (\<forall>k. rel_option (\<lambda>gi gi'. gi < length (group_store r) \<and> gi' < length (group_store r')
            \<and> group_static (group_store r ! gi) (group_store r' ! gi')) (reg_groups r k) (reg_groups r' k))"

lemma same_routes_store_group:
  assumes "same_routes r r'"
  shows "same_routes (store_group g r) (store_group g r')"
proof -
  have "rel_option (\<lambda>gi gi'. gi < length (group_store (store_group g r)) \<and> gi' < length (group_store (store_group g r'))
           \<and> group_static (group_store (store_group g r) ! gi) (group_store (store_group g r') ! gi'))
          (reg_groups (store_group g r) k) (reg_groups (store_group g r') k)" for k
  proof (cases "\<exists>mid. group_matches g mid \<and> k = group_key mid (infer_protocol g)")
    case True
    then show ?thesis by (simp add: store_group_groups group_static_refl)
  next
    case False
    have old: "rel_option (\<lambda>gi gi'. gi < length (group_store r) \<and> gi' < length (group_store r')
          \<and> group_static (group_store r ! gi) (group_store r' ! gi')) (reg_groups r k) (reg_groups r' k)"
      using assms by (simp add: same_routes_def)
    from False have "reg_groups (store_group g r) k = reg_groups r k" "reg_groups (store_group g r') k = reg_groups r' k"
      by (auto simp: store_group_groups)
    then show ?thesis by (simp only:) (rule option.rel_mono_strong [OF old], simp add: nth_append)
  qed
  with assms show ?thesis by (simp add: same_routes_def)
qed

lemma same_routes_reload: "same_routes (reload_all t gs r) (reload_all t' gs r')"
proof -
  have "same_routes (fold store_group gs r1) (fold store_group gs r2)" if "same_routes r1 r2" for r1 r2
    using that by (induction gs arbitrary: r1 r2) (simp_all add: same_routes_store_group)
  from this [of "r\<lparr>reg_groups := Map.empty, reg_model_ids := {}\<rparr>" "r'\<lparr>reg_groups := Map.empty, reg_model_ids := {}\<rparr>"]
  show ?thesis by (simp add: same_routes_def reload_all_def)
qed

lemma same_routes_evolves:
  assumes "same_routes r r'" "evolves r' r''"
  shows "same_routes r r''"
proof -
  have "rel_option (\<lambda>gi gi'. gi < length (group_store r) \<and> gi' < length (group_store r'')
          \<and> group_static (group_store r ! gi) (group_store r'' ! gi')) (reg_groups r k) (reg_groups r'' k)" for k
  proof -
    have "rel_option (\<lambda>gi gi'. gi < length (group_store r) \<and> gi' < length (group_store r')
          \<and> group_static (group_store r ! gi) (group_store r' ! gi')) (reg_groups r k) (reg_groups r'' k)"
      using assms by (simp add: same_routes_def evolves_def)
    then show ?thesis
      by (rule option.rel_mono_strong) (use assms(2) in \<open>auto simp: evolves_def intro: group_static_trans\<close>)
  qed
  with assms show ?thesis by (simp add: same_routes_def evolves_def)
qed

interpretation routes_target: reload_target reload_all evolves "\<lambda>gs. same_routes (reload_all 0 gs registry_new)"
  by unfold_locales (auto intro: same_routes_reload same_routes_evolves)

text \<open>
  C13. The route poller never misses a change: however the administrator's changes and the requests
  that use the registry fall between the steps of its ticks, one tick that reads the version and
  loads without error, or finds that it needs no load, leaves a registry that serves what a fresh
  registry loaded from the database's content would serve: the same models, and under every key a
  group configured alike.
\<close>

theorem poller_converges:
  assumes "(sync_step reload_all evolves force_reload)\<^sup>*\<^sup>* (sync_start v content now r) y"
    and "routes_poll_tick force_reload t done (Some (sy_version y)) (Inr (sy_content y)) (sy_poll y, sy_store y)
           = (st', r')"
  shows "same_routes (reload_all 0 (sy_content y) registry_new) r'"
  using routes_target.tick_agrees [OF assms(1)] assms(2) by (simp add: routes_poll_tick_def)

lemma poller_converges_witness:
  "all_model_ids (snd (routes_poll_tick 0 9 9 (Some 4) (Inr [example_group]) (poll_start 0, registry_new)))
   = all_model_ids (reload_all 0 [example_group] registry_new)"
proof -
  let ?y = "sync_start 4 [example_group] 0 registry_new"
  obtain st' r' where r: "routes_poll_tick 0 9 9 (Some (sy_version ?y)) (Inr (sy_content ?y)) (sy_poll ?y, sy_store ?y)
      = (st', r')" by force
  from poller_converges [OF rtranclp.rtrancl_refl r]
  have "reg_model_ids (reload_all 0 [example_group] registry_new) = reg_model_ids r'"
    by (simp add: same_routes_def sync_start_def)
  with r show ?thesis by (simp add: sync_start_def all_model_ids_def)
qed

lemma keys_poller_converges:
  assumes "(sync_step (\<lambda>_. cached_reload) (=) force_reload)\<^sup>*\<^sup>* (sync_start v content now cache) y"
    and "keys_poll_tick force_reload t done (Some (sy_version y)) (Inr (sy_content y)) (sy_poll y, sy_store y) = (st', cache')"
  shows "cached_find_active_by_hash cache' h = map_of (rev (sy_content y)) h"
  using keys_target.tick_agrees [OF assms(1)] assms(2)
  by (simp add: keys_poll_tick_def cached_find_active_by_hash_def)

lemma quotas_poller_converges:
  assumes "(sync_step (\<lambda>_. quota_reload) (=) force_reload)\<^sup>*\<^sup>* (sync_start v content now qs) y"
    and "quota_poll_tick force_reload t done (Some (sy_version y)) (Inr (sy_content y)) (sy_poll y, sy_store y) = (st', qs')"
  shows "quota_get qs' kid mid
       = map_of (rev (map (\<lambda>q. ((rq_api_key_id q, rq_model_id q), key_quota.truncate q)) (sy_content y))) (kid, mid)"
  using quotas_target.tick_agrees [OF assms(1)] assms(2) by (simp add: quota_poll_tick_def)

end
