(* ===== verification/Key_Admin.thy ===== *)
theory Key_Admin
  imports Auth_Spec
begin

text \<open>
  Key management on the command line (\<^verbatim>\<open>server/src/key_cmd.rs\<close>): generating, disabling,
  enabling and listing the keys of an auth file.  A file holds the document that parsing it yields;
  what a failed read or write reports, and what a failed write leaves, are arguments, as are the
  random draws and the fresh UUID.  A command returns the lines it prints, its result, and the files.
\<close>

section \<open>Files\<close>

datatype auth_file = Absent | Unparsable string | Document raw_auth_config

type_synonym auth_files = "string \<Rightarrow> auth_file"

definition load_raw :: "string \<Rightarrow> string \<Rightarrow> auth_files \<Rightarrow> raw_auth_config result" where
  "load_raw not_found path fs =
     (case fs path of
        Absent \<Rightarrow> Inl (''Failed to read auth config '' @ quoted path @ '': '' @ not_found)
      | Unparsable e \<Rightarrow> Inl (''Auth config parse error in '' @ quoted path @ '': '' @ e)
      | Document doc \<Rightarrow> Inr doc)"

text \<open>\<open>failure\<close> is \<open>None\<close> when the write succeeds.\<close>

definition save_raw ::
    "(string \<times> auth_file) option \<Rightarrow> string \<Rightarrow> raw_auth_config \<Rightarrow> auth_files \<Rightarrow> unit result \<times> auth_files" where
  "save_raw failure path doc fs =
     (case failure of
        None \<Rightarrow> (Inr (), fs(path := Document doc))
      | Some (e, left) \<Rightarrow>
          (Inl (''Failed to write auth config '' @ quoted path @ '': '' @ e), fs(path := left)))"

section \<open>Printing\<close>

text \<open>A horizontal box-drawing character, in UTF-8, and padding by characters.\<close>

definition rule :: "nat \<Rightarrow> string" where
  "rule n = concat (replicate n (map char_of [0xE2, 0x94, 0x80 :: nat]))"

definition char_count :: "string \<Rightarrow> nat" where
  "char_count s = length (filter (\<lambda>c. \<not> (128 \<le> (of_char c :: nat) \<and> (of_char c :: nat) < 192)) s)"

definition pad_right :: "nat \<Rightarrow> string \<Rightarrow> string" where
  "pad_right n s = s @ replicate (n - char_count s) (CHR '' '')"

definition or_else :: "'a option \<Rightarrow> 'a \<Rightarrow> 'a" where
  "or_else x y = (case x of Some z \<Rightarrow> z | None \<Rightarrow> y)"

section \<open>Generating a key\<close>

definition KEY_CHARS :: string where
  "KEY_CHARS = ''ABCDEFGHIJKLMNOPQRSTUVWXYZabcdefghijklmnopqrstuvwxyz0123456789''"

definition generate_api_key :: "(nat \<Rightarrow> nat) \<Rightarrow> string" where
  "generate_api_key draws = ''sk-'' @ map (\<lambda>i. KEY_CHARS ! (draws i mod length KEY_CHARS)) [0..<48]"

definition append_to_file ::
    "string \<Rightarrow> (string \<times> auth_file) option \<Rightarrow> string \<Rightarrow> string \<Rightarrow> string \<Rightarrow> string \<Rightarrow> auth_files \<Rightarrow> unit result \<times> auth_files" where
  "append_to_file not_found failure path i name h fs =
     (let loaded = (if fs path \<noteq> Absent then load_raw not_found path fs
                    else Inr \<lparr>ra_mode = ''api_key'', ra_keys = []\<rparr>)
      in case loaded of
           Inl e \<Rightarrow> (Inl e, fs)
         | Inr doc \<Rightarrow>
             (if ra_mode doc = ''none''
              then (Inl (''auth.mode is '' @ quoted ''none'' @ '' in '' @ quoted path @ ''. Change mode to ''
                     @ quoted ''api_key'' @ '' before adding keys.''), fs)
              else save_raw failure path
                     (doc\<lparr>ra_keys := ra_keys doc
                        @ [\<lparr>rk_id = i, rk_name = Some name, rk_hash = Some h, rk_plain = None, rk_disabled = False\<rparr>]\<rparr>) fs))"

definition cmd_generate ::
    "string \<Rightarrow> (string \<times> auth_file) option \<Rightarrow> (string \<Rightarrow> string) \<Rightarrow> string \<Rightarrow> (nat \<Rightarrow> nat) \<Rightarrow> string \<Rightarrow> string option
       \<Rightarrow> auth_files \<Rightarrow> string list \<times> unit result \<times> auth_files" where
  "cmd_generate not_found failure sha256_hex uuid draws name append_to fs =
     (let key = generate_api_key draws;
          h = sha256_hex key;
          shown = ['''', ''Generated API Key'', rule 64, ''Key:  '' @ key, ''ID:   '' @ uuid, ''Name: '' @ name,
                   ''Hash: '' @ h];
          warning = ['''', ''WARNING: Store the key securely '' @ map char_of [0xE2, 0x80, 0x94 :: nat]
                       @ '' it cannot be recovered after this point.'']
      in case append_to of
           Some path \<Rightarrow>
             (case append_to_file not_found failure path uuid name h fs of
                (Inl e, fs') \<Rightarrow> (shown, Inl e, fs')
              | (Inr _, fs') \<Rightarrow> (shown @ ['''', ''Appended to: '' @ path] @ warning, Inr (), fs'))
         | None \<Rightarrow>
             (shown @ ['''', ''Add this entry to your auth.yaml:'', '''',
                ''  - id: '' @ dquoted uuid, ''    name: '' @ dquoted name, ''    hash: '' @ dquoted h]
              @ warning, Inr (), fs))"

section \<open>Disabling and enabling\<close>

text \<open>The first entry with the id is the one that is changed.\<close>

fun set_first :: "string \<Rightarrow> bool \<Rightarrow> raw_api_key list \<Rightarrow> raw_api_key list" where
  "set_first i d [] = []"
| "set_first i d (k # ks) = (if rk_id k = i then k\<lparr>rk_disabled := d\<rparr> # ks else k # set_first i d ks)"

definition set_disabled ::
    "string \<Rightarrow> (string \<times> auth_file) option \<Rightarrow> string \<Rightarrow> string \<Rightarrow> bool \<Rightarrow> auth_files
       \<Rightarrow> string list \<times> unit result \<times> auth_files" where
  "set_disabled not_found failure i path d fs =
     (case load_raw not_found path fs of
        Inl e \<Rightarrow> ([], Inl e, fs)
      | Inr doc \<Rightarrow>
          (case List.find (\<lambda>k. rk_id k = i) (ra_keys doc) of
             None \<Rightarrow> ([], Inl (''Key '' @ quoted i @ '' not found in '' @ quoted path), fs)
           | Some entry \<Rightarrow>
               (if rk_disabled entry = d
                then ([''Key '' @ quoted i @ '' is '' @ (if d then ''already disabled'' else ''already active'') @ ''.''],
                      Inr (), fs)
                else
                  (case save_raw failure path (doc\<lparr>ra_keys := set_first i d (ra_keys doc)\<rparr>) fs of
                     (Inl e, fs') \<Rightarrow> ([], Inl e, fs')
                   | (Inr _, fs') \<Rightarrow>
                       ([''Key '' @ quoted (or_else (rk_name entry) i) @ '' ('' @ i @ '') has been ''
                           @ (if d then ''disabled'' else ''enabled'') @ ''.'',
                         ''File updated: '' @ path,
                         ''Changes take effect within the next reload interval.''], Inr (), fs')))))"

definition cmd_disable ::
    "string \<Rightarrow> (string \<times> auth_file) option \<Rightarrow> string \<Rightarrow> string \<Rightarrow> auth_files \<Rightarrow> string list \<times> unit result \<times> auth_files" where
  "cmd_disable not_found failure i path fs = set_disabled not_found failure i path True fs"

definition cmd_enable ::
    "string \<Rightarrow> (string \<times> auth_file) option \<Rightarrow> string \<Rightarrow> string \<Rightarrow> auth_files \<Rightarrow> string list \<times> unit result \<times> auth_files" where
  "cmd_enable not_found failure i path fs = set_disabled not_found failure i path False fs"

definition cmd_list :: "string \<Rightarrow> string \<Rightarrow> auth_files \<Rightarrow> string list \<times> unit result" where
  "cmd_list not_found path fs =
     (case load_raw not_found path fs of
        Inl e \<Rightarrow> ([], Inl e)
      | Inr doc \<Rightarrow>
          (let top = [''File: '' @ path, ''Mode: '' @ ra_mode doc] in
           if ra_keys doc = [] then (top @ [''No keys defined.''], Inr ())
           else
             (top @ ['''', pad_right 38 ''ID'' @ ''  '' @ pad_right 24 ''NAME'' @ ''  STATUS'', rule 72]
              @ map (\<lambda>k. pad_right 38 (rk_id k) @ ''  '' @ pad_right 24 (or_else (rk_name k) ''-'') @ ''  ''
                       @ (if rk_disabled k then ''disabled'' else ''active'')) (ra_keys doc), Inr ())))"

section \<open>Revocation\<close>

lemma set_first_ids [simp]: "map rk_id (set_first i d ks) = map rk_id ks"
  by (induction ks) auto

lemma set_first_set_first:
  "List.find (\<lambda>k. rk_id k = i) ks = Some entry \<Longrightarrow> rk_disabled entry = d' \<Longrightarrow> set_first i d' (set_first i d ks) = ks"
  by (induction ks) auto

lemma find_set_first:
  "List.find (\<lambda>k. rk_id k = i) ks = Some entry \<Longrightarrow>
     List.find (\<lambda>k. rk_id k = i) (set_first i d ks) = Some (entry\<lparr>rk_disabled := d\<rparr>)"
  by (induction ks) auto

lemma find_by_id: "distinct (map rk_id ks) \<Longrightarrow> entry \<in> set ks \<Longrightarrow> List.find (\<lambda>k. rk_id k = rk_id entry) ks = Some entry"
  by (induction ks) auto

lemma set_first_absent: "i \<notin> rk_id ` set ks \<Longrightarrow> set_first i d ks = ks"
  by (induction ks) auto

lemma auth_keys_absent:
  "auth_keys env sha es = Inr ks \<Longrightarrow> i \<notin> rk_id ` set es \<Longrightarrow> filter (\<lambda>(h, lk). lk_id lk \<noteq> i) ks = ks"
  using auth_keys_sound [of env sha es ks] by (fastforce simp: filter_id_conv)

lemma auth_keys_disable:
  "auth_keys env sha es = Inr ks \<Longrightarrow> distinct (map rk_id es) \<Longrightarrow>
     auth_keys env sha (set_first i True es) = Inr (filter (\<lambda>(h, lk). lk_id lk \<noteq> i) ks)"
proof (induction es arbitrary: ks)
  case (Cons entry es)
  show ?case
  proof (cases "rk_id entry = i")
    case True
    then have i: "i \<notin> rk_id ` set es" using Cons.prems(2) by auto
    show ?thesis
    proof (cases "rk_disabled entry")
      case True
      with Cons.prems \<open>rk_id entry = i\<close> i show ?thesis by (simp add: auth_keys_absent)
    next
      case False
      with Cons.prems obtain h ks' where "auth_keys env sha es = Inr ks'"
        "ks = (h, \<lparr>lk_id = rk_id entry, lk_uid = rk_id entry, lk_status = ''active''\<rparr>) # ks'"
        by (auto simp: rbind_eq_Inr_iff)
      with True i show ?thesis by (simp add: auth_keys_absent)
    qed
  next
    case False
    with Cons show ?thesis by (auto simp: rbind_eq_Inr_iff split: if_splits)
  qed
qed simp

lemma map_of_rev_filter:
  "map_of (rev ks) h = Some lk \<Longrightarrow> lk_id lk \<noteq> i \<Longrightarrow>
     map_of (rev (filter (\<lambda>(h, lk). lk_id lk \<noteq> i) ks)) h = Some lk"
  by (induction ks rule: rev_induct) (auto split: if_splits)

text \<open>
  C29. Disabling a key revokes it: on a file whose ids are unique, the command succeeds, the file
  then loads to the same keys without that id, so no token is admitted under it any more while every
  other key's tokens are admitted as before, and enabling the key restores the file exactly.
\<close>

theorem key_disable_revokes:
  assumes "fs path = Document doc" "distinct (map rk_id (ra_keys doc))"
    and "entry \<in> set (ra_keys doc)" "\<not> rk_disabled entry" "process_auth env sha doc = Inr ks"
  shows "case cmd_disable not_found None (rk_id entry) path fs of
           (out, res, fs') \<Rightarrow> res = Inr ()
             \<and> rbind (load_raw not_found path fs') (process_auth env sha)
                 = Inr (filter (\<lambda>(h, lk). lk_id lk \<noteq> rk_id entry) ks)
             \<and> (\<forall>hs ident. file_identity J reason sha (filter (\<lambda>(h, lk). lk_id lk \<noteq> rk_id entry) ks) hs = Inr ident
                  \<longrightarrow> ident_key_id ident \<noteq> rk_id entry)
             \<and> (\<forall>hs ident. file_identity J reason sha ks hs = Inr ident \<longrightarrow> ident_key_id ident \<noteq> rk_id entry
                  \<longrightarrow> file_identity J reason sha (filter (\<lambda>(h, lk). lk_id lk \<noteq> rk_id entry) ks) hs = Inr ident)
             \<and> snd (snd (cmd_enable not_found None (rk_id entry) path fs')) = fs"
proof -
  let ?i = "rk_id entry"
  let ?keys = "set_first ?i True (ra_keys doc)"
  let ?fs = "fs(path := Document (doc\<lparr>ra_keys := ?keys\<rparr>))"
  let ?left = "filter (\<lambda>(h, lk). lk_id lk \<noteq> ?i) ks"
  have found: "List.find (\<lambda>k. rk_id k = ?i) (ra_keys doc) = Some entry"
    using assms(2,3) by (rule find_by_id)
  have ks: "ra_mode doc = ''api_key''" "ra_keys doc \<noteq> []" "auth_keys env sha (ra_keys doc) = Inr ks"
    using assms(5) by (auto simp: process_auth_def split: if_splits)
  have "\<exists>out. cmd_disable not_found None ?i path fs = (out, Inr (), ?fs)"
    using assms(1,4) found by (simp add: cmd_disable_def set_disabled_def load_raw_def save_raw_def)
  then obtain out where ran: "cmd_disable not_found None ?i path fs = (out, Inr (), ?fs)" ..
  have "?keys \<noteq> []" using ks(2) by (cases "ra_keys doc") auto
  then have loaded: "rbind (load_raw not_found path ?fs) (process_auth env sha) = Inr ?left"
    using ks auth_keys_disable [OF ks(3) assms(2)] by (simp add: load_raw_def process_auth_def)
  have revoked: "ident_key_id ident \<noteq> ?i" if "file_identity J reason sha ?left hs = Inr ident" for hs ident
  proof -
    from that obtain h lk where lk: "map_of (rev ?left) h = Some lk" "ident_key_id ident = lk_id lk"
      unfolding file_identity_Inr by auto
    from map_of_SomeD [OF lk(1)] lk(2) show ?thesis by auto
  qed
  have others: "file_identity J reason sha ?left hs = Inr ident"
    if "file_identity J reason sha ks hs = Inr ident" "ident_key_id ident \<noteq> ?i" for hs ident
  proof -
    from that(1) obtain token lk where lk: "extract_api_key J hs = Some token" "map_of (rev ks) (sha token) = Some lk"
      "ident = \<lparr>ident_key_id = lk_id lk, ident_uid = lk_uid lk\<rparr>" unfolding file_identity_Inr by blast
    from lk(3) that(2) have "lk_id lk \<noteq> ?i" by simp
    from map_of_rev_filter [OF lk(2) this] lk(1,3) show ?thesis unfolding file_identity_Inr by blast
  qed
  have restored: "snd (snd (cmd_enable not_found None ?i path ?fs)) = fs"
    using assms(1,4) found
    by (simp add: cmd_enable_def set_disabled_def load_raw_def save_raw_def find_set_first [OF found]
        set_first_set_first [OF found] fun_upd_idem)
  show ?thesis unfolding ran prod.case
    by (intro conjI refl loaded restored allI impI) (fact revoked, fact others)
qed

lemma key_disable_revokes_witness:
  "file_identity (json_lib (\<lambda>_. None)) (\<lambda>_. None) (\<lambda>t. t)
     (case rbind (load_raw '''' ''f'' (snd (snd (cmd_disable '''' None ''a'' ''f'' (\<lambda>_. Document example_keys)))))
             (process_auth Map.empty (\<lambda>t. t)) of Inr ks \<Rightarrow> ks | Inl _ \<Rightarrow> []) [(''x-api-key'', ''h1'')]
   \<noteq> Inr \<lparr>ident_key_id = ''a'', ident_uid = ''a''\<rparr>"
proof -
  let ?J = "json_lib (\<lambda>_. None)"
  let ?fs = "\<lambda>_. Document example_keys"
  let ?a = "\<lparr>rk_id = ''a'', rk_name = None, rk_hash = Some ''h1'', rk_plain = None, rk_disabled = False\<rparr> :: raw_api_key"
  obtain ks where ks: "process_auth Map.empty (\<lambda>t. t) example_keys = Inr ks"
    by (simp add: process_auth_def example_keys_def key_hash_of_def)
  have a: "distinct (map rk_id (ra_keys example_keys))" "?a \<in> set (ra_keys example_keys)" "\<not> rk_disabled ?a"
    "rk_id ?a = ''a''" by (simp_all add: example_keys_def)
  define fs :: auth_files where "fs = ?fs"
  have doc: "fs ''f'' = Document example_keys" by (simp add: fs_def)
  obtain out res fs' where r: "cmd_disable '''' None ''a'' ''f'' fs = (out, res, fs')" by (rule prod_cases3)
  note all = key_disable_revokes [where fs = fs and path = "''f''", OF doc a(1-3) ks, where not_found = "''''" and J = ?J and reason = "\<lambda>_. None",
      unfolded a(4) r prod.case]
  from all have l: "rbind (load_raw '''' ''f'' fs') (process_auth Map.empty (\<lambda>t. t))
      = Inr (filter (\<lambda>(h, lk). lk_id lk \<noteq> ''a'') ks)" by blast
  from all have "file_identity ?J (\<lambda>_. None) (\<lambda>t. t) (filter (\<lambda>(h, lk). lk_id lk \<noteq> ''a'') ks) [(''x-api-key'', ''h1'')]
      \<noteq> Inr \<lparr>ident_key_id = ''a'', ident_uid = ''a''\<rparr>" by fastforce
  with l r show ?thesis by (simp add: fs_def)
qed

end
