(* ===== verification/Log_Partitions.thy ===== *)
theory Log_Partitions
  imports Access_Log Sse
begin

text \<open>
  Retention of the access log: the daily PostgreSQL partitions of
  \<^verbatim>\<open>server/src/db/access_log_store.rs\<close>, which the writer creates ahead of time, and the
  cleanup command of \<^verbatim>\<open>server/src/main.rs\<close>.  A calendar day is its number, an instant
  the nanoseconds since the epoch; how a day is written and read is a parameter, as is the failure
  of a statement.
\<close>

section \<open>Days\<close>

record calendar =
  cal_year :: "int \<Rightarrow> string"
  cal_month :: "int \<Rightarrow> string"
  cal_day :: "int \<Rightarrow> string"
  cal_parse :: "string \<Rightarrow> int option"      \<comment> \<open>\<open>%Y-%m-%d\<close>\<close>

definition DAY_NS :: int where
  "DAY_NS = 86400 * 10 ^ 9"

definition date_of :: "int \<Rightarrow> int" where
  "date_of t = t div DAY_NS"

definition pg_partition_name :: "calendar \<Rightarrow> int \<Rightarrow> string" where
  "pg_partition_name C d = ''access_log_'' @ cal_year C d @ ''_'' @ cal_month C d @ ''_'' @ cal_day C d"

definition parse_pg_partition_name :: "calendar \<Rightarrow> string \<Rightarrow> int option" where
  "parse_pg_partition_name C name =
     (case strip_prefix ''access_log_'' name of
        None \<Rightarrow> None
      | Some date_part \<Rightarrow> cal_parse C (map (\<lambda>c. if c = CHR ''_'' then CHR ''-'' else c) date_part))"

definition midnight :: "calendar \<Rightarrow> int \<Rightarrow> string" where
  "midnight C d = cal_year C d @ ''-'' @ cal_month C d @ ''-'' @ cal_day C d @ '' 00:00:00+00''"

section \<open>Partitions\<close>

text \<open>The partitions of the table by name, each with the bounds it was created with.\<close>

type_synonym partitions = "string \<Rightarrow> (string \<times> string) option"

definition create_pg_partition ::
    "calendar \<Rightarrow> (string \<Rightarrow> string option) \<Rightarrow> int \<Rightarrow> partitions \<Rightarrow> unit result \<times> partitions" where
  "create_pg_partition C fails d db =
     (let name = pg_partition_name C d in
      case fails name of
        Some e \<Rightarrow> (Inl e, db)
      | None \<Rightarrow> (Inr (), if db name \<noteq> None then db else db(name \<mapsto> (midnight C d, midnight C (d + 1)))))"

fun ensure_from :: "calendar \<Rightarrow> (string \<Rightarrow> string option) \<Rightarrow> int \<Rightarrow> nat list \<Rightarrow> partitions \<Rightarrow> unit result \<times> partitions" where
  "ensure_from C fails today [] db = (Inr (), db)"
| "ensure_from C fails today (offset # os) db =
     (case create_pg_partition C fails (today + int offset) db of
        (Inl e, db') \<Rightarrow> (Inl e, db')
      | (Inr _, db') \<Rightarrow> ensure_from C fails today os db')"

definition ensure_pg_partitions ::
    "calendar \<Rightarrow> (string \<Rightarrow> string option) \<Rightarrow> int \<Rightarrow> nat \<Rightarrow> partitions \<Rightarrow> unit result \<times> partitions" where
  "ensure_pg_partitions C fails now days_ahead db = ensure_from C fails (date_of now) [0..<days_ahead + 1] db"

text \<open>The hourly branch of the writer: other databases skip it, and a failure is only logged.\<close>

definition partition_tick ::
    "calendar \<Rightarrow> (string \<Rightarrow> string option) \<Rightarrow> database_dialect \<Rightarrow> int \<Rightarrow> partitions \<Rightarrow> partitions" where
  "partition_tick C fails dialect now db =
     (if dialect = Postgres then snd (ensure_pg_partitions C fails now 3 db) else db)"

text \<open>\<open>names\<close> are the rows of the catalogue query.\<close>

fun drop_partitions ::
    "calendar \<Rightarrow> (string \<Rightarrow> string option) \<Rightarrow> int \<Rightarrow> string list \<Rightarrow> nat \<Rightarrow> partitions \<Rightarrow> nat result \<times> partitions" where
  "drop_partitions C fails cutoff_date [] dropped db = (Inr dropped, db)"
| "drop_partitions C fails cutoff_date (name # names) dropped db =
     (case parse_pg_partition_name C name of
        Some date \<Rightarrow>
          (if date < cutoff_date
           then (case fails name of
                   Some e \<Rightarrow> (Inl e, db)
                 | None \<Rightarrow> drop_partitions C fails cutoff_date names (dropped + 1) (db(name := None)))
           else drop_partitions C fails cutoff_date names dropped db)
      | None \<Rightarrow> drop_partitions C fails cutoff_date names dropped db)"

definition drop_pg_partitions_older_than ::
    "calendar \<Rightarrow> (string \<Rightarrow> string option) \<Rightarrow> string list result \<Rightarrow> int \<Rightarrow> partitions \<Rightarrow> nat result \<times> partitions" where
  "drop_pg_partitions_older_than C fails rows cutoff db =
     (case rows of
        Inl e \<Rightarrow> (Inl e, db)
      | Inr names \<Rightarrow> drop_partitions C fails (date_of cutoff) names 0 db)"

section \<open>The cleanup command\<close>

fun digits_value :: "nat \<Rightarrow> string \<Rightarrow> nat option" where
  "digits_value acc [] = Some acc"
| "digits_value acc (c # s) =
     (if is_digit_char c then digits_value (10 * acc + ((of_char c :: nat) - 48)) s else None)"

text \<open>\<open>str::parse::<i64>\<close>.\<close>

definition parse_i64 :: "string \<Rightarrow> int option" where
  "parse_i64 s =
     (let (neg, ds) = (case s of
            c # t \<Rightarrow> (if c = CHR ''-'' then (True, t) else if c = CHR ''+'' then (False, t) else (False, s))
          | [] \<Rightarrow> (False, s))
      in if ds = [] then None
         else case digits_value 0 ds of
                None \<Rightarrow> None
              | Some v \<Rightarrow>
                  (let x = (if neg then - int v else int v)
                   in if - (2 ^ 63) \<le> x \<and> x < 2 ^ 63 then Some x else None))"

text \<open>
  \<open>chrono::Duration::days\<close> and \<open>hours\<close>: the seconds, or \<open>None\<close> for the documented panic of a duration
  of more than \<open>i64::MAX\<close> milliseconds.
\<close>

definition chrono_seconds :: "int \<Rightarrow> int option" where
  "chrono_seconds secs = (if \<bar>secs * 1000\<bar> \<le> 2 ^ 63 - 1 then Some secs else None)"

text \<open>\<open>None\<close> is the code's \<open>None\<close>, \<open>Some None\<close> a panic.\<close>

definition parse_duration :: "string \<Rightarrow> int option option" where
  "parse_duration s0 =
     (let s = trim s0 in
      case strip_suffix ''d'' s of
        Some n \<Rightarrow> map_option (\<lambda>days. chrono_seconds (days * 86400)) (parse_i64 (trim n))
      | None \<Rightarrow>
          (case strip_suffix ''h'' s of
             Some n \<Rightarrow> map_option (\<lambda>hours. chrono_seconds (hours * 3600)) (parse_i64 (trim n))
           | None \<Rightarrow> None))"

text \<open>
  SQLite and MySQL delete rows below a bound; how the bound is written and the deletion itself are
  arguments.
\<close>

definition delete_older_than ::
    "(int \<Rightarrow> string) \<Rightarrow> (int \<Rightarrow> string) \<Rightarrow> (string \<Rightarrow> 'db \<Rightarrow> nat result \<times> 'db) \<Rightarrow> database_dialect \<Rightarrow> int \<Rightarrow> 'db
       \<Rightarrow> nat result \<times> 'db" where
  "delete_older_than mysql_ts rfc3339 delete_below dialect cutoff db =
     delete_below (case dialect of MySql \<Rightarrow> mysql_ts cutoff | _ \<Rightarrow> rfc3339 cutoff) db"

datatype cleanup_outcome = Panicked | Failed string | Finished string

record 'db cleanup_env =
  ce_debug :: "string \<Rightarrow> string"           \<comment> \<open>\<open>{:?}\<close> of a string\<close>
  ce_in_range :: "int \<Rightarrow> bool"             \<comment> \<open>instants a \<open>DateTime\<close> can hold\<close>
  ce_connect :: "string \<Rightarrow> unit result"
  ce_rows :: "partitions \<Rightarrow> string list result"
  ce_fails :: "string \<Rightarrow> string option"
  ce_mysql_ts :: "int \<Rightarrow> string"
  ce_rfc3339 :: "int \<Rightarrow> string"
  ce_delete :: "string \<Rightarrow> 'db \<Rightarrow> nat result \<times> 'db"

definition run_cleanup ::
    "calendar \<Rightarrow> 'db cleanup_env \<Rightarrow> int \<Rightarrow> string \<Rightarrow> string \<Rightarrow> partitions \<times> 'db \<Rightarrow> cleanup_outcome \<times> partitions \<times> 'db" where
  "run_cleanup C env now older_than url st =
     (case parse_duration older_than of
        None \<Rightarrow> (Failed (''Invalid --older-than value '' @ ce_debug env older_than @ ''. Use a number followed by ''
          @ quoted ''d'' @ '' (days) or '' @ quoted ''h'' @ '' (hours), e.g. '' @ dquoted ''30d'' @ '' or ''
          @ dquoted ''24h'' @ ''.''), st)
      | Some None \<Rightarrow> (Panicked, st)
      | Some (Some secs) \<Rightarrow>
          (let cutoff = now - secs * 10 ^ 9 in
           if \<not> ce_in_range env cutoff then (Panicked, st)
           else case ce_connect env url of
             Inl e \<Rightarrow> (Failed (''Failed to connect to database: '' @ e), st)
           | Inr _ \<Rightarrow>
               (case st of (db, rows) \<Rightarrow>
                  (case dialect_from_url url of
                     Postgres \<Rightarrow>
                       (case drop_pg_partitions_older_than C (ce_fails env) (ce_rows env db) cutoff db of
                          (Inl e, db') \<Rightarrow> (Failed (''Cleanup failed: '' @ e), db', rows)
                        | (Inr n, db') \<Rightarrow> (Finished (''Dropped '' @ show_nat n @ '' partition(s).''), db', rows))
                   | dialect \<Rightarrow>
                       (case delete_older_than (ce_mysql_ts env) (ce_rfc3339 env) (ce_delete env) dialect cutoff rows of
                          (Inl e, rows') \<Rightarrow> (Failed (''Cleanup failed: '' @ e), db, rows')
                        | (Inr n, rows') \<Rightarrow> (Finished (''Deleted '' @ show_nat n @ '' row(s).''), db, rows'))))))"

section \<open>Reading a number of days\<close>

text \<open>A text that begins and ends with a printable ASCII letter or digit is left alone by \<open>trim\<close>.\<close>

definition plain_char :: "char \<Rightarrow> bool" where
  "plain_char c \<longleftrightarrow> 48 \<le> (of_char c :: nat) \<and> (of_char c :: nat) \<le> 122"

lemma whitespace_not_plain:
  "list_all (\<lambda>w. w \<noteq> [] \<and> \<not> plain_char (hd w) \<and> \<not> plain_char (hd (rev w))) whitespace_chars"
  by code_simp

lemma trim_left_plain:
  assumes "plain_char c" "list_all (\<lambda>w. w \<noteq> [] \<and> \<not> plain_char (hd w)) ws"
  shows "trim_left ws (c # s) = c # s"
proof -
  have "\<not> starts_with w (c # s)" if "w \<in> set ws" for w
  proof -
    have "w \<noteq> []" "hd w \<noteq> c" using that assms by (auto simp: list_all_iff)
    then show ?thesis by (cases w) (auto simp: starts_with_def)
  qed
  then have "drop_any ws (c # s) = None" by (simp add: drop_any_def filter_empty_conv)
  then show ?thesis by (subst trim_left.simps) simp
qed

lemma trim_plain:
  assumes "s \<noteq> []" "plain_char (hd s)" "plain_char (last s)"
  shows "trim s = s"
proof -
  have ws: "list_all (\<lambda>w. w \<noteq> [] \<and> \<not> plain_char (hd w)) whitespace_chars"
    "list_all (\<lambda>w. w \<noteq> [] \<and> \<not> plain_char (hd w)) (map rev whitespace_chars)"
    using whitespace_not_plain by (auto simp: list_all_iff)
  have "trim_start s = s"
    using trim_left_plain [OF assms(2) ws(1), of "tl s"] assms(1) by (simp add: trim_start_def)
  moreover have "rev s = last s # tl (rev s)" using assms(1) by (simp add: hd_rev [symmetric])
  then have "trim_left (map rev whitespace_chars) (rev s) = rev s"
    using trim_left_plain [OF assms(3) ws(2), of "tl (rev s)"] by metis
  then have "trim_end s = s" by (simp add: trim_end_def)
  ultimately show ?thesis by (simp add: trim_def)
qed

lemma of_char_digit [simp]: "d < 10 \<Longrightarrow> (of_char (digit_char d) :: nat) = 48 + d"
  by (simp add: digit_char_def of_char_of)

lemma digits_value_snoc:
  "digits_value acc (s @ [c]) =
     Option.bind (digits_value acc s) (\<lambda>v. if is_digit_char c then Some (10 * v + ((of_char c :: nat) - 48)) else None)"
  by (induction acc s rule: digits_value.induct) auto

lemma digits_value_show [simp]: "digits_value 0 (show_nat n) = Some n"
proof (induction n rule: show_nat.induct)
  case (1 n)
  have d: "is_digit_char (digit_char m)" if "m < 10" for m using that by (simp add: is_digit_char_def)
  have "n mod 10 < 10" by simp
  then have m: "is_digit_char (digit_char (n mod 10))" "(of_char (digit_char (n mod 10)) :: nat) - 48 = n mod 10"
    by (simp add: d) (simp only: of_char_digit)
  show ?case
  proof (cases "n < 10")
    case True
    then show ?thesis by (subst show_nat.simps) (simp add: d)
  next
    case False
    with 1 m show ?thesis by (subst show_nat.simps) (simp add: digits_value_snoc)
  qed
qed

lemma show_nat_digits: "c \<in> set (show_nat n) \<Longrightarrow> is_digit_char c"
proof (induction n rule: show_nat.induct)
  case (1 n)
  have d: "is_digit_char (digit_char m)" if "m < 10" for m using that by (simp add: is_digit_char_def)
  show ?case
  proof (cases "n < 10")
    case True
    with 1(2) show ?thesis by (subst (asm) show_nat.simps) (simp add: d)
  next
    case False
    from 1(2) False have "c \<in> set (show_nat (n div 10)) \<or> c = digit_char (n mod 10)"
      by (subst (asm) show_nat.simps) auto
    with 1(1) [OF False] show ?thesis by (auto simp: d)
  qed
qed

lemma parse_i64_show: "n < 2 ^ 63 \<Longrightarrow> parse_i64 (show_nat n) = Some (int n)"
proof -
  assume n: "n < 2 ^ 63"
  obtain c t where ct: "show_nat n = c # t" by (cases "show_nat n") (simp_all add: show_nat_nonempty)
  then have "is_digit_char c" using show_nat_digits [of c n] by simp
  then have "c \<noteq> CHR ''-''" "c \<noteq> CHR ''+''" by (auto simp: is_digit_char_def)
  moreover have "int n < 2 ^ 63" "- (2 ^ 63) \<le> int n" using n by simp_all
  ultimately show ?thesis using digits_value_show [of n] ct by (simp add: parse_i64_def)
qed

lemma parse_duration_days:
  assumes "n < 2 ^ 63"
  shows "parse_duration (show_nat n @ ''d'') = Some (chrono_seconds (int n * 86400))"
proof -
  have plain: "plain_char c" if "c \<in> set (show_nat n)" for c
    using show_nat_digits [OF that] by (simp add: plain_char_def is_digit_char_def)
  have ends: "plain_char (hd (show_nat n))" "plain_char (last (show_nat n))"
    by (simp_all add: show_nat_nonempty plain)
  then have "trim (show_nat n) = show_nat n"
    by (intro trim_plain) (simp_all add: show_nat_nonempty)
  moreover have "trim (show_nat n @ ''d'') = show_nat n @ ''d''"
    by (rule trim_plain) (simp_all add: show_nat_nonempty ends, simp add: plain_char_def)
  moreover have "strip_suffix ''d'' (show_nat n @ ''d'') = Some (show_nat n)"
    by (simp only: strip_suffix_eq_Some_iff)
  ultimately show ?thesis using parse_i64_show [OF assms] by (simp add: parse_duration_def)
qed

section \<open>Retention\<close>

definition calendar_ok :: "calendar \<Rightarrow> int set \<Rightarrow> bool" where
  "calendar_ok C D \<longleftrightarrow>
     (\<forall>d \<in> D. cal_parse C (cal_year C d @ ''-'' @ cal_month C d @ ''-'' @ cal_day C d) = Some d
        \<and> CHR ''_'' \<notin> set (cal_year C d @ cal_month C d @ cal_day C d))"

lemma parse_pg_partition_name:
  assumes "calendar_ok C D" "d \<in> D"
  shows "parse_pg_partition_name C (pg_partition_name C d) = Some d"
proof -
  have plain: "map (\<lambda>c. if c = CHR ''_'' then CHR ''-'' else c) s = s" if "CHR ''_'' \<notin> set s" for s
    using that by (induction s) auto
  from assms show ?thesis
    by (simp add: calendar_ok_def pg_partition_name_def parse_pg_partition_name_def strip_prefix_def plain)
qed

lemma drop_partitions_exact:
  assumes "\<forall>name. fails name = None" "distinct names"
  shows "drop_partitions C fails cutoff names k db
       = (Inr (k + length (filter (\<lambda>name. \<exists>d. parse_pg_partition_name C name = Some d \<and> d < cutoff) names)),
          \<lambda>name. if name \<in> set names \<and> (\<exists>d. parse_pg_partition_name C name = Some d \<and> d < cutoff)
                 then None else db name)"
  using assms(2)
proof (induction names arbitrary: k db)
  case (Cons name names)
  then show ?case
    using assms(1) by (cases "parse_pg_partition_name C name") (auto simp: fun_eq_iff)
qed simp

lemma ensure_from_covers:
  assumes "\<forall>name. fails name = None"
  shows "\<exists>db'. ensure_from C fails today os db = (Inr (), db')
       \<and> dom db' = dom db \<union> (\<lambda>j. pg_partition_name C (today + int j)) ` set os
       \<and> (\<forall>name \<in> dom db. db' name = db name)"
  using assms
proof (induction os arbitrary: db)
  case (Cons o' os)
  let ?db = "snd (create_pg_partition C fails (today + int o') db)"
  have c: "create_pg_partition C fails (today + int o') db = (Inr (), ?db)"
    "dom ?db = insert (pg_partition_name C (today + int o')) (dom db)" "\<forall>name \<in> dom db. ?db name = db name"
    using assms by (auto simp: create_pg_partition_def Let_def split: if_splits)
  from Cons.IH [of ?db] assms obtain db' where db': "ensure_from C fails today os ?db = (Inr (), db')"
    "dom db' = dom ?db \<union> (\<lambda>j. pg_partition_name C (today + int j)) ` set os" "\<forall>name \<in> dom ?db. db' name = ?db name"
    by blast
  have "dom db' = dom db \<union> (\<lambda>j. pg_partition_name C (today + int j)) ` set (o' # os)"
    using db'(2) c(2) by auto
  moreover have "\<forall>name \<in> dom db. db' name = db name" using db'(3) c(2,3) by auto
  moreover have "ensure_from C fails today (o' # os) db = (Inr (), db')"
    unfolding ensure_from.simps by (subst c(1)) (simp add: db'(1))
  ultimately show ?case by blast
qed simp

text \<open>Records written within three days of a tick find their partition.\<close>

lemma partition_tick_covers:
  assumes "\<forall>name. fails name = None" "now \<le> t" "t \<le> now + 3 * DAY_NS"
  shows "pg_partition_name C (date_of t) \<in> dom (partition_tick C fails Postgres now db)"
    and "dom db \<subseteq> dom (partition_tick C fails Postgres now db)"
proof -
  obtain db' where db': "ensure_from C fails (date_of now) [0..<3 + 1] db = (Inr (), db')"
    "dom db' = dom db \<union> (\<lambda>j. pg_partition_name C (date_of now + int j)) ` set [0..<3 + 1]"
    using ensure_from_covers [OF assms(1)] by blast
  have "date_of now \<le> date_of t" unfolding date_of_def using assms(2) by (rule zdiv_mono1) (simp add: DAY_NS_def)
  moreover have "date_of t \<le> date_of (now + 3 * DAY_NS)"
    unfolding date_of_def using assms(3) by (rule zdiv_mono1) (simp add: DAY_NS_def)
  then have "date_of t \<le> date_of now + 3" by (simp add: date_of_def DAY_NS_def)
  ultimately obtain j where "date_of t = date_of now + int j" "j \<in> set [0..<3 + 1]"
    using that [of "nat (date_of t - date_of now)"] by auto
  then have "pg_partition_name C (date_of t) \<in> dom db'"
    unfolding db'(2) by (intro UnI2 image_eqI [where x = j]) simp_all
  then show "pg_partition_name C (date_of t) \<in> dom (partition_tick C fails Postgres now db)"
    using db'(1) by (simp add: partition_tick_def ensure_pg_partitions_def del: upt_Suc)
  show "dom db \<subseteq> dom (partition_tick C fails Postgres now db)"
    unfolding partition_tick_def ensure_pg_partitions_def using db' by (simp del: upt_Suc)
qed

text \<open>
  C25. Cleanup keeps what it promises to keep: with \<open>--older-than <n>d\<close> on PostgreSQL it drops exactly
  the partitions of days before the day of the cutoff and reports their number, so a record at or
  after the cutoff is never lost, and the other partitions and their bounds stay as they were.  It
  panics, with every partition in place, exactly when the retention is longer than a duration can be
  or the cutoff, \<open>n\<close> days ago, is no instant a \<open>DateTime\<close> can hold.
\<close>

theorem cleanup_retention:
  assumes "calendar_ok C D" "days \<subseteq> D" "dom db = pg_partition_name C ` days"
    and "ce_rows env db = Inr names" "set names = dom db" "distinct names"
    and "\<forall>name. ce_fails env name = None" "ce_connect env url = Inr ()" "dialect_from_url url = Postgres"
    and "n < 2 ^ 63"
  shows "case run_cleanup C env now (show_nat n @ ''d'') url (db, rows) of
           (outcome, db', rows') \<Rightarrow>
             rows' = rows
             \<and> (if int n * 86400000 \<le> 2 ^ 63 - 1 \<and> ce_in_range env (now - int n * DAY_NS)
                then outcome = Finished (''Dropped '' @ show_nat (card {d \<in> days. d < date_of now - int n}) @ '' partition(s).'')
                   \<and> dom db' = pg_partition_name C ` {d \<in> days. date_of now - int n \<le> d}
                   \<and> (\<forall>name \<in> dom db'. db' name = db name)
                   \<and> (\<forall>t. now - int n * DAY_NS \<le> t \<longrightarrow> date_of t \<in> days \<longrightarrow> pg_partition_name C (date_of t) \<in> dom db')
                else outcome = Panicked \<and> db' = db)"
proof (cases "int n * 86400000 \<le> 2 ^ 63 - 1 \<and> ce_in_range env (now - int n * DAY_NS)")
  case False
  have cut: "now - 86400000000000 * int n = now - int n * DAY_NS" by (simp add: DAY_NS_def)
  have "run_cleanup C env now (show_nat n @ ''d'') url (db, rows) = (Panicked, db, rows)"
  proof (cases "int n * 86400000 \<le> 2 ^ 63 - 1")
    case True
    then have "chrono_seconds (int n * 86400) = Some (int n * 86400)" by (simp add: chrono_seconds_def)
    with True False show ?thesis by (simp add: run_cleanup_def parse_duration_days [OF assms(10)] cut)
  next
    case False
    then have "chrono_seconds (int n * 86400) = None" by (simp add: chrono_seconds_def)
    then show ?thesis by (simp add: run_cleanup_def parse_duration_days [OF assms(10)])
  qed
  with False show ?thesis by simp
next
  case True
  then have secs: "chrono_seconds (int n * 86400) = Some (int n * 86400)" by (simp add: chrono_seconds_def)
  let ?cut = "now - int n * DAY_NS"
  let ?date = "date_of now - int n"
  let ?old = "\<lambda>name. \<exists>d. parse_pg_partition_name C name = Some d \<and> d < ?date"
  let ?db = "\<lambda>name. if name \<in> set names \<and> ?old name then None else db name"
  have cut: "now - 86400000000000 * int n = ?cut" by (simp add: DAY_NS_def)
  have date: "date_of ?cut = ?date"
    using div_mult_self1 [of DAY_NS now "- int n"] by (simp add: date_of_def DAY_NS_def algebra_simps)
  have parse: "parse_pg_partition_name C (pg_partition_name C d) = Some d" if "d \<in> days" for d
    using parse_pg_partition_name [OF assms(1)] assms(2) that by blast
  have old: "?old (pg_partition_name C d) \<longleftrightarrow> d < ?date" if "d \<in> days" for d using parse [OF that] by simp
  have inj: "inj_on (pg_partition_name C) days" by (rule inj_on_inverseI [where g = "\<lambda>s. the (parse_pg_partition_name C s)"]) (simp add: parse)
  have "set (filter ?old names) = pg_partition_name C ` {d \<in> days. d < ?date}"
    unfolding set_filter assms(3,5) using old by (auto simp: parse)
  then have count: "length (filter ?old names) = card {d \<in> days. d < ?date}"
    using distinct_card [of "filter ?old names"] assms(6) card_image [OF inj_on_subset [OF inj, of "{d \<in> days. d < ?date}"]]
    by (metis (no_types, lifting) distinct_filter mem_Collect_eq subsetI)
  have kept: "dom ?db = pg_partition_name C ` {d \<in> days. ?date \<le> d}"
  proof -
    have "dom ?db = {name \<in> dom db. \<not> ?old name}" using assms(5) by (auto simp: dom_def)
    also have "\<dots> = pg_partition_name C ` {d \<in> days. ?date \<le> d}" unfolding assms(3) using old by force
    finally show ?thesis .
  qed
  have recent: "pg_partition_name C (date_of t) \<in> dom ?db" if "?cut \<le> t" "date_of t \<in> days" for t
  proof -
    have "date_of ?cut \<le> date_of t" unfolding date_of_def using that(1) by (rule zdiv_mono1) (simp add: DAY_NS_def)
    with date that(2) show ?thesis unfolding kept by auto
  qed
  have "run_cleanup C env now (show_nat n @ ''d'') url (db, rows)
      = (Finished (''Dropped '' @ show_nat (card {d \<in> days. d < ?date}) @ '' partition(s).''), ?db, rows)"
    using assms(4,8,9) True
    by (simp add: run_cleanup_def parse_duration_days [OF assms(10)] secs cut Let_def drop_pg_partitions_older_than_def
        drop_partitions_exact [OF assms(7,6)] date count)
  moreover have "\<forall>name \<in> dom ?db. ?db name = db name" by (auto simp: dom_def)
  ultimately show ?thesis using True kept recent by simp
qed

definition example_calendar :: calendar where
  "example_calendar =
     \<lparr>cal_year = (\<lambda>d. ''2026''), cal_month = (\<lambda>d. ''06''), cal_day = (\<lambda>d. if d = 100 then ''24'' else ''25''),
      cal_parse = (\<lambda>s. if s = ''2026-06-24'' then Some 100 else if s = ''2026-06-25'' then Some 101 else None)\<rparr>"

lemma cleanup_retention_witness:
  "let db = [''access_log_2026_06_24'' \<mapsto> (''a'', ''b''), ''access_log_2026_06_25'' \<mapsto> (''b'', ''c'')];
       env = \<lparr>ce_debug = dquoted, ce_in_range = (\<lambda>_. True), ce_connect = (\<lambda>_. Inr ()),
              ce_rows = (\<lambda>_. Inr [''access_log_2026_06_24'', ''access_log_2026_06_25'']), ce_fails = (\<lambda>_. None),
              ce_mysql_ts = (\<lambda>_. ''''), ce_rfc3339 = (\<lambda>_. ''''), ce_delete = (\<lambda>_ r. (Inr 0, r))\<rparr>
   in dom (fst (snd (run_cleanup example_calendar env (108 * DAY_NS + 5) ''7d'' ''postgres://h'' (db, ()))))
        = {''access_log_2026_06_25''}"
proof -
  let ?db = "[''access_log_2026_06_24'' \<mapsto> (''a'', ''b''), ''access_log_2026_06_25'' \<mapsto> (''b'', ''c'')]"
  let ?names = "[''access_log_2026_06_24'', ''access_log_2026_06_25'']"
  let ?env = "\<lparr>ce_debug = dquoted, ce_in_range = (\<lambda>_. True), ce_connect = (\<lambda>_. Inr ()),
              ce_rows = (\<lambda>_. Inr ?names), ce_fails = (\<lambda>_. None),
              ce_mysql_ts = (\<lambda>_. ''''), ce_rfc3339 = (\<lambda>_. ''''), ce_delete = (\<lambda>_ r. (Inr 0, r :: unit))\<rparr>"
  have cal: "calendar_ok example_calendar {100, 101}" by (simp add: calendar_ok_def example_calendar_def)
  have dom: "dom ?db = pg_partition_name example_calendar ` {100, 101}"
    by (auto simp: pg_partition_name_def example_calendar_def)
  have rows: "ce_rows ?env ?db = Inr ?names" by simp
  have names: "set ?names = dom ?db" "distinct ?names" by auto
  have rest: "\<forall>name. ce_fails ?env name = None" "ce_connect ?env ''postgres://h'' = Inr ()"
    "dialect_from_url ''postgres://h'' = Postgres" "(7::nat) < 2 ^ 63"
    by (simp_all add: dialect_from_url_def starts_with_def)
  have seven: "show_nat 7 = ''7''" by code_simp
  have today: "date_of (108 * DAY_NS + 5) = 108" by (simp add: date_of_def DAY_NS_def)
  obtain outcome db' rows' where r: "run_cleanup example_calendar ?env (108 * DAY_NS + 5) ''7d'' ''postgres://h'' (?db, ())
      = (outcome, db', rows')" by (rule prod_cases3)
  from cleanup_retention [OF cal subset_refl dom rows names rest, where rows = "()" and now = "108 * DAY_NS + 5"] r
  have "dom db' = pg_partition_name example_calendar ` {d \<in> {100, 101}. 101 \<le> d}"
    by (simp add: seven today)
  also have "{d \<in> {100, 101}. 101 \<le> d} = {101 :: int}" by auto
  finally show ?thesis unfolding Let_def r by (simp add: pg_partition_name_def example_calendar_def)
qed

end
