(* ===== verification/Log_Schema.thy ===== *)
theory Log_Schema
  imports Log_Partitions
begin

text \<open>
  The migrations of the access log table (\<^verbatim>\<open>server/src/db/access_log_store.rs\<close>) as lists
  of statements, and how the table they leave fits the insert statement.  The database engine is a
  parameter; what the proofs use of it is \<open>ddl_engine\<close>.
\<close>

section \<open>Statements\<close>

datatype sql_type = TEXT | INTEGER | BIGINT | BOOLEAN | REAL | TIMESTAMP | TIMESTAMPTZ

record column =
  col_name :: string
  col_type :: sql_type
  col_rest :: string      \<comment> \<open>keys, constraints and the default\<close>

datatype ddl =
    CreateSequence string
  | CreateTable string "column list" string     \<comment> \<open>with \<open>IF NOT EXISTS\<close>, and what follows the columns\<close>
  | CreateIndex string string string            \<comment> \<open>with \<open>IF NOT EXISTS\<close>: name, table, column\<close>
  | AddColumn bool string column                \<comment> \<open>whether with \<open>IF NOT EXISTS\<close>\<close>

definition text_column :: "string \<Rightarrow> column" where
  "text_column name = \<lparr>col_name = name, col_type = TEXT, col_rest = ''NOT NULL DEFAULT '' @ [CHR 0x27, CHR 0x27]\<rparr>"

lemma text_column_name [simp]: "col_name (text_column name) = name"
  by (simp add: text_column_def)

definition count_column :: "string \<Rightarrow> sql_type \<Rightarrow> column" where
  "count_column name ty = \<lparr>col_name = name, col_type = ty, col_rest = ''NOT NULL DEFAULT 0''\<rparr>"

definition data_columns :: "column list" where
  "data_columns =
     [text_column ''request_id'', text_column ''api_key_id'', text_column ''model'', text_column ''endpoint'',
      text_column ''provider_url'', text_column ''provider_node_id'', text_column ''upstream_model'',
      count_column ''status_code'' INTEGER, count_column ''latency_ms'' INTEGER,
      \<lparr>col_name = ''streaming'', col_type = BOOLEAN, col_rest = ''NOT NULL DEFAULT FALSE''\<rparr>,
      count_column ''ttft_ms'' INTEGER, count_column ''tpot_ms'' REAL,
      count_column ''prompt_tokens'' INTEGER, count_column ''completion_tokens'' INTEGER,
      count_column ''total_tokens'' INTEGER, text_column ''finish_reason'']"

text \<open>The \<open>unreachable!\<close> of the code is the branch the dispatch in \<open>migrate\<close> excludes.\<close>

definition simple_columns :: "database_dialect \<Rightarrow> column list" where
  "simple_columns d =
     (if d = MySql
      then [\<lparr>col_name = ''id'', col_type = BIGINT, col_rest = ''NOT NULL AUTO_INCREMENT PRIMARY KEY''\<rparr>,
            \<lparr>col_name = ''ts'', col_type = TIMESTAMP, col_rest = ''NOT NULL''\<rparr>]
      else [\<lparr>col_name = ''id'', col_type = INTEGER, col_rest = ''PRIMARY KEY AUTOINCREMENT''\<rparr>,
            \<lparr>col_name = ''ts'', col_type = TEXT, col_rest = ''NOT NULL''\<rparr>])
     @ data_columns"

definition pg_columns :: "column list" where
  "pg_columns =
     [\<lparr>col_name = ''id'', col_type = BIGINT,
       col_rest = ''NOT NULL DEFAULT nextval('' @ [CHR 0x27] @ ''access_log_id_seq'' @ [CHR 0x27] @ '')''\<rparr>,
      \<lparr>col_name = ''ts'', col_type = TIMESTAMPTZ, col_rest = ''NOT NULL''\<rparr>] @ data_columns"

section \<open>Migrations\<close>

text \<open>\<open>exec\<close> runs a statement and answers the error, if any; \<open>exec_all\<close> is a chain of \<open>?\<close>.\<close>

fun exec_all :: "(ddl \<Rightarrow> 'db \<Rightarrow> string option \<times> 'db) \<Rightarrow> ddl list \<Rightarrow> 'db \<Rightarrow> unit result \<times> 'db" where
  "exec_all exec [] db = (Inr (), db)"
| "exec_all exec (q # qs) db =
     (case exec q db of
        (Some e, db') \<Rightarrow> (Inl e, db')
      | (None, db') \<Rightarrow> exec_all exec qs db')"

definition ts_index :: ddl where
  "ts_index = CreateIndex ''idx_access_log_ts'' ''access_log'' ''ts''"

definition migrate_simple ::
    "(ddl \<Rightarrow> 'db \<Rightarrow> string option \<times> 'db) \<Rightarrow> database_dialect \<Rightarrow> 'db \<Rightarrow> unit result \<times> 'db" where
  "migrate_simple exec d db =
     (case exec_all exec [CreateTable ''access_log'' (simple_columns d) '''', ts_index] db of
        (Inl e, db1) \<Rightarrow> (Inl e, db1)
      | (Inr _, db1) \<Rightarrow>
          (let db2 = snd (exec (AddColumn False ''access_log'' (text_column ''upstream_model'')) db1);
               db3 = snd (exec (AddColumn False ''access_log'' (text_column ''provider_node_id'')) db2)
           in (Inr (), db3)))"

definition pg_statements :: "ddl list" where
  "pg_statements =
     [CreateSequence ''access_log_id_seq'',
      CreateTable ''access_log'' pg_columns ''PRIMARY KEY (id, ts)) PARTITION BY RANGE (ts)'',
      AddColumn True ''access_log'' (text_column ''upstream_model''),
      AddColumn True ''access_log'' (text_column ''provider_node_id''),
      ts_index]"

definition migrate_pg ::
    "(ddl \<Rightarrow> 'db \<Rightarrow> string option \<times> 'db) \<Rightarrow> calendar \<Rightarrow> (string \<Rightarrow> string option) \<Rightarrow> int
       \<Rightarrow> 'db \<times> partitions \<Rightarrow> unit result \<times> 'db \<times> partitions" where
  "migrate_pg exec C fails now s =
     (case s of (db, parts) \<Rightarrow>
        (case exec_all exec pg_statements db of
           (Inl e, db') \<Rightarrow> (Inl e, db', parts)
         | (Inr _, db') \<Rightarrow>
             (case ensure_pg_partitions C fails now 3 parts of (r, parts') \<Rightarrow> (r, db', parts'))))"

definition migrate ::
    "(ddl \<Rightarrow> 'db \<Rightarrow> string option \<times> 'db) \<Rightarrow> calendar \<Rightarrow> (string \<Rightarrow> string option) \<Rightarrow> int \<Rightarrow> database_dialect
       \<Rightarrow> 'db \<times> partitions \<Rightarrow> unit result \<times> 'db \<times> partitions" where
  "migrate exec C fails now d s =
     (if d = Postgres then migrate_pg exec C fails now s
      else case s of (db, parts) \<Rightarrow>
        (case migrate_simple exec d db of (r, db') \<Rightarrow> (r, db', parts)))"

section \<open>Starting the log\<close>

text \<open>
  The sink of the request path and the writer task that serves it.  \<open>startup_log\<close> of the startup falls
  back to \<open>LogNoop\<close> and this writer when there is no database or the start fails.
\<close>

definition writer_noop :: log_writer where
  "writer_noop = writer_start\<lparr>ended := True\<rparr>"

definition log_start ::
    "(ddl \<Rightarrow> 'db \<Rightarrow> string option \<times> 'db) \<Rightarrow> calendar \<Rightarrow> (string \<Rightarrow> string option) \<Rightarrow> int \<Rightarrow> database_dialect
       \<Rightarrow> 'db \<times> partitions \<Rightarrow> (log_sink \<times> log_writer) result \<times> 'db \<times> partitions" where
  "log_start exec C fails now d s =
     (case migrate exec C fails now d s of
        (Inl e, s') \<Rightarrow> (Inl e, s')
      | (Inr _, s') \<Rightarrow> (Inr (LogChannel [], writer_start), s'))"

section \<open>What an engine does\<close>

text \<open>
  Documented behaviour of the statements on the columns of a table: \<open>IF NOT EXISTS\<close> leaves an existing
  table or column alone, a statement that fails changes nothing, and a plain \<open>ADD COLUMN\<close> fails when
  the column exists.
\<close>

definition ddl_engine :: "(ddl \<Rightarrow> 'db \<Rightarrow> string option \<times> 'db) \<Rightarrow> ('db \<Rightarrow> string \<Rightarrow> column list option) \<Rightarrow> bool" where
  "ddl_engine exec cols \<longleftrightarrow>
     (\<forall>q db e db'. exec q db = (Some e, db') \<longrightarrow> cols db' = cols db)
   \<and> (\<forall>db name db'. exec (CreateSequence name) db = (None, db') \<longrightarrow> cols db' = cols db)
   \<and> (\<forall>db name t c db'. exec (CreateIndex name t c) db = (None, db') \<longrightarrow> cols db' = cols db)
   \<and> (\<forall>db t cs rest db'. exec (CreateTable t cs rest) db = (None, db') \<longrightarrow>
        cols db' = (if cols db t = None then (cols db)(t \<mapsto> cs) else cols db))
   \<and> (\<forall>db guarded t c db' cs. exec (AddColumn guarded t c) db = (None, db') \<longrightarrow> cols db t = Some cs \<longrightarrow>
        cols db' = (if col_name c \<in> col_name ` set cs then cols db else (cols db)(t \<mapsto> cs @ [c])))"

lemma ddl_engineD:
  assumes "ddl_engine exec cols"
  shows "exec q db = (Some e, db') \<Longrightarrow> cols db' = cols db"
    and "exec (CreateSequence name) db = (None, db') \<Longrightarrow> cols db' = cols db"
    and "exec (CreateIndex name t ic) db = (None, db') \<Longrightarrow> cols db' = cols db"
    and "exec (CreateTable t cs rest) db = (None, db') \<Longrightarrow>
           cols db' = (if cols db t = None then (cols db)(t \<mapsto> cs) else cols db)"
    and "exec (AddColumn guarded t c) db = (None, db') \<Longrightarrow> cols db t = Some cs \<Longrightarrow>
           cols db' = (if col_name c \<in> col_name ` set cs then cols db else (cols db)(t \<mapsto> cs @ [c]))"
proof -
  note laws = assms [unfolded ddl_engine_def, THEN conjunct1]
    assms [unfolded ddl_engine_def, THEN conjunct2, THEN conjunct1]
    assms [unfolded ddl_engine_def, THEN conjunct2, THEN conjunct2, THEN conjunct1]
    assms [unfolded ddl_engine_def, THEN conjunct2, THEN conjunct2, THEN conjunct2, THEN conjunct1]
    assms [unfolded ddl_engine_def, THEN conjunct2, THEN conjunct2, THEN conjunct2, THEN conjunct2]
  show "exec q db = (Some e, db') \<Longrightarrow> cols db' = cols db" using laws(1) by iprover
  show "exec (CreateSequence name) db = (None, db') \<Longrightarrow> cols db' = cols db" using laws(2) by iprover
  show "exec (CreateIndex name t ic) db = (None, db') \<Longrightarrow> cols db' = cols db" using laws(3) by iprover
  show "exec (CreateTable t cs rest) db = (None, db') \<Longrightarrow>
      cols db' = (if cols db t = None then (cols db)(t \<mapsto> cs) else cols db)" using laws(4) by iprover
  show "exec (AddColumn guarded t c) db = (None, db') \<Longrightarrow> cols db t = Some cs \<Longrightarrow>
      cols db' = (if col_name c \<in> col_name ` set cs then cols db else (cols db)(t \<mapsto> cs @ [c]))"
    using laws(5) by iprover
qed

section \<open>The table and the insert\<close>

definition insert_columns :: "string list" where
  "insert_columns =
     [''ts'', ''request_id'', ''api_key_id'', ''model'', ''endpoint'', ''provider_url'', ''provider_node_id'',
      ''upstream_model'', ''status_code'', ''latency_ms'', ''streaming'', ''ttft_ms'', ''tpot_ms'',
      ''prompt_tokens'', ''completion_tokens'', ''total_tokens'', ''finish_reason'']"

lemma insert_sql_columns:
  "insert_sql d n = ''INSERT INTO access_log ('' @ join_strings '','' insert_columns @ '') VALUES '' @ placeholders d n"
  by (simp add: insert_sql_def insert_columns_def join_strings_def)

text \<open>The columns of a table that the first version of the program created.\<close>

definition first_columns :: "string set" where
  "first_columns = set insert_columns - {''upstream_model'', ''provider_node_id''}"

definition table_has :: "('db \<Rightarrow> string \<Rightarrow> column list option) \<Rightarrow> 'db \<Rightarrow> string set \<Rightarrow> bool" where
  "table_has cols db names \<longleftrightarrow>
     (case cols db ''access_log'' of None \<Rightarrow> False | Some cs \<Rightarrow> names \<subseteq> col_name ` set cs)"

lemma table_has_Some: "table_has cols db names \<longleftrightarrow> (\<exists>cs. cols db ''access_log'' = Some cs \<and> names \<subseteq> col_name ` set cs)"
  by (simp add: table_has_def split: option.split)

lemma table_has_cols: "cols db' = cols db \<Longrightarrow> table_has cols db' names = table_has cols db names"
  by (simp add: table_has_def)

lemma create_has:
  assumes "ddl_engine exec cols" "exec (CreateTable ''access_log'' cs rest) db = (None, db')"
    and "cols db ''access_log'' = None \<or> table_has cols db names" "names \<subseteq> col_name ` set cs"
  shows "table_has cols db' names"
  using ddl_engineD(4) [where exec = exec and cols = cols, OF assms(1,2)] assms(3,4) by (auto simp: table_has_Some)

lemma add_has:
  assumes "ddl_engine exec cols" "exec (AddColumn guarded ''access_log'' c) db = (None, db')"
    and "table_has cols db names"
  shows "table_has cols db' (insert (col_name c) names)"
proof -
  from assms(3) obtain cs where cs: "cols db ''access_log'' = Some cs" "names \<subseteq> col_name ` set cs"
    by (auto simp: table_has_Some)
  with ddl_engineD(5) [where exec = exec and cols = cols, OF assms(1,2) cs(1)] show ?thesis by (auto simp: table_has_Some)
qed

text \<open>An \<open>ALTER\<close> whose error is ignored: the column is there afterwards if it was, or if it succeeded.\<close>

lemma add_ignored:
  assumes "ddl_engine exec cols" "cols db ''access_log'' = Some cs"
    and "exec (AddColumn False ''access_log'' c) db = (e, db')"
  shows "\<exists>cs'. cols db' ''access_log'' = Some cs'
       \<and> col_name ` set cs' = (if e = None then insert (col_name c) (col_name ` set cs) else col_name ` set cs)"
proof (cases e)
  case None
  from ddl_engineD(5) [where exec = exec and cols = cols, OF assms(1) assms(3) [unfolded None] assms(2)] None assms(2)
  show ?thesis by (auto split: if_splits)
next
  case (Some err)
  from ddl_engineD(1) [where exec = exec and cols = cols, OF assms(1) assms(3) [unfolded Some]] Some assms(2)
  show ?thesis by simp
qed

lemma two_adds_ignored:
  assumes "ddl_engine exec cols" "cols db ''access_log'' = Some cs"
    and "exec (AddColumn False ''access_log'' (text_column c)) db = (e, db1)"
    and "exec (AddColumn False ''access_log'' (text_column c')) db1 = (e', db2)"
  shows "\<exists>cs'. cols db2 ''access_log'' = Some cs'
       \<and> col_name ` set cs' = col_name ` set cs \<union> {x. x = c \<and> e = None \<or> x = c' \<and> e' = None}"
proof -
  from add_ignored [where exec = exec and cols = cols, OF assms(1-3)] obtain cs1 where
    1: "cols db1 ''access_log'' = Some cs1"
    "col_name ` set cs1 = (if e = None then insert c (col_name ` set cs) else col_name ` set cs)" by auto
  from add_ignored [where exec = exec and cols = cols, OF assms(1) 1(1) assms(4)] show ?thesis
    unfolding 1(2) by auto
qed

lemma first_columns_in:
  "first_columns \<subseteq> col_name ` set (simple_columns d)" "first_columns \<subseteq> col_name ` set pg_columns"
  by (auto simp: first_columns_def insert_columns_def simple_columns_def pg_columns_def data_columns_def
      text_column_def count_column_def)

lemma insert_columns_all: "insert ''provider_node_id'' (insert ''upstream_model'' first_columns) = set insert_columns"
  by (auto simp: first_columns_def insert_columns_def)

lemma all_columns_in: "set insert_columns \<subseteq> col_name ` set (simple_columns d)"
  by (auto simp: insert_columns_def simple_columns_def data_columns_def text_column_def count_column_def)

lemma migrate_pg_has:
  assumes "ddl_engine exec cols" "cols db ''access_log'' = None \<or> table_has cols db first_columns"
    and "migrate exec C fails now Postgres (db, parts) = (Inr (), db', parts')"
  shows "table_has cols db' (set insert_columns)"
proof -
  from assms(3) have "exec_all exec pg_statements db = (Inr (), db')"
    by (auto simp: migrate_def migrate_pg_def split: prod.splits sum.splits)
  then obtain d1 d2 d3 d4 where steps:
    "exec (CreateSequence ''access_log_id_seq'') db = (None, d1)"
    "exec (CreateTable ''access_log'' pg_columns ''PRIMARY KEY (id, ts)) PARTITION BY RANGE (ts)'') d1 = (None, d2)"
    "exec (AddColumn True ''access_log'' (text_column ''upstream_model'')) d2 = (None, d3)"
    "exec (AddColumn True ''access_log'' (text_column ''provider_node_id'')) d3 = (None, d4)"
    "exec ts_index d4 = (None, db')"
    by (auto simp: pg_statements_def split: prod.splits option.splits)
  have "cols d1 = cols db" by (rule ddl_engineD(2) [where exec = exec and cols = cols, OF assms(1) steps(1)])
  with assms(2) have "cols d1 ''access_log'' = None \<or> table_has cols d1 first_columns"
    by (simp add: table_has_def)
  from add_has [where exec = exec and cols = cols, OF assms(1) steps(4) add_has [where exec = exec and cols = cols, OF assms(1) steps(3)
      create_has [where exec = exec and cols = cols, OF assms(1) steps(2) this first_columns_in(2)]]]
  have "table_has cols d4 (set insert_columns)" by (simp add: insert_columns_all)
  with ddl_engineD(3) [where exec = exec and cols = cols, OF assms(1) steps(5) [unfolded ts_index_def]] show ?thesis by (simp add: table_has_def)
qed

text \<open>Elsewhere: the table after the first two statements, then the two additions.\<close>

definition alters :: "(ddl \<Rightarrow> 'db \<Rightarrow> string option \<times> 'db) \<Rightarrow> 'db \<Rightarrow> bool \<times> bool \<times> 'db" where
  "alters exec db =
     (case exec (AddColumn False ''access_log'' (text_column ''upstream_model'')) db of
        (e, db1) \<Rightarrow> (case exec (AddColumn False ''access_log'' (text_column ''provider_node_id'')) db1 of
           (e', db2) \<Rightarrow> (e = None, e' = None, db2)))"

lemma migrate_simple_has:
  assumes "ddl_engine exec cols" "migrate exec C fails now d (db, parts) = (Inr (), db', parts')" "d \<noteq> Postgres"
  obtains d2 u p where "exec_all exec [CreateTable ''access_log'' (simple_columns d) '''', ts_index] db = (Inr (), d2)"
    and "cols d2 = (if cols db ''access_log'' = None then (cols db)(''access_log'' \<mapsto> simple_columns d) else cols db)"
    and "alters exec d2 = (u, p, db')"
    and "\<And>names. table_has cols db' names
           \<longleftrightarrow> table_has cols d2 (names - {x. x = ''upstream_model'' \<and> u \<or> x = ''provider_node_id'' \<and> p})"
proof -
  from assms(2,3) have "migrate_simple exec d db = (Inr (), db')"
    by (auto simp: migrate_def split: prod.splits)
  then obtain d1 d2 where steps:
    "exec (CreateTable ''access_log'' (simple_columns d) '''') db = (None, d1)" "exec ts_index d1 = (None, d2)"
    "db' = snd (exec (AddColumn False ''access_log'' (text_column ''provider_node_id''))
             (snd (exec (AddColumn False ''access_log'' (text_column ''upstream_model'')) d2)))"
    by (auto simp: migrate_simple_def Let_def split: prod.splits option.splits)
  have c2: "cols d2 = (if cols db ''access_log'' = None then (cols db)(''access_log'' \<mapsto> simple_columns d) else cols db)"
    using ddl_engineD(4) [where exec = exec and cols = cols, OF assms(1) steps(1)]
      ddl_engineD(3) [where exec = exec and cols = cols, OF assms(1) steps(2) [unfolded ts_index_def]] by simp
  then obtain cs where cs: "cols d2 ''access_log'' = Some cs" by (cases "cols db ''access_log''") auto
  obtain e d3 where e: "exec (AddColumn False ''access_log'' (text_column ''upstream_model'')) d2 = (e, d3)" by force
  obtain e' where e': "exec (AddColumn False ''access_log'' (text_column ''provider_node_id'')) d3 = (e', db')"
    using steps(3) e by (metis prod.collapse snd_conv)
  from two_adds_ignored [where exec = exec and cols = cols, OF assms(1) cs e e'] cs
  have "table_has cols db' names
      \<longleftrightarrow> table_has cols d2 (names - {x. x = ''upstream_model'' \<and> e = None \<or> x = ''provider_node_id'' \<and> e' = None})" for names
    by (auto simp: table_has_Some)
  moreover have "exec_all exec [CreateTable ''access_log'' (simple_columns d) '''', ts_index] db = (Inr (), d2)"
    by (simp add: steps(1,2))
  moreover have "alters exec d2 = (e = None, e' = None, db')" by (simp add: alters_def e e')
  ultimately show ?thesis using that c2 by blast
qed

text \<open>
  Values and declared types: a time stamp is bound as text, which PostgreSQL casts in the statement
  and MySQL reads as a literal.
\<close>

fun same_kind :: "sql_type \<Rightarrow> bind_value \<Rightarrow> bool" where
  "same_kind TEXT (BindText s) = True"
| "same_kind TIMESTAMP (BindText s) = True"
| "same_kind TIMESTAMPTZ (BindText s) = True"
| "same_kind INTEGER (BindInt n) = True"
| "same_kind BIGINT (BindInt n) = True"
| "same_kind REAL (BindF64 x) = True"
| "same_kind ty v = False"

definition declared_type :: "database_dialect \<Rightarrow> string \<Rightarrow> sql_type option" where
  "declared_type d name =
     map_option col_type (find (\<lambda>c. col_name c = name) (if d = Postgres then pg_columns else simple_columns d))"

definition value_fits :: "database_dialect \<Rightarrow> string \<Rightarrow> bind_value \<Rightarrow> bool" where
  "value_fits d name v = (case declared_type d name of Some ty \<Rightarrow> same_kind ty v | None \<Rightarrow> False)"

lemma declared_types:
  "map (declared_type d) insert_columns =
     map Some ([case d of Postgres \<Rightarrow> TIMESTAMPTZ | MySql \<Rightarrow> TIMESTAMP | Sqlite \<Rightarrow> TEXT]
       @ replicate 7 TEXT @ [INTEGER, INTEGER, BOOLEAN, INTEGER, REAL, INTEGER, INTEGER, INTEGER, TEXT])"
  by (cases d) (simp_all add: insert_columns_def declared_type_def pg_columns_def simple_columns_def
      data_columns_def text_column_def count_column_def eval_nat_numeral)

lemma values_fit:
  "map2 (value_fits d) insert_columns (record_binds f g d r) = map (\<lambda>name. name \<noteq> ''streaming'') insert_columns"
proof -
  note types = declared_types [of d, unfolded insert_columns_def, simplified]
  show ?thesis
    by (cases d) (use types in \<open>simp_all add: insert_columns_def record_binds_def value_fits_def eval_nat_numeral\<close>)
qed

lemma migrate_has:
  assumes "ddl_engine exec cols" "cols db ''access_log'' = None \<or> table_has cols db first_columns"
    and "migrate exec C fails now d (db, parts) = (Inr (), db', parts')"
  shows "if d = Postgres \<or> cols db ''access_log'' = None then table_has cols db' (set insert_columns)
         else \<exists>db1 u p. exec_all exec [CreateTable ''access_log'' (simple_columns d) '''', ts_index] db = (Inr (), db1)
           \<and> alters exec db1 = (u, p, db')
           \<and> (table_has cols db' (set insert_columns)
               \<longleftrightarrow> (u \<or> table_has cols db {''upstream_model''}) \<and> (p \<or> table_has cols db {''provider_node_id''}))"
proof (cases "d = Postgres")
  case True
  with migrate_pg_has [where exec = exec and cols = cols, OF assms(1,2)] assms(3) show ?thesis by simp
next
  case False
  obtain d2 u p where m: "exec_all exec [CreateTable ''access_log'' (simple_columns d) '''', ts_index] db = (Inr (), d2)"
    "cols d2 = (if cols db ''access_log'' = None then (cols db)(''access_log'' \<mapsto> simple_columns d) else cols db)"
    "alters exec d2 = (u, p, db')"
    "\<And>names. table_has cols db' names
       \<longleftrightarrow> table_has cols d2 (names - {x. x = ''upstream_model'' \<and> u \<or> x = ''provider_node_id'' \<and> p})"
    using migrate_simple_has [where exec = exec and cols = cols, OF assms(1,3) False] by blast
  show ?thesis
  proof (cases "cols db ''access_log'' = None")
    case True
    with m(2,4) all_columns_in [of d] show ?thesis by (auto simp: table_has_Some)
  next
    case False
    with assms(2) have "table_has cols db first_columns" by simp
    with False m(2) have "table_has cols db (set insert_columns - {x. x = ''upstream_model'' \<and> u \<or> x = ''provider_node_id'' \<and> p})
        \<longleftrightarrow> (u \<or> table_has cols db {''upstream_model''}) \<and> (p \<or> table_has cols db {''provider_node_id''})"
      unfolding insert_columns_all [symmetric] by (auto simp: table_has_Some first_columns_def)
    with m(1,3) m(4) [of "set insert_columns"] False m(2) \<open>d \<noteq> Postgres\<close> show ?thesis
      by (auto simp: table_has_def)
  qed
qed

text \<open>
  C35. The migrations prepare the table for the insert.  After a successful migration of a new database,
  or of any on PostgreSQL, the table has every column the insert names.  A table of an older version on
  SQLite or MySQL gets \<open>upstream_model\<close> and \<open>provider_node_id\<close> from two \<open>ALTER\<close>s whose errors the code
  ignores: the migration succeeds anyway, and the table serves the insert if and only if each of the
  two either had its column or had its \<open>ALTER\<close> succeed.  Each row binds one value per column, and every
  value is of its column's declared kind except that of \<open>streaming\<close>, declared BOOLEAN and bound as an
  integer, whatever the database.
\<close>

theorem schema_serves_insert:
  assumes "ddl_engine exec cols" "cols db ''access_log'' = None \<or> table_has cols db first_columns"
    and "migrate exec C fails now d (db, parts) = (Inr (), db', parts')"
  shows "(if d = Postgres \<or> cols db ''access_log'' = None then table_has cols db' (set insert_columns)
          else \<exists>db1 u p. exec_all exec [CreateTable ''access_log'' (simple_columns d) '''', ts_index] db = (Inr (), db1)
            \<and> alters exec db1 = (u, p, db')
            \<and> (table_has cols db' (set insert_columns)
                \<longleftrightarrow> (u \<or> table_has cols db {''upstream_model''}) \<and> (p \<or> table_has cols db {''provider_node_id''})))
       \<and> length (record_binds f g d r) = length insert_columns
       \<and> map2 (value_fits d) insert_columns (record_binds f g d r)
           = map (\<lambda>name. name \<noteq> ''streaming'') insert_columns"
  using migrate_has [where exec = exec and cols = cols, OF assms] values_fit
  by (simp add: record_binds_def insert_columns_def)

text \<open>An engine that keeps nothing but columns.\<close>

fun schema_exec :: "ddl \<Rightarrow> (string \<Rightarrow> column list option) \<Rightarrow> string option \<times> (string \<Rightarrow> column list option)" where
  "schema_exec (CreateSequence name) db = (None, db)"
| "schema_exec (CreateIndex name t c) db = (None, db)"
| "schema_exec (CreateTable t cs rest) db = (None, if db t = None then db(t \<mapsto> cs) else db)"
| "schema_exec (AddColumn guarded t c) db =
     (case db t of
        None \<Rightarrow> (Some ''no such table'', db)
      | Some cs \<Rightarrow>
          (if col_name c \<in> col_name ` set cs then (if guarded then None else Some ''duplicate column'', db)
           else (None, db(t \<mapsto> cs @ [c]))))"

lemma schema_engine: "ddl_engine schema_exec (\<lambda>db. db)"
proof -
  have "schema_exec q db = (Some e, db') \<Longrightarrow> db' = db" for q db e db'
    by (cases q) (auto split: option.splits if_splits)
  then show ?thesis
    unfolding ddl_engine_def by (intro conjI allI impI) (auto split: if_splits)
qed

definition first_table :: "column list" where
  "first_table = filter (\<lambda>c. col_name c \<in> first_columns) (simple_columns Sqlite)"

lemma first_table_columns: "col_name ` set first_table = first_columns"
  using first_columns_in(1) [of Sqlite] by (auto simp: first_table_def)

lemma schema_serves_insert_witness:
  "table_has (\<lambda>db. db) (snd (migrate_simple schema_exec Sqlite [''access_log'' \<mapsto> first_table])) (set insert_columns)"
proof -
  let ?db = "[''access_log'' \<mapsto> first_table]"
  have ok: "fst (migrate_simple schema_exec Sqlite ?db) = Inr ()"
    by (simp add: migrate_simple_def ts_index_def Let_def)
  obtain db' where m: "migrate_simple schema_exec Sqlite ?db = (Inr (), db')"
    using ok by (metis prod.collapse)
  then have run: "migrate schema_exec C fails 0 Sqlite (?db, Map.empty) = (Inr (), db', Map.empty)" for C fails
    by (simp add: migrate_def)
  have old: "table_has (\<lambda>db. db) ?db first_columns" by (simp add: table_has_def first_table_columns)
  have exec: "exec_all schema_exec [CreateTable ''access_log'' (simple_columns Sqlite) '''', ts_index] ?db = (Inr (), ?db)"
    by (simp add: ts_index_def)
  have added: "u \<and> p" if "alters schema_exec ?db = (u, p, db'')" for u p db''
    using that by (auto simp: alters_def first_table_columns first_columns_def)
  note conc = schema_serves_insert [OF schema_engine disjI2 [OF old] run, THEN conjunct1]
  have "table_has (\<lambda>db. db) db' (set insert_columns)"
    using conc added unfolding exec by (auto split: if_splits)
  then show ?thesis using m by simp
qed

text \<open>An engine that refuses every \<open>ALTER\<close>: the migration succeeds and the column is missing.\<close>

definition no_alter_exec :: "ddl \<Rightarrow> (string \<Rightarrow> column list option) \<Rightarrow> string option \<times> (string \<Rightarrow> column list option)" where
  "no_alter_exec q db = (case q of AddColumn g t c \<Rightarrow> (Some ''permission denied'', db) | _ \<Rightarrow> schema_exec q db)"

lemma ignored_alter_loses_column:
  "migrate_simple no_alter_exec Sqlite [''access_log'' \<mapsto> first_table] = (Inr (), [''access_log'' \<mapsto> first_table])
   \<and> \<not> table_has (\<lambda>db. db) [''access_log'' \<mapsto> first_table] (set insert_columns)"
  by (simp add: migrate_simple_def ts_index_def Let_def no_alter_exec_def table_has_def first_table_columns)
     (simp add: first_columns_def insert_columns_def)

end
