(* ===== verification/Startup.thy ===== *)
theory Startup
  imports Server Config_Poll Rate_Limit_Redis Rate_Limit_Memory
begin

text \<open>
  From the command line to a serving gateway: the configuration records of
  \<^verbatim>\<open>core/src/config.rs\<close>, how \<^verbatim>\<open>server/src/main.rs\<close> fills them, and what
  \<open>startup\<close> of \<^verbatim>\<open>server/src/server.rs\<close> decides before it listens: where routes, keys,
  limits and quotas come from, which pollers run, and which configurations are refused.  Files,
  databases, Redis and the process environment answer through arguments; the exporters, the TLS
  acceptor and the listener are the libraries' part.  The refusals of \<open>AppContext::with_config\<close>, of an
  address that does not parse and of unreadable certificates are left out: with them fewer starts
  succeed, and what holds of every successful start still does.
\<close>

section \<open>Configuration\<close>

record trace_config =
  enable_trace :: bool
  otlp_traces_endpoint :: string
  service_env :: string
  service_version :: string

definition default_trace_config :: "environment \<Rightarrow> string \<Rightarrow> trace_config" where
  "default_trace_config env pkg_version =
     \<lparr>enable_trace = False,
      otlp_traces_endpoint = or_default (env ''OTLP_ENDPOINT'') ''http://localhost:4318/v1/traces'',
      service_env = or_default (env ''OTEL_SERVICE_ENV'') ''development'',
      service_version = or_default (env ''OTEL_SERVICE_VERSION'') pkg_version\<rparr>"

datatype auth_mode = Cached | Realtime

record rate_limit_config =
  rl_redis_url :: "string option"
  rl_window_secs :: u64

record database_config =
  db_url :: string
  db_max_connections :: u32
  db_min_connections :: u32
  db_acquire_timeout_secs :: u64

definition default_database_config :: "environment \<Rightarrow> database_config" where
  "default_database_config env =
     \<lparr>db_url = or_default (env ''DATABASE_URL'') ''sqlite://model_gateway.db?mode=rwc'',
      db_max_connections = 20, db_min_connections = 1, db_acquire_timeout_secs = 5\<rparr>"

record 'b prometheus_config =
  prom_port :: u16
  prom_host :: string
  prom_duration_buckets :: "'b list option"
  prom_ttft_buckets :: "'b list option"

definition default_prometheus_config :: "'b prometheus_config" where
  "default_prometheus_config =
     \<lparr>prom_port = 29000, prom_host = ''0.0.0.0'', prom_duration_buckets = None, prom_ttft_buckets = None\<rparr>"

record ('g, 'b) server_config =
  sc_host :: string
  sc_port :: u16
  sc_log_dir :: "string option"
  sc_log_level :: "string option"
  sc_json_log :: bool
  sc_request_id_headers :: "string list option"
  sc_shutdown_grace_period_secs :: u64
  sc_upstream_sync_interval_secs :: u64
  sc_force_reload_interval_secs :: u64
  sc_trace_config :: "trace_config option"
  sc_prometheus_config :: "'b prometheus_config option"
  sc_router_config :: "'g router_config"
  sc_max_payload_size :: u64
  sc_cors_allowed_origins :: "string list"
  sc_database :: database_config
  sc_auth_mode :: auth_mode
  sc_route_file :: "string option"
  sc_auth_file :: "string option"
  sc_no_auth :: bool
  sc_rate_limit :: "rate_limit_config option"
  sc_quota_file :: "string option"

definition default_server_config :: "environment \<Rightarrow> string \<Rightarrow> ('g, 'b) server_config" where
  "default_server_config env pkg_version =
     \<lparr>sc_host = ''127.0.0.1'', sc_port = 8080, sc_log_dir = None, sc_log_level = Some ''info'', sc_json_log = False,
      sc_request_id_headers = None, sc_shutdown_grace_period_secs = 5, sc_upstream_sync_interval_secs = 30,
      sc_force_reload_interval_secs = 3600, sc_trace_config = Some (default_trace_config env pkg_version),
      sc_prometheus_config = Some default_prometheus_config, sc_router_config = default_router_config,
      sc_max_payload_size = 512 * 1024 * 1024, sc_cors_allowed_origins = [],
      sc_database = default_database_config env, sc_auth_mode = Cached, sc_route_file = None, sc_auth_file = None,
      sc_no_auth = False, sc_rate_limit = None, sc_quota_file = None\<rparr>"

section \<open>The command line\<close>

text \<open>The arguments of \<open>serve\<close>, as the argument parser yields them.\<close>

record 'g serve_args =
  sa_host :: string
  sa_port :: u16
  sa_log_dir :: "string option"
  sa_log_level :: string
  sa_json_log :: bool
  sa_shutdown_grace_period_secs :: u64
  sa_upstream_sync_interval_secs :: u64
  sa_force_reload_interval_secs :: u64
  sa_max_payload_size :: u64
  sa_cors_allowed_origins :: "string list"
  sa_request_id_headers :: "string list"
  sa_enable_trace :: bool
  sa_otlp_traces_endpoint :: string
  sa_db_max_connections :: u32
  sa_db_min_connections :: u32
  sa_db_acquire_timeout_secs :: u64
  sa_database_url :: string
  sa_prometheus_host :: string
  sa_prometheus_port :: u16
  sa_request_timeout_secs :: u64
  sa_tls_cert_path :: "string option"
  sa_tls_key_path :: "string option"
  sa_retry_max_retries :: u32
  sa_retry_initial_backoff_ms :: u64
  sa_retry_max_backoff_ms :: u64
  sa_retry_backoff_multiplier :: 'g
  sa_retry_jitter_factor :: 'g
  sa_auth_mode :: string
  sa_log_request_body :: bool
  sa_no_inject_stream_usage :: bool
  sa_route_file :: "string option"
  sa_auth_file :: "string option"
  sa_no_auth :: bool
  sa_quota_file :: "string option"
  sa_rl_window_secs :: u64
  sa_rl_redis_url :: "string option"

text \<open>The contents of a PEM file, when its option is given.\<close>

definition read_pem :: "(string \<Rightarrow> string result) \<Rightarrow> string \<Rightarrow> string option \<Rightarrow> string option result" where
  "read_pem read what path =
     (case path of
        None \<Rightarrow> Inr None
      | Some p \<Rightarrow>
          (case read p of
             Inl e \<Rightarrow> Inl (''Failed to read TLS '' @ what @ '' '' @ quoted p @ '': '' @ e)
           | Inr pem \<Rightarrow> Inr (Some pem)))"

definition auth_mode_of :: "string \<Rightarrow> auth_mode" where
  "auth_mode_of s = (if ascii_lower s = ''realtime'' then Realtime else Cached)"

definition serve_config ::
    "environment \<Rightarrow> string \<Rightarrow> (string \<Rightarrow> string result) \<Rightarrow> 'g serve_args \<Rightarrow> ('g, 'b) server_config result" where
  "serve_config env pkg_version read a =
     rbind (read_pem read ''cert'' (sa_tls_cert_path a)) (\<lambda>cert.
     rbind (read_pem read ''key'' (sa_tls_key_path a)) (\<lambda>key.
       Inr \<lparr>sc_host = sa_host a, sc_port = sa_port a, sc_log_dir = sa_log_dir a, sc_log_level = Some (sa_log_level a),
            sc_json_log = sa_json_log a,
            sc_request_id_headers = (if sa_request_id_headers a \<noteq> [] then Some (sa_request_id_headers a) else None),
            sc_shutdown_grace_period_secs = sa_shutdown_grace_period_secs a,
            sc_upstream_sync_interval_secs = sa_upstream_sync_interval_secs a,
            sc_force_reload_interval_secs = sa_force_reload_interval_secs a,
            sc_trace_config = Some ((default_trace_config env pkg_version)
              \<lparr>enable_trace := sa_enable_trace a, otlp_traces_endpoint := sa_otlp_traces_endpoint a\<rparr>),
            sc_prometheus_config = Some \<lparr>prom_port = sa_prometheus_port a, prom_host = sa_prometheus_host a,
              prom_duration_buckets = None, prom_ttft_buckets = None\<rparr>,
            sc_router_config = default_router_config
              \<lparr>request_timeout_secs := sa_request_timeout_secs a, server_cert := cert, server_key := key,
               rcfg_retry_config := Some \<lparr>max_retries = sa_retry_max_retries a,
                 initial_backoff_ms = sa_retry_initial_backoff_ms a, max_backoff_ms = sa_retry_max_backoff_ms a,
                 backoff_multiplier = sa_retry_backoff_multiplier a, jitter_factor = sa_retry_jitter_factor a\<rparr>,
               log_request_body := sa_log_request_body a, inject_stream_usage := \<not> sa_no_inject_stream_usage a\<rparr>,
            sc_max_payload_size = sa_max_payload_size a, sc_cors_allowed_origins = sa_cors_allowed_origins a,
            sc_database = \<lparr>db_url = sa_database_url a, db_max_connections = sa_db_max_connections a,
              db_min_connections = sa_db_min_connections a, db_acquire_timeout_secs = sa_db_acquire_timeout_secs a\<rparr>,
            sc_auth_mode = auth_mode_of (sa_auth_mode a), sc_route_file = sa_route_file a,
            sc_auth_file = sa_auth_file a, sc_no_auth = sa_no_auth a,
            sc_rate_limit = Some \<lparr>rl_redis_url = sa_rl_redis_url a, rl_window_secs = sa_rl_window_secs a\<rparr>,
            sc_quota_file = sa_quota_file a\<rparr>))"

section \<open>Startup\<close>

text \<open>What the files, the database and Redis answer.\<close>

record startup_env =
  se_now_ms :: nat
  se_load_routes :: "string \<Rightarrow> upstream_group list result"
  se_connect_db :: "database_config \<Rightarrow> unit result"
  se_db_groups :: "upstream_group list result"
  se_load_auth :: "string \<Rightarrow> (string \<times> api_key_lookup) list result"
  se_db_keys :: "(string \<times> api_key_lookup) list result"
  se_start_log :: "unit result"
  se_connect_redis :: "string \<Rightarrow> unit result"
  se_load_quotas :: "string \<Rightarrow> raw_api_key_quota list result"
  se_db_quotas :: "raw_api_key_quota list result"
  se_header_value :: "string \<Rightarrow> bool"          \<comment> \<open>whether a string parses as one\<close>
  se_debug :: "string \<Rightarrow> string"

datatype poller =
    RouteFilePoller string | RouteDbPoller | KeyFilePoller string | KeyDbPoller | QuotaFilePoller string | QuotaDbPoller

datatype key_source = RealtimeKeys | CachedKeys key_cache

datatype limiter_choice = RedisLimiter string u64 | MemoryLimiter mem_limiter

datatype cors = NoCors | AllowOrigins "string list"

text \<open>Routes: the registry, whether a database is connected, and the poller.\<close>

definition startup_routes ::
    "('g, 'b) server_config \<Rightarrow> startup_env \<Rightarrow> (registry \<times> bool \<times> poller list) result" where
  "startup_routes cfg E =
     (case sc_route_file cfg of
        Some config_path \<Rightarrow>
          (case se_load_routes E config_path of
             Inl e \<Rightarrow> Inl (''Failed to load config file: '' @ e)
           | Inr groups \<Rightarrow> Inr (reload_all (se_now_ms E) groups registry_new, False, [RouteFilePoller config_path]))
      | None \<Rightarrow>
          (case se_connect_db E (sc_database cfg) of
             Inl e \<Rightarrow> Inl (''Failed to connect to database: '' @ e)
           | Inr _ \<Rightarrow>
               (case se_db_groups E of
                  Inl e \<Rightarrow> Inl (''Failed to load upstream groups from database: '' @ e)
                | Inr groups \<Rightarrow>
                    Inr (if groups = [] then registry_new else reload_all (se_now_ms E) groups registry_new,
                         True, [RouteDbPoller]))))"

text \<open>Keys: the repository, whether a key is required, and the poller.\<close>

definition startup_auth ::
    "('g, 'b) server_config \<Rightarrow> startup_env \<Rightarrow> (key_source \<times> bool \<times> poller list) result" where
  "startup_auth cfg E =
     (if sc_no_auth cfg then Inr (CachedKeys cached_new, False, [])
      else
        (case sc_auth_file cfg of
           Some auth_path \<Rightarrow>
             (case se_load_auth E auth_path of
                Inl e \<Rightarrow> Inl (''Failed to load auth file: '' @ e)
              | Inr ks \<Rightarrow> Inr (CachedKeys (cached_reload ks cached_new), True, [KeyFilePoller auth_path]))
         | None \<Rightarrow>
             (if sc_route_file cfg \<noteq> None
              then Inl (''File config mode requires either --auth-file <path> or --no-auth. ''
                @ ''Pass --no-auth to run without API key authentication.'')
              else
                (case sc_auth_mode cfg of
                   Realtime \<Rightarrow> Inr (RealtimeKeys, True, [])
                 | Cached \<Rightarrow>
                     Inr (CachedKeys (case se_db_keys E of
                            Inr entries \<Rightarrow> cached_reload entries cached_new | Inl _ \<Rightarrow> cached_new),
                          True, [KeyDbPoller])))))"

definition startup_log :: "startup_env \<Rightarrow> bool \<Rightarrow> bool" where
  "startup_log E database = (database \<and> se_start_log E = Inr ())"

definition startup_limiter :: "('g, 'b) server_config \<Rightarrow> startup_env \<Rightarrow> limiter_choice option result" where
  "startup_limiter cfg E =
     (case sc_rate_limit cfg of
        None \<Rightarrow> Inr None
      | Some rl_cfg \<Rightarrow>
          (case rl_redis_url rl_cfg of
             Some redis_url \<Rightarrow>
               (case se_connect_redis E redis_url of
                  Inl e \<Rightarrow> Inl (''Failed to connect to Redis ('' @ redis_url @ ''): '' @ e)
                | Inr _ \<Rightarrow> Inr (Some (RedisLimiter redis_url (rl_window_secs rl_cfg))))
           | None \<Rightarrow> Inr (Some (MemoryLimiter (mem_limiter_new (rl_window_secs rl_cfg))))))"

definition startup_quota :: "('g, 'b) server_config \<Rightarrow> startup_env \<Rightarrow> bool \<Rightarrow> quota_store \<times> poller list" where
  "startup_quota cfg E database =
     (let load = (\<lambda>r. case r of Inr entries \<Rightarrow> quota_reload entries quota_store_new | Inl _ \<Rightarrow> quota_store_new)
      in case sc_quota_file cfg of
           Some quota_path \<Rightarrow> (load (se_load_quotas E quota_path), [QuotaFilePoller quota_path])
         | None \<Rightarrow> (if database then (load (se_db_quotas E), [QuotaDbPoller]) else (quota_store_new, [])))"

definition request_id_headers_of :: "('g, 'b) server_config \<Rightarrow> string list" where
  "request_id_headers_of cfg =
     or_default (sc_request_id_headers cfg) [''x-request-id'', ''x-correlation-id'', ''x-trace-id'', ''request-id'']"

definition cors_layer :: "startup_env \<Rightarrow> string list \<Rightarrow> cors result" where
  "cors_layer E origins =
     (if origins = [] then Inr NoCors
      else rbind (collect_results
             (\<lambda>s. if se_header_value E s then Inr s else Inl (''invalid CORS origin: '' @ se_debug E s)) origins)
             (\<lambda>l. Inr (AllowOrigins l)))"

record 'g started =
  sd_router :: "'g gateway_router"
  sd_registry :: registry
  sd_keys :: key_source
  sd_auth_required :: bool
  sd_log_to_database :: bool
  sd_limiter :: "limiter_choice option"
  sd_quotas :: quota_store
  sd_pollers :: "poller list"
  sd_request_id_headers :: "string list"
  sd_cors :: cors
  sd_tls :: "(string \<times> string) option"

definition startup ::
    "'g \<Rightarrow> 'g \<Rightarrow> ('g, 'b) server_config \<Rightarrow> startup_env \<Rightarrow> 'g started result" where
  "startup one_and_half one_fifth cfg E =
     rbind (startup_routes cfg E) (\<lambda>(r, database, p1).
     rbind (startup_auth cfg E) (\<lambda>(ks, auth_required, p2).
     rbind (startup_limiter cfg E) (\<lambda>limiter.
       (case startup_quota cfg E database of
          (quotas, p3) \<Rightarrow>
            rbind (cors_layer E (sc_cors_allowed_origins cfg)) (\<lambda>c.
              Inr \<lparr>sd_router = gateway_router_new one_and_half one_fifth (sc_router_config cfg), sd_registry = r,
                   sd_keys = ks, sd_auth_required = auth_required, sd_log_to_database = startup_log E database,
                   sd_limiter = limiter, sd_quotas = quotas, sd_pollers = p1 @ p2 @ p3,
                   sd_request_id_headers = request_id_headers_of cfg, sd_cors = c,
                   sd_tls = (case (server_cert (sc_router_config cfg), server_key (sc_router_config cfg)) of
                               (Some cert, Some key) \<Rightarrow> Some (cert, key) | _ \<Rightarrow> None)\<rparr>)))))"

text \<open>The state the handlers share; \<open>sql\<close> is the per-request query, \<open>L\<close> the operations of the limiter.\<close>

definition started_gateway ::
    "(string \<Rightarrow> string + api_key_lookup option) \<Rightarrow> 's limiter_ops \<Rightarrow> 'g started \<Rightarrow> ('s, 'g) gateway_state" where
  "started_gateway sql L sd =
     \<lparr>gs_router = sd_router sd,
      gs_api_key_repo = (case sd_keys sd of
         RealtimeKeys \<Rightarrow> sql | CachedKeys c \<Rightarrow> (\<lambda>h. Inr (cached_find_active_by_hash c h))),
      gs_auth_required = sd_auth_required sd,
      gs_rate_limiter = (if sd_limiter sd = None then None else Some L),
      gs_quota_store = sd_quotas sd\<rparr>"

end
