(* ===== verification/Startup_Spec.thy ===== *)
theory Startup_Spec
  imports Startup Server_Spec
begin

text \<open>
  What a started gateway guarantees about its configuration: no accidental open access, no silent
  fall-back of the limiter, and no database in file mode.
\<close>

lemma startup_Inr:
  assumes "startup x y cfg E = Inr sd"
  obtains r database p1 ks p2 limiter where
    "startup_routes cfg E = Inr (r, database, p1)" "startup_auth cfg E = Inr (ks, sd_auth_required sd, p2)"
    "startup_limiter cfg E = Inr (sd_limiter sd)"
    "sd_registry sd = r" "sd_keys sd = ks" "sd_log_to_database sd = startup_log E database"
proof -
  from assms obtain r database p1 where r: "startup_routes cfg E = Inr (r, database, p1)"
    by (auto simp: startup_def rbind_eq_Inr_iff)
  obtain quotas p3 where "startup_quota cfg E database = (quotas, p3)" by force
  with assms r that show ?thesis by (auto simp: startup_def rbind_eq_Inr_iff)
qed

lemma startup_auth_required:
  "startup_auth cfg E = Inr (ks, req, p) \<Longrightarrow>
     (req \<longleftrightarrow> \<not> sc_no_auth cfg) \<and> (req \<longrightarrow> sc_route_file cfg \<noteq> None \<longrightarrow> sc_auth_file cfg \<noteq> None)"
  by (auto simp: startup_auth_def split: if_splits option.splits sum.splits auth_mode.splits)

lemma startup_auth_keys:
  assumes "startup_auth cfg E = Inr (ks, True, p)"
  shows "case sc_auth_file cfg of
           Some path \<Rightarrow> (\<exists>entries. se_load_auth E path = Inr entries \<and> ks = CachedKeys (cached_reload entries cached_new))
         | None \<Rightarrow> (case sc_auth_mode cfg of
             Realtime \<Rightarrow> ks = RealtimeKeys
           | Cached \<Rightarrow> ks = CachedKeys (case se_db_keys E of Inr entries \<Rightarrow> cached_reload entries cached_new
                                       | Inl _ \<Rightarrow> cached_new))"
  using assms by (auto simp: startup_auth_def split: if_splits option.splits sum.splits auth_mode.splits)

lemma startup_routes_database:
  "startup_routes cfg E = Inr (r, database, p) \<Longrightarrow> database \<longleftrightarrow> sc_route_file cfg = None"
  by (auto simp: startup_routes_def split: option.splits sum.splits)

lemma startup_limiter_backend:
  assumes "startup_limiter cfg E = Inr limiter" "sc_rate_limit cfg = Some rl"
  shows "case rl_redis_url rl of
           Some url \<Rightarrow> se_connect_redis E url = Inr () \<and> limiter = Some (RedisLimiter url (rl_window_secs rl))
         | None \<Rightarrow> limiter = Some (MemoryLimiter (mem_limiter_new (rl_window_secs rl)))"
  using assms by (auto simp: startup_limiter_def split: option.splits sum.splits)

lemma serve_config_fields:
  assumes "serve_config env v read a = Inr cfg"
  shows "sc_no_auth cfg = sa_no_auth a" "sc_route_file cfg = sa_route_file a" "sc_auth_file cfg = sa_auth_file a"
    "sc_auth_mode cfg = auth_mode_of (sa_auth_mode a)"
    "sc_rate_limit cfg = Some \<lparr>rl_redis_url = sa_rl_redis_url a, rl_window_secs = sa_rl_window_secs a\<rparr>"
  using assms by (auto simp: serve_config_def rbind_eq_Inr_iff)

text \<open>
  C5. A gateway that starts from a command line requires keys unless \<open>--no-auth\<close> was given: without
  it a request that carries no known key has no effect but metrics, whatever the other options are,
  and a route file without a key file does not start.  The keys are those of the key file, or of the
  database, and none when the database could not be read.  A configured Redis limiter is used or
  startup fails, it is never replaced by the in-memory one; and in file mode nothing is logged to a
  database.
\<close>

theorem startup_guards:
  assumes "serve_config penv v read a = Inr cfg" "startup x y cfg E = Inr sd"
  shows "sd_auth_required sd = (\<not> sa_no_auth a)
       \<and> (if sa_no_auth a then True
          else (sa_route_file a = None \<or> sa_auth_file a \<noteq> None)
             \<and> (case sa_auth_file a of
                  Some path \<Rightarrow> (\<exists>entries. se_load_auth E path = Inr entries
                    \<and> sd_keys sd = CachedKeys (cached_reload entries cached_new))
                | None \<Rightarrow> (case auth_mode_of (sa_auth_mode a) of
                    Realtime \<Rightarrow> sd_keys sd = RealtimeKeys
                  | Cached \<Rightarrow> sd_keys sd = CachedKeys (case se_db_keys E of
                        Inr entries \<Rightarrow> cached_reload entries cached_new | Inl _ \<Rightarrow> cached_new)))
             \<and> (\<forall>sql L J H F reason sha names env hi w resp w'.
                  serve J H F reason sha names (started_gateway sql L sd) env hi w = (resp, w')
                  \<longrightarrow> \<not> key_known J sha (started_gateway sql L sd) (hi_headers hi) \<longrightarrow> untouched w w'))
       \<and> (case sa_rl_redis_url a of
            Some url \<Rightarrow> se_connect_redis E url = Inr () \<and> sd_limiter sd = Some (RedisLimiter url (sa_rl_window_secs a))
          | None \<Rightarrow> sd_limiter sd = Some (MemoryLimiter (mem_limiter_new (sa_rl_window_secs a))))
       \<and> (sd_log_to_database sd \<longrightarrow> sa_route_file a = None)"
proof -
  note fields = serve_config_fields [OF assms(1)]
  obtain r database p1 ks p2 limiter where s: "startup_routes cfg E = Inr (r, database, p1)"
    "startup_auth cfg E = Inr (ks, sd_auth_required sd, p2)" "startup_limiter cfg E = Inr (sd_limiter sd)"
    "sd_keys sd = ks" "sd_log_to_database sd = startup_log E database"
    using startup_Inr [OF assms(2)] by metis
  note req = startup_auth_required [OF s(2)]
  have guard: "untouched w w'"
    if "\<not> sa_no_auth a" "serve J H F reason sha names (started_gateway sql L sd) env hi w = (resp, w')"
      "\<not> key_known J sha (started_gateway sql L sd) (hi_headers hi)"
    for sql L J H F reason sha names env hi w resp w'
    using no_key_untouched(1) [OF that(2)] that(1,3) req fields by (simp add: started_gateway_def)
  have limiter: "case sa_rl_redis_url a of
            Some url \<Rightarrow> se_connect_redis E url = Inr () \<and> sd_limiter sd = Some (RedisLimiter url (sa_rl_window_secs a))
          | None \<Rightarrow> sd_limiter sd = Some (MemoryLimiter (mem_limiter_new (sa_rl_window_secs a)))"
    using startup_limiter_backend [OF s(3) fields(5)] by (simp split: option.splits)
  have log: "sd_log_to_database sd \<longrightarrow> sa_route_file a = None"
    using startup_routes_database [OF s(1)] s(5) fields(2) by (simp add: startup_log_def)
  show ?thesis
  proof (cases "sa_no_auth a")
    case True
    with req fields limiter log show ?thesis by simp
  next
    case False
    with req fields have "sd_auth_required sd" by simp
    with s(2,4) have keys: "startup_auth cfg E = Inr (sd_keys sd, True, p2)" by simp
    note source = startup_auth_keys [OF keys, unfolded fields]
    have files: "sa_route_file a = None \<or> sa_auth_file a \<noteq> None"
      using False req fields by auto
    show ?thesis
      unfolding if_not_P [OF False]
      by (intro conjI files source limiter log allI impI) (use False req fields in simp, rule guard [OF False])
  qed
qed

definition example_args :: "int serve_args" where
  "example_args =
     \<lparr>sa_host = ''h'', sa_port = 1, sa_log_dir = None, sa_log_level = ''info'', sa_json_log = False,
      sa_shutdown_grace_period_secs = 5, sa_upstream_sync_interval_secs = 30, sa_force_reload_interval_secs = 0,
      sa_max_payload_size = 9, sa_cors_allowed_origins = [], sa_request_id_headers = [], sa_enable_trace = False,
      sa_otlp_traces_endpoint = '''', sa_db_max_connections = 1, sa_db_min_connections = 1,
      sa_db_acquire_timeout_secs = 1, sa_database_url = '''', sa_prometheus_host = '''', sa_prometheus_port = 2,
      sa_request_timeout_secs = 30, sa_tls_cert_path = None, sa_tls_key_path = None, sa_retry_max_retries = 5,
      sa_retry_initial_backoff_ms = 50, sa_retry_max_backoff_ms = 9, sa_retry_backoff_multiplier = 2,
      sa_retry_jitter_factor = 0, sa_auth_mode = ''cached'', sa_log_request_body = False,
      sa_no_inject_stream_usage = False, sa_route_file = Some ''r'', sa_auth_file = Some ''k'', sa_no_auth = False,
      sa_quota_file = None, sa_rl_window_secs = 60, sa_rl_redis_url = None\<rparr>"

definition example_startup_env :: startup_env where
  "example_startup_env =
     \<lparr>se_now_ms = 7, se_load_routes = (\<lambda>_. Inr []), se_connect_db = (\<lambda>_. Inl ''no''), se_db_groups = Inl ''no'',
      se_load_auth = (\<lambda>_. Inr []), se_db_keys = Inl ''no'', se_start_log = Inl ''no'', se_connect_redis = (\<lambda>_. Inl ''no''),
      se_load_quotas = (\<lambda>_. Inl ''no''), se_db_quotas = Inl ''no'', se_header_value = (\<lambda>_. True), se_debug = dquoted\<rparr>"

lemma startup_guards_witness:
  "case serve_config Map.empty ''1'' (\<lambda>_. Inl '''') example_args of
     Inl _ \<Rightarrow> False
   | Inr cfg \<Rightarrow>
       (case startup 1 0 (cfg :: (int, int) server_config) example_startup_env of
          Inl _ \<Rightarrow> False
        | Inr sd \<Rightarrow> sd_auth_required sd
            \<and> sd_limiter sd = Some (MemoryLimiter (mem_limiter_new 60)))"
proof -
  obtain cfg :: "(int, int) server_config" where cfg:
    "serve_config Map.empty ''1'' (\<lambda>_. Inl '''') example_args = Inr cfg"
    by (simp add: serve_config_def read_pem_def example_args_def)
  note fields = serve_config_fields [OF cfg]
  have cors: "sc_cors_allowed_origins cfg = []" "sc_quota_file cfg = None"
    using cfg by (auto simp: serve_config_def read_pem_def example_args_def)
  obtain sd where sd: "startup 1 0 cfg example_startup_env = Inr sd"
    by (simp add: startup_def startup_routes_def startup_auth_def startup_limiter_def startup_quota_def cors_layer_def
        fields cors example_args_def example_startup_env_def)
  note all = startup_guards [OF cfg sd]
  from all [THEN conjunct1] have "sd_auth_required sd" by (simp add: example_args_def)
  moreover from all [THEN conjunct2, THEN conjunct2, THEN conjunct1]
  have "sd_limiter sd = Some (MemoryLimiter (mem_limiter_new 60))" by (simp add: example_args_def)
  ultimately show ?thesis unfolding cfg sd sum.case by (intro conjI)
qed

end
