(* ===== verification/Telemetry.thy ===== *)
theory Telemetry
  imports Startup Complex_Main
begin

text \<open>
  What a process sets up around the gateway: OpenTelemetry tracing
  (\<^verbatim>\<open>core/src/observability/otel_trace.rs\<close>), logging
  (\<^verbatim>\<open>core/src/observability/logging.rs\<close>), the Prometheus exporter
  (\<^verbatim>\<open>core/src/observability/metrics.rs\<close>), the HTTP client
  (\<^verbatim>\<open>core/src/app_context.rs\<close>), and the order in which \<open>startup\<close> runs them
  (\<^verbatim>\<open>server/src/server.rs\<close>).  The statics of the code are the state; what the libraries
  answer when something is built is an argument.
\<close>

section \<open>OpenTelemetry\<close>

definition ALLOWED_OTEL_TARGET_PREFIXES :: "string list" where
  "ALLOWED_OTEL_TARGET_PREFIXES = [''modelpointer::otel-trace'', ''modelpointer::observability::otel_trace'']"

definition is_allowed :: "string \<Rightarrow> bool" where
  "is_allowed target = list_ex (\<lambda>prefix. starts_with prefix target) ALLOWED_OTEL_TARGET_PREFIXES"

text \<open>\<open>CustomOtelFilter\<close>: the answer for one event and the answer cached for a call site.\<close>

datatype interest = Always | Never

definition otel_filter_enabled :: "string \<Rightarrow> bool" where
  "otel_filter_enabled target = is_allowed target"

definition callsite_enabled :: "string \<Rightarrow> interest" where
  "callsite_enabled target = (if is_allowed target then Always else Never)"

record tracer_provider =
  tp_endpoint :: string
  tp_scheduled_delay_ms :: nat
  tp_max_export_batch_size :: nat
  tp_max_queue_size :: nat
  tp_resource :: "(string \<times> string) list"

text \<open>\<open>ENABLED\<close>, the two \<open>OnceLock\<close>s, and what the \<open>global\<close> module of the library holds.\<close>

record otel =
  otel_enabled :: bool
  otel_provider :: "tracer_provider option"
  otel_tracer :: "(string \<times> tracer_provider) option"
  otel_propagator :: bool
  otel_global :: "tracer_provider option"

definition otel_new :: otel where
  "otel_new = \<lparr>otel_enabled = False, otel_provider = None, otel_tracer = None, otel_propagator = False,
     otel_global = None\<rparr>"

text \<open>What building the HTTP client and the exporter answers, and the host's name.\<close>

record otel_env =
  oe_client :: "unit result"
  oe_exporter :: "string \<Rightarrow> unit result"
  oe_hostname :: "string option"

definition otel_endpoint :: "string \<Rightarrow> string" where
  "otel_endpoint e =
     (if \<not> starts_with ''http://'' e \<and> \<not> starts_with ''https://'' e then ''http://'' @ e else e)"

definition provider_build :: "otel_env \<Rightarrow> string \<Rightarrow> string \<Rightarrow> string \<Rightarrow> tracer_provider" where
  "provider_build oe endpoint senv version =
     \<lparr>tp_endpoint = endpoint, tp_scheduled_delay_ms = 1000, tp_max_export_batch_size = 512,
      tp_max_queue_size = 8192,
      tp_resource = [(''service.name'', ''modelpointer''), (''service.version'', version),
        (''deployment.environment'', senv),
        (''host.name'', case oe_hostname oe of Some h \<Rightarrow> h | None \<Rightarrow> ''unknown'')]\<rparr>"

definition otel_tracing_init ::
    "otel_env \<Rightarrow> bool \<Rightarrow> string \<Rightarrow> string \<Rightarrow> string \<Rightarrow> otel \<Rightarrow> unit result \<times> otel" where
  "otel_tracing_init oe enable endpoint senv version t =
     (if \<not> enable then (Inr (), t\<lparr>otel_enabled := False\<rparr>)
      else
        (let url = otel_endpoint endpoint; t1 = t\<lparr>otel_propagator := True\<rparr>
         in case oe_client oe of
              Inl e \<Rightarrow> (Inl (''Failed to create HTTP client for OTLP exporter: '' @ e), t1)
            | Inr _ \<Rightarrow>
                (case oe_exporter oe url of
                   Inl e \<Rightarrow> (Inl (''Failed to create OTLP exporter: '' @ e), t1)
                 | Inr _ \<Rightarrow>
                     (let provider = provider_build oe url senv version
                      in if otel_provider t1 \<noteq> None then (Inl ''Provider already initialized'', t1)
                         else
                           (let t2 = t1\<lparr>otel_provider := Some provider\<rparr>
                            in if otel_tracer t2 \<noteq> None then (Inl ''Tracer already initialized'', t2)
                               else (Inr (), t2\<lparr>otel_tracer := Some (''modelpointer'', provider),
                                       otel_global := Some provider, otel_enabled := True\<rparr>))))))"

definition is_otel_enabled :: "otel \<Rightarrow> bool" where
  "is_otel_enabled t = otel_enabled t"

definition get_otel_layer :: "otel \<Rightarrow> (string \<times> tracer_provider) result" where
  "get_otel_layer t =
     (if \<not> is_otel_enabled t then Inl ''OpenTelemetry is not enabled''
      else case otel_tracer t of
             None \<Rightarrow> Inl ''Tracer not initialized. Call otel_tracing_init first.''
           | Some tracer \<Rightarrow> Inr tracer)"

text \<open>\<open>join\<close> is how the blocking task that flushes the provider ends.\<close>

definition flush_spans_async :: "(tracer_provider \<Rightarrow> unit result) \<Rightarrow> otel \<Rightarrow> unit result" where
  "flush_spans_async join t =
     (if \<not> is_otel_enabled t then Inr ()
      else case otel_provider t of
             None \<Rightarrow> Inl ''Provider not initialized''
           | Some provider \<Rightarrow>
               (case join provider of
                  Inl e \<Rightarrow> Inl (''Failed to flush spans: '' @ e)
                | Inr _ \<Rightarrow> Inr ()))"

definition shutdown_otel :: "otel \<Rightarrow> otel" where
  "shutdown_otel t = (if otel_enabled t then t\<lparr>otel_global := None, otel_enabled := False\<rparr> else t)"

text \<open>
  \<open>context\<close> lists the pairs the propagator injects for the current span; a pair whose name or value is
  not a header is left out.
\<close>

definition inject_header ::
    "'j lib \<Rightarrow> (string \<Rightarrow> string option) \<Rightarrow> string \<times> string \<Rightarrow> headers \<Rightarrow> headers" where
  "inject_header J name_from_bytes kv headers =
     (case kv of (key, v) \<Rightarrow>
        (case name_from_bytes key of
           None \<Rightarrow> headers
         | Some name \<Rightarrow>
             (case hv_from_str J v of None \<Rightarrow> headers | Some hv \<Rightarrow> header_insert name hv headers)))"

definition inject_trace_context_http ::
    "'j lib \<Rightarrow> (string \<Rightarrow> string option) \<Rightarrow> (string \<times> string) list \<Rightarrow> otel \<Rightarrow> headers \<Rightarrow> headers" where
  "inject_trace_context_http J name_from_bytes context t headers =
     (if \<not> is_otel_enabled t then headers else fold (inject_header J name_from_bytes) context headers)"

section \<open>Logging\<close>

datatype level = TraceLevel | DebugLevel | InfoLevel | WarnLevel | ErrorLevel

record logging_config =
  lc_level :: level
  lc_json_format :: bool
  lc_log_dir :: "string option"
  lc_colorize :: bool
  lc_log_file_name :: string
  lc_log_targets :: "string list option"

definition DEFAULT_LOG_TARGET :: string where
  "DEFAULT_LOG_TARGET = ''modelpointer''"

definition default_logging_config :: logging_config where
  "default_logging_config =
     \<lparr>lc_level = InfoLevel, lc_json_format = False, lc_log_dir = None, lc_colorize = True,
      lc_log_file_name = ''modelpointer'', lc_log_targets = Some [DEFAULT_LOG_TARGET]\<rparr>"

fun level_to_str :: "level \<Rightarrow> string" where
  "level_to_str TraceLevel = ''trace''"
| "level_to_str DebugLevel = ''debug''"
| "level_to_str InfoLevel = ''info''"
| "level_to_str WarnLevel = ''warn''"
| "level_to_str ErrorLevel = ''error''"

text \<open>The capacity that \<open>build_filter_string\<close> reserves, and the string it builds.\<close>

definition filter_capacity :: "string list \<Rightarrow> string \<Rightarrow> nat" where
  "filter_capacity targets level_filter =
     sum_list (map length targets) + length targets * (1 + length level_filter) + (length targets - 1)"

fun push_directives :: "nat \<Rightarrow> string list \<Rightarrow> string \<Rightarrow> string \<Rightarrow> string" where
  "push_directives i [] level_filter acc = acc"
| "push_directives i (target # targets) level_filter acc =
     push_directives (Suc i) targets level_filter
       ((if 0 < i then acc @ '','' else acc) @ target @ ''='' @ level_filter)"

definition build_filter_string :: "string list \<Rightarrow> string \<Rightarrow> string" where
  "build_filter_string targets level_filter = push_directives 0 targets level_filter ''''"

text \<open>Output layers: to standard output, to a daily file, to OpenTelemetry.\<close>

datatype log_layer =
    StdoutLayer bool bool                  \<comment> \<open>colours, JSON\<close>
  | FileLayer string string bool           \<comment> \<open>directory, file name, JSON\<close>
  | OtelLayer "string \<times> tracer_provider"

text \<open>
  The process-wide subscriber is set once: its filter directives and layers.  \<open>stderr\<close> lists what
  \<open>init_logging\<close> printed there.
\<close>

record logging =
  log_tracer :: bool
  subscriber :: "(string \<times> log_layer list) option"
  stderr :: "string list"
  logging_initialized :: bool

definition logging_new :: logging where
  "logging_new = \<lparr>log_tracer = False, subscriber = None, stderr = [], logging_initialized = False\<rparr>"

text \<open>\<open>RUST_LOG\<close> when it holds valid directives, which paths exist, and creating a directory.\<close>

record logging_env =
  le_rust_log :: "string option"
  le_exists :: "string \<Rightarrow> bool"
  le_create_dir :: "string \<Rightarrow> unit result"

definition env_filter :: "logging_env \<Rightarrow> logging_config \<Rightarrow> string" where
  "env_filter le c =
     (case le_rust_log le of
        Some directives \<Rightarrow> directives
      | None \<Rightarrow>
          (case lc_log_targets c of
             Some (t # ts) \<Rightarrow> build_filter_string (t # ts) (level_to_str (lc_level c))
           | _ \<Rightarrow> build_filter_string [DEFAULT_LOG_TARGET] (level_to_str (lc_level c))))"

definition otel_layers :: "trace_config option \<Rightarrow> otel \<Rightarrow> log_layer list \<times> string list" where
  "otel_layers otel_config t =
     (case otel_config of
        None \<Rightarrow> ([], [])
      | Some oc \<Rightarrow>
          (if enable_trace oc
           then (case get_otel_layer t of
                   Inr tracer \<Rightarrow> ([OtelLayer tracer], [])
                 | Inl e \<Rightarrow> ([], [''Failed to initialize OpenTelemetry: '' @ e]))
           else ([], [])))"

definition try_init :: "string \<Rightarrow> log_layer list \<Rightarrow> logging \<Rightarrow> logging" where
  "try_init directives layers g =
     (if subscriber g = None then g\<lparr>subscriber := Some (directives, layers)\<rparr> else g)"

text \<open>
  The result says whether the guard holds a file writer.  Opening the daily file is the appender's part
  and taken to succeed.
\<close>

definition init_logging ::
    "logging_env \<Rightarrow> logging_config \<Rightarrow> trace_config option \<Rightarrow> otel \<Rightarrow> logging \<Rightarrow> bool \<times> logging" where
  "init_logging le c otel_config t g =
     (let g1 = g\<lparr>log_tracer := True\<rparr>;
          directives = env_filter le c;
          stdout_layer = StdoutLayer (lc_colorize c) (lc_json_format c);
          finish = (\<lambda>layers.
            case otel_layers otel_config t of (added, errs) \<Rightarrow>
              try_init directives (layers @ added) (g1\<lparr>stderr := stderr g1 @ errs\<rparr>))
      in case lc_log_dir c of
           None \<Rightarrow> (False, finish [stdout_layer])
         | Some log_dir \<Rightarrow>
             (case (if le_exists le log_dir then Inr () else le_create_dir le log_dir) of
                Inl e \<Rightarrow> (False, g1\<lparr>stderr := stderr g1 @ [''Failed to create log directory: '' @ e]\<rparr>)
              | Inr _ \<Rightarrow>
                  (True, finish [stdout_layer, FileLayer log_dir (lc_log_file_name c) (lc_json_format c)])))"

section \<open>Metrics exporter\<close>

datatype metric_kind = Counter | Gauge | Histogram

definition init_metrics :: "(metric_kind \<times> string \<times> string) list" where
  "init_metrics =
     [(Counter, ''modelpointer_http_requests_total'', ''Total HTTP requests by method and path''),
      (Counter, ''modelpointer_http_responses_total'', ''Total HTTP responses by status_code and error_code''),
      (Counter, ''modelpointer_gateway_requests_total'', ''Total gateway requests by model, endpoint, streaming''),
      (Histogram, ''modelpointer_gateway_duration_seconds'',
        ''End-to-end gateway request duration by model and endpoint (includes retries)''),
      (Counter, ''modelpointer_gateway_errors_total'', ''Gateway errors by model, endpoint, error_type''),
      (Counter, ''modelpointer_upstream_requests_total'',
        ''Per-attempt upstream requests by model, provider, status_code''),
      (Histogram, ''modelpointer_upstream_duration_seconds'',
        ''Per-attempt upstream call duration by model and provider''),
      (Histogram, ''modelpointer_upstream_ttft_seconds'',
        ''Time to first token for streaming requests by model and provider''),
      (Counter, ''modelpointer_retry_attempts_total'',
        ''Retry attempts by model, endpoint, status_code that triggered the retry''),
      (Counter, ''modelpointer_retry_exhausted_total'',
        ''Requests that exhausted all retry attempts by model and endpoint''),
      (Gauge, ''modelpointer_worker_cb_state'', ''Circuit breaker state per worker (0=closed, 1=open, 2=half_open)''),
      (Counter, ''modelpointer_worker_cb_transitions_total'', ''Circuit breaker state transitions by worker, from, to''),
      (Gauge, ''modelpointer_worker_cb_consecutive_failures'', ''Current consecutive failure count per worker''),
      (Gauge, ''modelpointer_worker_cb_consecutive_successes'', ''Current consecutive success count per worker''),
      (Gauge, ''modelpointer_worker_pool_total'', ''Total registered workers by model''),
      (Gauge, ''modelpointer_worker_available_total'', ''Available workers (circuit not open) by model''),
      (Histogram, ''modelpointer_upstream_tpot_ms'',
        ''Time per output token for streaming requests (ms/token) by model and provider'')]"

text \<open>
  The exporter: its address, the metrics described, and the buckets of the histograms by the suffix of
  their names.  \<open>lit\<close> reads a decimal literal.
\<close>

record ('ip, 'b) exporter =
  ex_address :: "'ip \<times> u16"
  ex_upkeep_secs :: nat
  ex_described :: "(metric_kind \<times> string \<times> string) list"
  ex_buckets :: "(string \<times> 'b list) list"

definition duration_bucket :: "(rat \<Rightarrow> 'b) \<Rightarrow> 'b prometheus_config \<Rightarrow> 'b list" where
  "duration_bucket lit c =
     (case prom_duration_buckets c of
        Some bs \<Rightarrow> bs
      | None \<Rightarrow> map lit [1 / 10, 5 / 10, 1, 25 / 10, 5, 10, 15, 30, 60, 120, 180, 240])"

definition ttft_bucket :: "(rat \<Rightarrow> 'b) \<Rightarrow> 'b prometheus_config \<Rightarrow> 'b list" where
  "ttft_bucket lit c =
     (case prom_ttft_buckets c of Some bs \<Rightarrow> bs | None \<Rightarrow> map lit [5 / 10, 1, 2, 3, 4, 5])"

definition tpot_bucket :: "(rat \<Rightarrow> 'b) \<Rightarrow> 'b list" where
  "tpot_bucket lit = map lit [5, 10, 20, 30, 50, 75, 100, 150, 200]"

text \<open>\<open>set_buckets\<close> and \<open>install\<close> are the builder's answers; an \<open>expect\<close> that fails is the left value.\<close>

definition start_prometheus ::
    "(rat \<Rightarrow> 'b) \<Rightarrow> (string \<Rightarrow> 'ip option) \<Rightarrow> 'ip \<Rightarrow> (string \<Rightarrow> 'b list \<Rightarrow> unit result)
       \<Rightarrow> (('ip, 'b) exporter \<Rightarrow> unit result) \<Rightarrow> 'b prometheus_config \<Rightarrow> ('ip, 'b) exporter result" where
  "start_prometheus lit parse_ip unspecified set_buckets install c =
     (let ip_addr = (case parse_ip (prom_host c) of Some ip \<Rightarrow> ip | None \<Rightarrow> unspecified);
          duration = (''duration_seconds'', duration_bucket lit c);
          ttft = (''ttft_seconds'', ttft_bucket lit c);
          tpot = (''tpot_ms'', tpot_bucket lit);
          ex = \<lparr>ex_address = (ip_addr, prom_port c), ex_upkeep_secs = 5 * 60,
                ex_described = init_metrics, ex_buckets = [duration, ttft, tpot]\<rparr>
      in case set_buckets (fst duration) (snd duration) of
           Inl e \<Rightarrow> Inl (''failed to set duration bucket: '' @ e)
         | Inr _ \<Rightarrow>
             (case set_buckets (fst ttft) (snd ttft) of
                Inl e \<Rightarrow> Inl (''failed to set ttft bucket: '' @ e)
              | Inr _ \<Rightarrow>
                  (case set_buckets (fst tpot) (snd tpot) of
                     Inl e \<Rightarrow> Inl (''failed to set tpot bucket: '' @ e)
                   | Inr _ \<Rightarrow>
                       (case install ex of
                          Inl e \<Rightarrow> Inl (''failed to install Prometheus metrics exporter: '' @ e)
                        | Inr _ \<Rightarrow> Inr ex))))"

text \<open>The breaker's metrics reach the recorder through these.\<close>

definition set_worker_cb_state :: "string \<Rightarrow> u8 \<Rightarrow> metrics \<Rightarrow> metrics" where
  "set_worker_cb_state worker state_code m =
     (case intern_string worker m of (w, m1) \<Rightarrow>
        emit_metric (GaugeSet ''modelpointer_worker_cb_state'' [(''worker'', w)] (Num (uint state_code))) m1)"

definition record_worker_cb_transition :: "string \<Rightarrow> string \<Rightarrow> string \<Rightarrow> metrics \<Rightarrow> metrics" where
  "record_worker_cb_transition worker old new m =
     (case intern_string worker m of (w, m1) \<Rightarrow>
        emit_metric (CounterInc ''modelpointer_worker_cb_transitions_total''
          [(''worker'', w), (''from'', old), (''to'', new)]) m1)"

definition set_worker_cb_consecutive_failures :: "string \<Rightarrow> u32 \<Rightarrow> metrics \<Rightarrow> metrics" where
  "set_worker_cb_consecutive_failures worker count m =
     (case intern_string worker m of (w, m1) \<Rightarrow>
        emit_metric (GaugeSet ''modelpointer_worker_cb_consecutive_failures'' [(''worker'', w)] (Num (uint count))) m1)"

definition set_worker_cb_consecutive_successes :: "string \<Rightarrow> u32 \<Rightarrow> metrics \<Rightarrow> metrics" where
  "set_worker_cb_consecutive_successes worker count m =
     (case intern_string worker m of (w, m1) \<Rightarrow>
        emit_metric (GaugeSet ''modelpointer_worker_cb_consecutive_successes'' [(''worker'', w)] (Num (uint count))) m1)"

fun publish_breaker_metric :: "breaker_metric \<Rightarrow> metrics \<Rightarrow> metrics" where
  "publish_breaker_metric (CbState w s) m = set_worker_cb_state w s m"
| "publish_breaker_metric (CbTransition w old new) m = record_worker_cb_transition w old new m"
| "publish_breaker_metric (CbFailures w n) m = set_worker_cb_consecutive_failures w n m"
| "publish_breaker_metric (CbSuccesses w n) m = set_worker_cb_consecutive_successes w n m"

section \<open>HTTP client\<close>

record ('i, 'c) client_settings =
  cl_pool_idle_timeout_secs :: nat
  cl_pool_max_idle_per_host :: nat
  cl_timeout_secs :: u64
  cl_connect_timeout_secs :: nat
  cl_tcp_nodelay :: bool
  cl_tcp_keepalive_secs :: nat
  cl_rustls :: bool
  cl_identity :: "'i option"
  cl_roots :: "'c list"

definition client_builder :: "u64 \<Rightarrow> ('i, 'c) client_settings" where
  "client_builder timeout =
     \<lparr>cl_pool_idle_timeout_secs = 50, cl_pool_max_idle_per_host = 500, cl_timeout_secs = timeout,
      cl_connect_timeout_secs = 10, cl_tcp_nodelay = True, cl_tcp_keepalive_secs = 30, cl_rustls = False,
      cl_identity = None, cl_roots = []\<rparr>"

definition add_identity ::
    "(string \<Rightarrow> 'i result) \<Rightarrow> string option \<Rightarrow> ('i, 'c) client_settings \<Rightarrow> ('i, 'c) client_settings result" where
  "add_identity from_pem identity_pem b =
     (case identity_pem of
        None \<Rightarrow> Inr b
      | Some pem \<Rightarrow>
          (case from_pem pem of
             Inl e \<Rightarrow> Inl (''Failed to create client identity: '' @ e)
           | Inr identity \<Rightarrow> Inr (b\<lparr>cl_identity := Some identity\<rparr>)))"

fun add_ca_certificates ::
    "(string \<Rightarrow> 'c result) \<Rightarrow> string list \<Rightarrow> ('i, 'c) client_settings \<Rightarrow> ('i, 'c) client_settings result" where
  "add_ca_certificates from_pem [] b = Inr b"
| "add_ca_certificates from_pem (pem # pems) b =
     (case from_pem pem of
        Inl e \<Rightarrow> Inl (''Failed to add CA certificate: '' @ e)
      | Inr cert \<Rightarrow> add_ca_certificates from_pem pems (b\<lparr>cl_roots := cl_roots b @ [cert]\<rparr>))"

text \<open>The parsers of PEM data and \<open>build\<close> belong to the client library.\<close>

definition build_http_client ::
    "(string \<Rightarrow> 'i result) \<Rightarrow> (string \<Rightarrow> 'c result) \<Rightarrow> (('i, 'c) client_settings \<Rightarrow> 'client result)
       \<Rightarrow> 'g router_config \<Rightarrow> 'client result" where
  "build_http_client identity_pem cert_pem build c =
     (let has_tls_config = (client_identity c \<noteq> None \<or> ca_certificates c \<noteq> []);
          b0 = client_builder (request_timeout_secs c);
          b1 = (if has_tls_config then b0\<lparr>cl_rustls := True\<rparr> else b0)
      in rbind (add_identity identity_pem (client_identity c) b1)
           (\<lambda>b2. rbind (add_ca_certificates cert_pem (ca_certificates c) b2)
             (\<lambda>b3. case build b3 of
                Inl e \<Rightarrow> Inl (''Failed to create HTTP client: '' @ e)
              | Inr client \<Rightarrow> Inr client)))"

record ('client, 'g) app_context =
  ac_client :: 'client
  ac_router_config :: "'g router_config"
  ac_upstream_registry :: registry

definition app_context_with_config ::
    "(string \<Rightarrow> 'i result) \<Rightarrow> (string \<Rightarrow> 'c result) \<Rightarrow> (('i, 'c) client_settings \<Rightarrow> 'client result)
       \<Rightarrow> 'g router_config \<Rightarrow> ('client, 'g) app_context result" where
  "app_context_with_config identity_pem cert_pem build c =
     rbind (build_http_client identity_pem cert_pem build c)
       (\<lambda>client. Inr \<lparr>ac_client = client, ac_router_config = c, ac_upstream_registry = registry_new\<rparr>)"

section \<open>The start of the process\<close>

text \<open>
  \<open>parse_level\<close> reads a level from the upper-cased option.  A second start in the same process keeps
  the logging it finds.
\<close>

definition startup_level :: "(string \<Rightarrow> level option) \<Rightarrow> ('g, 'b) server_config \<Rightarrow> level" where
  "startup_level parse_level cfg =
     (case sc_log_level cfg of
        None \<Rightarrow> InfoLevel
      | Some s \<Rightarrow> (case parse_level s of Some l \<Rightarrow> l | None \<Rightarrow> InfoLevel))"

definition startup_logging_config :: "(string \<Rightarrow> level option) \<Rightarrow> ('g, 'b) server_config \<Rightarrow> logging_config" where
  "startup_logging_config parse_level cfg =
     \<lparr>lc_level = startup_level parse_level cfg, lc_json_format = sc_json_log cfg, lc_log_dir = sc_log_dir cfg,
      lc_colorize = True, lc_log_file_name = ''modelpointer'', lc_log_targets = None\<rparr>"

definition startup_tracing :: "otel_env \<Rightarrow> ('g, 'b) server_config \<Rightarrow> otel \<Rightarrow> unit result \<times> otel" where
  "startup_tracing oe cfg t =
     (case sc_trace_config cfg of
        None \<Rightarrow> (Inr (), t)
      | Some tc \<Rightarrow>
          otel_tracing_init oe (enable_trace tc) (otlp_traces_endpoint tc) (service_env tc) (service_version tc) t)"

definition startup_telemetry ::
    "otel_env \<Rightarrow> logging_env \<Rightarrow> (string \<Rightarrow> level option) \<Rightarrow> ('g, 'b) server_config \<Rightarrow> otel \<times> logging
       \<Rightarrow> unit result \<times> otel \<times> logging" where
  "startup_telemetry oe le parse_level cfg s =
     (case s of (t, g) \<Rightarrow>
        (case startup_tracing oe cfg t of
           (Inl e, t1) \<Rightarrow> (Inl e, t1, g)
         | (Inr _, t1) \<Rightarrow>
             (if \<not> logging_initialized g
              then (Inr (), t1, snd (init_logging le (startup_logging_config parse_level cfg) (sc_trace_config cfg) t1
                      (g\<lparr>logging_initialized := True\<rparr>)))
              else (Inr (), t1, g))))"

text \<open>After the server has returned, \<open>run_server\<close> shuts tracing down.\<close>

definition main_exit :: "otel \<Rightarrow> otel" where
  "main_exit t = (if is_otel_enabled t then shutdown_otel t else t)"

section \<open>What is recorded is described\<close>

fun event_described :: "metric_event \<Rightarrow> bool" where
  "event_described (CounterInc name _) = list_ex (\<lambda>(k, n, _). k = Counter \<and> n = name) init_metrics"
| "event_described (GaugeSet name _ _) = list_ex (\<lambda>(k, n, _). k = Gauge \<and> n = name) init_metrics"
| "event_described (HistogramRecord name _ _) = list_ex (\<lambda>(k, n, _). k = Histogram \<and> n = name) init_metrics"

definition adds_described :: "metrics \<Rightarrow> metrics \<Rightarrow> bool" where
  "adds_described m m' \<longleftrightarrow> (\<exists>es. metric_log m' = metric_log m @ es \<and> list_all event_described es)"

lemma described_names [simp]:
  "event_described (CounterInc ''modelpointer_http_requests_total'' ls)"
  "event_described (CounterInc ''modelpointer_http_responses_total'' ls)"
  "event_described (CounterInc ''modelpointer_gateway_requests_total'' ls)"
  "event_described (CounterInc ''modelpointer_gateway_errors_total'' ls)"
  "event_described (CounterInc ''modelpointer_upstream_requests_total'' ls)"
  "event_described (CounterInc ''modelpointer_retry_attempts_total'' ls)"
  "event_described (CounterInc ''modelpointer_retry_exhausted_total'' ls)"
  "event_described (CounterInc ''modelpointer_worker_cb_transitions_total'' ls)"
  "event_described (GaugeSet ''modelpointer_worker_cb_state'' ls v)"
  "event_described (GaugeSet ''modelpointer_worker_cb_consecutive_failures'' ls v)"
  "event_described (GaugeSet ''modelpointer_worker_cb_consecutive_successes'' ls v)"
  "event_described (GaugeSet ''modelpointer_worker_pool_total'' ls v)"
  "event_described (GaugeSet ''modelpointer_worker_available_total'' ls v)"
  "event_described (HistogramRecord ''modelpointer_gateway_duration_seconds'' ls v)"
  "event_described (HistogramRecord ''modelpointer_upstream_duration_seconds'' ls v)"
  "event_described (HistogramRecord ''modelpointer_upstream_ttft_seconds'' ls v)"
  "event_described (HistogramRecord ''modelpointer_upstream_tpot_ms'' ls v)"
  by (simp_all add: init_metrics_def)

declare event_described.simps [simp del]

lemma adds_described_intern:
  assumes "metric_log m0 = metric_log m"
    and "\<And>s' m1. metric_log m1 = metric_log m \<Longrightarrow> adds_described m (f s' m1)"
  shows "adds_described m (case intern_string s m0 of (s', m1) \<Rightarrow> f s' m1)"
proof -
  have "metric_log (snd (intern_string s m0)) = metric_log m"
    using assms(1) by (simp add: intern_string_def Let_def)
  then show ?thesis using assms(2) by (cases "intern_string s m0") auto
qed

lemma adds_described_emit:
  "metric_log m1 = metric_log m \<Longrightarrow> event_described e \<Longrightarrow> adds_described m (emit_metric e m1)"
  by (simp add: adds_described_def emit_metric_def)

lemma adds_described_more:
  "adds_described m m1 \<Longrightarrow> event_described e \<Longrightarrow> adds_described m (emit_metric e m1)"
  by (auto simp: adds_described_def emit_metric_def)

text \<open>Every record function adds events of metrics that \<open>init_metrics\<close> describes, of the kind it describes.\<close>

lemma recorded_metrics_described:
  "adds_described m (record_http_request a b m)" "adds_described m (record_http_response n b m)"
  "adds_described m (record_gateway_request a b c m)" "adds_described m (record_gateway_duration a b n m)"
  "adds_described m (record_gateway_error a b c m)" "adds_described m (record_upstream_request a b n m)"
  "adds_described m (record_upstream_duration a b n m)" "adds_described m (record_upstream_ttft a b n m)"
  "adds_described m (record_retry_attempt a b n m)" "adds_described m (record_retry_exhausted a b m)"
  "adds_described m (record_tpot a b v m)" "adds_described m (set_worker_pool_total a n m)"
  "adds_described m (set_worker_available_total a n m)" "adds_described m (set_worker_cb_state a s m)"
  "adds_described m (record_worker_cb_transition a b c m)"
  "adds_described m (set_worker_cb_consecutive_failures a k m)"
  "adds_described m (set_worker_cb_consecutive_successes a k m)"
  unfolding record_http_request_def record_http_response_def record_gateway_request_def
    record_gateway_duration_def record_gateway_error_def record_upstream_request_def
    record_upstream_duration_def record_upstream_ttft_def record_retry_attempt_def
    record_retry_exhausted_def record_tpot_def set_worker_pool_total_def set_worker_available_total_def
    set_worker_cb_state_def record_worker_cb_transition_def set_worker_cb_consecutive_failures_def
    set_worker_cb_consecutive_successes_def
  by (intro adds_described_intern adds_described_emit refl described_names; assumption)+

lemma removed_metrics_described: "adds_described m (remove_worker_metrics a m)"
  unfolding remove_worker_metrics_def Let_def
  by (intro adds_described_intern adds_described_more adds_described_emit refl described_names; assumption)

lemma published_metrics_described: "adds_described m (publish_breaker_metric bm m)"
  by (cases bm) (simp_all add: recorded_metrics_described)

text \<open>Each histogram gets the buckets of exactly one suffix.\<close>

definition histogram_names :: "string list" where
  "histogram_names = map (fst \<circ> snd) (filter (\<lambda>(k, n, d). k = Histogram) init_metrics)"

definition bucket_suffixes :: "string list" where
  "bucket_suffixes = [''duration_seconds'', ''ttft_seconds'', ''tpot_ms'']"

lemma histogram_suffixes:
  "map (\<lambda>name. filter (\<lambda>suffix. strip_suffix suffix name \<noteq> None) bucket_suffixes) histogram_names =
     [[''duration_seconds''], [''duration_seconds''], [''ttft_seconds''], [''tpot_ms'']]"
  by code_simp

lemma histograms_have_buckets:
  assumes "start_prometheus lit parse_ip unspecified set_buckets install c = Inr ex"
    and "(Histogram, name, descr) \<in> set (ex_described ex)"
  shows "\<exists>suffix buckets. filter (\<lambda>sb. strip_suffix (fst sb) name \<noteq> None) (ex_buckets ex) = [(suffix, buckets)]"
proof -
  have ex: "ex_described ex = init_metrics" "map fst (ex_buckets ex) = bucket_suffixes"
    using assms(1) by (auto simp: start_prometheus_def Let_def bucket_suffixes_def split: sum.splits)
  with assms(2) have "name \<in> set histogram_names" by (force simp: histogram_names_def)
  then have "filter (\<lambda>suffix. strip_suffix suffix name \<noteq> None) bucket_suffixes \<in>
      set (map (\<lambda>name. filter (\<lambda>suffix. strip_suffix suffix name \<noteq> None) bucket_suffixes) histogram_names)"
    by simp
  then have "length (filter (\<lambda>suffix. strip_suffix suffix name \<noteq> None) bucket_suffixes) = 1"
    unfolding histogram_suffixes by auto
  then have "length (filter (\<lambda>sb. strip_suffix (fst sb) name \<noteq> None) (ex_buckets ex)) = 1"
    unfolding ex(2) [symmetric] by (simp add: filter_map comp_def)
  then show ?thesis by (cases "filter (\<lambda>sb. strip_suffix (fst sb) name \<noteq> None) (ex_buckets ex)") auto
qed

section \<open>Tracing stays consistent\<close>

inductive otel_reachable :: "otel \<Rightarrow> bool" where
  otel_start: "otel_reachable otel_new"
| otel_init: "otel_reachable t \<Longrightarrow> otel_reachable (snd (otel_tracing_init oe enable endpoint senv version t))"
| otel_shutdown: "otel_reachable t \<Longrightarrow> otel_reachable (shutdown_otel t)"

definition otel_inv :: "otel \<Rightarrow> bool" where
  "otel_inv t \<longleftrightarrow>
     otel_tracer t = map_option (\<lambda>p. (''modelpointer'', p)) (otel_provider t)
   \<and> (otel_enabled t \<longrightarrow> otel_provider t \<noteq> None \<and> otel_global t = otel_provider t \<and> otel_propagator t)"

lemma otel_inv_reachable: "otel_reachable t \<Longrightarrow> otel_inv t"
  by (induction rule: otel_reachable.induct)
    (auto simp: otel_inv_def otel_new_def otel_tracing_init_def shutdown_otel_def Let_def split: sum.splits)

text \<open>
  The set-once cells make the switch one-way: the errors for a missing tracer or provider never occur,
  and a process that has had a provider cannot enable tracing again, whatever it builds.
\<close>

lemma otel_lifecycle:
  assumes "otel_reachable t"
  shows "get_otel_layer t = (if otel_enabled t then Inr (''modelpointer'', the (otel_provider t))
           else Inl ''OpenTelemetry is not enabled'')"
    and "flush_spans_async (\<lambda>_. Inr ()) t = Inr ()"
    and "otel_provider t \<noteq> None \<Longrightarrow>
           \<exists>e. fst (otel_tracing_init oe True endpoint senv version t) = Inl e"
    and "otel_provider t \<noteq> None \<Longrightarrow>
           otel_enabled (snd (otel_tracing_init oe enable endpoint senv version t)) \<longrightarrow> otel_enabled t"
  using otel_inv_reachable [OF assms]
  by (auto simp: otel_inv_def get_otel_layer_def flush_spans_async_def is_otel_enabled_def otel_tracing_init_def
      Let_def split: sum.splits)

section \<open>Filter directives\<close>

lemma push_directives_length:
  "0 < i \<Longrightarrow> length (push_directives i targets l acc) =
     length acc + sum_list (map length targets) + length targets * (2 + length l)"
  by (induction targets arbitrary: i acc) auto

text \<open>The capacity reserved for the directives is their exact length.\<close>

lemma filter_capacity_exact: "length (build_filter_string targets l) = filter_capacity targets l"
  by (cases targets) (simp_all add: build_filter_string_def filter_capacity_def push_directives_length)

section \<open>The HTTP client\<close>

lemma add_ca_certificates_Inr_iff:
  "add_ca_certificates from_pem pems b = Inr b' \<longleftrightarrow>
     (\<exists>certs. map from_pem pems = map Inr certs \<and> b' = b\<lparr>cl_roots := cl_roots b @ certs\<rparr>)"
proof (induction pems arbitrary: b)
  case (Cons pem pems)
  show ?case
  proof (cases "from_pem pem")
    case (Inr cert)
    with Cons [of "b\<lparr>cl_roots := cl_roots b @ [cert]\<rparr>"] show ?thesis
      by (auto simp: Cons_eq_map_conv intro: exI [of _ "cert # cs" for cs])
  qed (auto simp: Cons_eq_map_conv)
qed auto

lemma case_relabel_Inr: "(case r of Inl e \<Rightarrow> Inl (f e) | Inr x \<Rightarrow> Inr x) = Inr y \<longleftrightarrow> r = Inr y"
  by (cases r) simp_all

text \<open>
  What a built client was given: rustls exactly when certificates are configured, the configured
  identity, and every configured root in order.
\<close>

lemma client_settings_built:
  fixes identity_pem :: "string \<Rightarrow> 'i result" and cert_pem :: "string \<Rightarrow> 'c result"
  assumes "build_http_client identity_pem cert_pem build c = Inr client"
  shows "\<exists>b. build b = Inr client \<and> cl_timeout_secs b = request_timeout_secs c
       \<and> (cl_rustls b \<longleftrightarrow> client_identity c \<noteq> None \<or> ca_certificates c \<noteq> [])
       \<and> map_option identity_pem (client_identity c) = map_option Inr (cl_identity b)
       \<and> map cert_pem (ca_certificates c) = map Inr (cl_roots b)"
proof -
  define b1 :: "('i, 'c) client_settings" where
    "b1 = (if client_identity c \<noteq> None \<or> ca_certificates c \<noteq> []
           then (client_builder (request_timeout_secs c))\<lparr>cl_rustls := True\<rparr>
           else client_builder (request_timeout_secs c))"
  from assms obtain b2 b3 where b: "add_identity identity_pem (client_identity c) b1 = Inr b2"
    "add_ca_certificates cert_pem (ca_certificates c) b2 = Inr b3" "build b3 = Inr client"
    unfolding build_http_client_def Let_def rbind_eq_Inr_iff case_relabel_Inr b1_def by blast
  from b(1) have b2: "cl_timeout_secs b2 = cl_timeout_secs b1" "cl_rustls b2 = cl_rustls b1" "cl_roots b2 = cl_roots b1"
    "cl_identity b1 = None \<Longrightarrow> map_option identity_pem (client_identity c) = map_option Inr (cl_identity b2)"
    by (auto simp: add_identity_def split: option.splits sum.splits)
  have "cl_timeout_secs b1 = request_timeout_secs c" "cl_roots b1 = []" "cl_identity b1 = None"
    "cl_rustls b1 \<longleftrightarrow> client_identity c \<noteq> None \<or> ca_certificates c \<noteq> []"
    by (simp_all add: b1_def client_builder_def)
  with b2 b(2,3) show ?thesis by (auto simp: add_ca_certificates_Inr_iff intro!: exI [of _ b3])
qed

section \<open>What a start installs\<close>

text \<open>Whether the log directory, if there is one, exists or can be made.\<close>

definition log_dir_usable :: "logging_env \<Rightarrow> ('g, 'b) server_config \<Rightarrow> bool" where
  "log_dir_usable le cfg =
     (case sc_log_dir cfg of None \<Rightarrow> True | Some dir \<Rightarrow> le_exists le dir \<or> le_create_dir le dir = Inr ())"

definition traced :: "('g, 'b) server_config \<Rightarrow> trace_config option" where
  "traced cfg =
     (case sc_trace_config cfg of None \<Rightarrow> None | Some tc \<Rightarrow> if enable_trace tc then Some tc else None)"

definition trace_provider :: "otel_env \<Rightarrow> trace_config \<Rightarrow> tracer_provider" where
  "trace_provider oe tc = provider_build oe (otel_endpoint (otlp_traces_endpoint tc)) (service_env tc) (service_version tc)"

definition log_layers :: "otel_env \<Rightarrow> ('g, 'b) server_config \<Rightarrow> log_layer list" where
  "log_layers oe cfg =
     [StdoutLayer True (sc_json_log cfg)]
     @ (case sc_log_dir cfg of None \<Rightarrow> [] | Some dir \<Rightarrow> [FileLayer dir ''modelpointer'' (sc_json_log cfg)])
     @ (case traced cfg of None \<Rightarrow> [] | Some tc \<Rightarrow> [OtelLayer (''modelpointer'', trace_provider oe tc)])"

definition log_directives :: "logging_env \<Rightarrow> (string \<Rightarrow> level option) \<Rightarrow> ('g, 'b) server_config \<Rightarrow> string" where
  "log_directives le parse_level cfg =
     (case le_rust_log le of
        Some directives \<Rightarrow> directives
      | None \<Rightarrow> ''modelpointer='' @ level_to_str (startup_level parse_level cfg))"

lemma startup_tracing_fresh:
  assumes "startup_tracing oe cfg otel_new = (Inr (), t)"
  shows "otel_enabled t \<longleftrightarrow> traced cfg \<noteq> None"
    and "traced cfg = Some tc \<Longrightarrow> otel_provider t = Some (trace_provider oe tc)"
    and "otel_reachable t"
proof -
  show "otel_enabled t \<longleftrightarrow> traced cfg \<noteq> None"
    and "traced cfg = Some tc \<Longrightarrow> otel_provider t = Some (trace_provider oe tc)"
    using assms by (auto simp: startup_tracing_def traced_def otel_tracing_init_def otel_new_def trace_provider_def
        Let_def split: option.splits sum.splits if_splits)
  show "otel_reachable t"
  proof (cases "sc_trace_config cfg")
    case None
    with assms show ?thesis by (simp add: startup_tracing_def otel_start)
  next
    case (Some c)
    with assms otel_init [OF otel_start] show ?thesis by (simp add: startup_tracing_def) (metis snd_conv)
  qed
qed

lemma fresh_otel_layers:
  assumes "startup_tracing oe cfg otel_new = (Inr (), t)"
  shows "otel_layers (sc_trace_config cfg) t =
     ((case traced cfg of None \<Rightarrow> [] | Some tc \<Rightarrow> [OtelLayer (''modelpointer'', trace_provider oe tc)]), [])"
proof (cases "traced cfg")
  case None
  then show ?thesis by (auto simp: otel_layers_def traced_def split: option.splits)
next
  case (Some tc)
  then have "sc_trace_config cfg = Some tc" "enable_trace tc" by (auto simp: traced_def split: option.splits if_splits)
  with Some otel_lifecycle(1) [OF startup_tracing_fresh(3) [OF assms]] startup_tracing_fresh(1,2) [OF assms]
  show ?thesis by (simp add: otel_layers_def)
qed

lemma startup_logging_config_simps [simp]:
  "lc_json_format (startup_logging_config parse_level cfg) = sc_json_log cfg"
  "lc_log_dir (startup_logging_config parse_level cfg) = sc_log_dir cfg"
  "lc_colorize (startup_logging_config parse_level cfg) = True"
  "lc_log_file_name (startup_logging_config parse_level cfg) = ''modelpointer''"
  by (simp_all add: startup_logging_config_def)

lemma env_filter_startup:
  "env_filter le (startup_logging_config parse_level cfg) = log_directives le parse_level cfg"
  by (simp add: env_filter_def startup_logging_config_def log_directives_def build_filter_string_def
      DEFAULT_LOG_TARGET_def split: option.split)

text \<open>
  C39. A process that starts gets the telemetry its configuration asks for: tracing is on exactly when
  the configuration enables it; if the log directory is usable, the subscriber has the standard
  output layer, the file layer when a directory is named, and the OpenTelemetry layer exactly when
  tracing is on, sending to the configured endpoint; its filter is \<open>RUST_LOG\<close> or the configured level.
  The file layer writes daily files with the prefix \<open>modelpointer\<close>, in JSON only when JSON logs are
  asked for; the README promises \<open>modelpointer.json\<close>, always in JSON.
  If the directory is not usable there is no subscriber at all, not even for standard output.  After
  the exit tracing is off, and no later start of the process can turn it on again.
\<close>

theorem telemetry_wiring:
  assumes "startup_telemetry oe le parse_level cfg (otel_new, logging_new) = (Inr (), t, g)"
  shows "(is_otel_enabled t \<longleftrightarrow> traced cfg \<noteq> None)
       \<and> subscriber g = (if log_dir_usable le cfg then Some (log_directives le parse_level cfg, log_layers oe cfg)
                         else None)
       \<and> \<not> is_otel_enabled (main_exit t)
       \<and> (traced cfg \<noteq> None \<longrightarrow>
            \<not> is_otel_enabled (snd (otel_tracing_init oe' enable endpoint senv version (main_exit t))))"
proof -
  let ?c = "startup_logging_config parse_level cfg"
  from assms have tr: "startup_tracing oe cfg otel_new = (Inr (), t)"
    and g: "g = snd (init_logging le ?c (sc_trace_config cfg) t (logging_new\<lparr>logging_initialized := True\<rparr>))"
    by (auto simp: startup_telemetry_def logging_new_def split: prod.splits sum.splits)
  have "subscriber g = (if log_dir_usable le cfg then Some (log_directives le parse_level cfg, log_layers oe cfg) else None)"
    unfolding g
    by (auto simp: init_logging_def fresh_otel_layers [OF tr] env_filter_startup Let_def log_dir_usable_def
        log_layers_def try_init_def logging_new_def split: option.splits sum.splits)
  moreover have off: "\<not> is_otel_enabled (main_exit t)"
    by (simp add: main_exit_def is_otel_enabled_def shutdown_otel_def)
  moreover have "\<not> is_otel_enabled (snd (otel_tracing_init oe' enable endpoint senv version (main_exit t)))"
    if "traced cfg \<noteq> None"
  proof -
    from that obtain tc where "otel_provider t = Some (trace_provider oe tc)"
      using startup_tracing_fresh(2) [OF tr] by blast
    then have "otel_provider (main_exit t) \<noteq> None" by (simp add: main_exit_def shutdown_otel_def)
    moreover have "otel_reachable (main_exit t)"
      using startup_tracing_fresh(3) [OF tr] by (simp add: main_exit_def otel_shutdown)
    ultimately show ?thesis using otel_lifecycle(4) off unfolding is_otel_enabled_def by blast
  qed
  ultimately show ?thesis using startup_tracing_fresh(1) [OF tr] by (simp add: is_otel_enabled_def)
qed

definition traced_config :: "(rat, rat) server_config" where
  "traced_config = (default_server_config (\<lambda>_. None) ''0.5.0'')
     \<lparr>sc_trace_config := Some (default_trace_config (\<lambda>_. None) ''0.5.0''\<lparr>enable_trace := True,
        otlp_traces_endpoint := ''collector:4318''\<rparr>), sc_log_dir := Some ''logs''\<rparr>"

lemma telemetry_wiring_witness:
  "let oe = \<lparr>oe_client = Inr (), oe_exporter = (\<lambda>_. Inr ()), oe_hostname = None\<rparr>;
       le = \<lparr>le_rust_log = None, le_exists = (\<lambda>_. False), le_create_dir = (\<lambda>_. Inr ())\<rparr>;
       g = snd (snd (startup_telemetry oe le (\<lambda>_. Some DebugLevel) traced_config (otel_new, logging_new)))
   in subscriber g = Some (''modelpointer=debug'', log_layers oe traced_config)
    \<and> length (log_layers oe traced_config) = 3"
proof -
  let ?oe = "\<lparr>oe_client = Inr (), oe_exporter = (\<lambda>_. Inr ()), oe_hostname = None\<rparr>"
  let ?le = "\<lparr>le_rust_log = None, le_exists = (\<lambda>_. False), le_create_dir = (\<lambda>_. Inr ())\<rparr>"
  let ?s = "startup_telemetry ?oe ?le (\<lambda>_. Some DebugLevel) traced_config (otel_new, logging_new)"
  note cfg = traced_config_def default_server_config_def default_trace_config_def
  have "fst ?s = Inr ()"
    by (simp add: startup_telemetry_def startup_tracing_def cfg otel_tracing_init_def otel_new_def logging_new_def Let_def)
  then have "?s = (Inr (), fst (snd ?s), snd (snd ?s))" by (metis prod.collapse)
  from telemetry_wiring [OF this] show ?thesis
    by (simp add: log_dir_usable_def log_directives_def startup_level_def cfg log_layers_def traced_def)
qed

end
