(* ===== verification/Gateway_Run.thy ===== *)
theory Gateway_Run
  imports Server
begin

text \<open>
  The gateway as a concurrent system.  A request of the four \<open>POST\<close> routes gives up its thread at
  each attempt, while it waits for an upstream, so that other requests, forwarding tasks, the log
  writer and the pollers act in between.  Here a request is cut at these points: \<open>arrive\<close> is what
  happens up to the first attempt, \<open>flight_step\<close> one step of a request in flight, \<open>land\<close> what the
  outer layers do with the response; \<open>gateway_step\<close> interleaves all of it.  A request that
  nothing comes between does what \<open>serve\<close> says (\<open>request_alone\<close>).
\<close>

section \<open>A request in flight\<close>

record ('j, 'g) flight =
  fl_spec :: "'j route_spec"
  fl_ctx :: request_context
  fl_env :: "('j, 'g) route_env"
  fl_payload :: 'j
  fl_attempt :: nat
  fl_last :: last_upstream
  fl_waiting :: "upstream_ref option"    \<comment> \<open>the upstream it waits for; \<open>None\<close> before it has picked one\<close>

definition launch ::
    "'j route_spec \<Rightarrow> request_context \<Rightarrow> ('j, 'g) route_env \<Rightarrow> 'j \<Rightarrow> ('s, 'j) world
       \<Rightarrow> ('j response + ('j, 'g) flight) \<times> ('s, 'j) world" where
  "launch sp ctx env payload w =
     (Inr \<lparr>fl_spec = sp, fl_ctx = ctx, fl_env = env, fl_payload = payload, fl_attempt = 0,
           fl_last = ('''', '''', ''''), fl_waiting = None\<rparr>,
      metric (record_gateway_request (sp_model sp) (sp_endpoint sp) (bool_to_static_str (sp_streaming sp))) w)"

text \<open>The two halves of \<open>send_attempt\<close>, before and after the wait.\<close>

definition send_request :: "'j lib \<Rightarrow> 'j route_spec \<Rightarrow> 'j \<Rightarrow> upstream_ref \<Rightarrow> ('s, 'j) world \<Rightarrow> ('s, 'j) world" where
  "send_request J sp payload u w =
     (let b = deref (w_registry w) u
      in w\<lparr>w_sent := w_sent w @ [attempt_request J sp b (attempt_payload J sp b payload)]\<rparr>)"

definition take_reply ::
    "'j lib \<Rightarrow> 's limiter_ops \<Rightarrow> 'j route_spec \<Rightarrow> request_context \<Rightarrow> 'j attempt_env \<Rightarrow> 'j \<Rightarrow> upstream_ref
       \<Rightarrow> ('s, 'j) world \<Rightarrow> 'j response \<times> ('s, 'j) world" where
  "take_reply J L sp ctx e payload u w =
     (let b = deref (w_registry w) u;
          p = attempt_payload J sp b payload;
          rl = attempt_rate_limit b (rc_rate_limit ctx);
          req_body_str = (if sp_log_body sp then j_to_string J p else '''')
      in case ae_exchange e (attempt_request J sp b p) of
           SendError err \<Rightarrow>
             (service_unavailable (''Failed to contact upstream: '' @ err),
              breaker_failure (ae_outcome_at e) u
                (metric (record_upstream_request (sp_model sp) (base_url b) 0) w))
         | Reply raw_status content_type rbody \<Rightarrow>
             (let st = status_from_u16 raw_status;
                  w2 = metric (record_upstream_request (sp_model sp) (base_url b) st) w
              in if \<not> sp_streaming sp \<or> \<not> is_success st
                 then answer_body J L sp ctx e u b req_body_str rl st content_type rbody w2
                 else answer_stream sp ctx e u b req_body_str rl st w2))"

lemma send_attempt_halves:
  "send_attempt J L sp ctx e payload u w = take_reply J L sp ctx e payload u (send_request J sp payload u w)"
  by (simp add: send_attempt_def take_reply_def send_request_def Let_def)

text \<open>The retry executor's decision on a response.\<close>

definition max_attempts :: "'g retry_config \<Rightarrow> nat" where
  "max_attempts retry = unat (max (max_retries retry) 1)"

definition settle ::
    "'g retry_config \<Rightarrow> ('j, 'g) flight \<Rightarrow> 'j response \<Rightarrow> ('s, 'j) world
       \<Rightarrow> ('j response + ('j, 'g) flight) \<times> ('s, 'j) world" where
  "settle retry fl resp w =
     (let sp = fl_spec fl;
          finish = finish_route sp (fl_ctx fl) (re_ts (fl_env fl)) (re_total_ms (fl_env fl)) resp
      in if \<not> is_retryable_status (status resp) then (Inl resp, finish (w, fl_last fl))
         else if max_attempts retry \<le> fl_attempt fl + 1 then
           (Inl resp, finish (metric (record_retry_exhausted (sp_model sp) (sp_endpoint sp)) w, fl_last fl))
         else
           (Inr (fl\<lparr>fl_attempt := fl_attempt fl + 1, fl_waiting := None\<rparr>),
            metric (record_retry_attempt (sp_model sp) (sp_endpoint sp) (status resp)) w))"

definition flight_step ::
    "'j lib \<Rightarrow> 's limiter_ops \<Rightarrow> 'g retry_config \<Rightarrow> ('j, 'g) flight \<Rightarrow> ('s, 'j) world
       \<Rightarrow> ('j response + ('j, 'g) flight) \<times> ('s, 'j) world" where
  "flight_step J L retry fl w =
     (let sp = fl_spec fl;
          e = re_attempt (fl_env fl) (fl_attempt fl)
      in case fl_waiting fl of
           Some u \<Rightarrow>
             (case take_reply J L sp (fl_ctx fl) e (fl_payload fl) u w of (resp, w') \<Rightarrow> settle retry fl resp w')
         | None \<Rightarrow>
             (case sp_pick sp (ae_select_at e) (w_registry w) of
                (None, r) \<Rightarrow>
                  settle retry fl (sp_no_upstream sp)
                    (metric (record_gateway_error (sp_model sp) (sp_endpoint sp) ERROR_NO_UPSTREAM)
                      (w\<lparr>w_registry := r\<rparr>))
              | (Some u, r) \<Rightarrow>
                  (let b = deref r u
                   in (Inr (fl\<lparr>fl_waiting := Some u,
                              fl_last := (base_url b, provider_node_id b, upstream_model_or b (sp_model sp))\<rparr>),
                       send_request J sp (fl_payload fl) u (w\<lparr>w_registry := r\<rparr>)))))"

text \<open>The steps a flight has left, at most.\<close>

definition steps_left :: "'g retry_config \<Rightarrow> ('j, 'g) flight \<Rightarrow> nat" where
  "steps_left retry fl =
     2 * (max_attempts retry - fl_attempt fl) + (case fl_waiting fl of None \<Rightarrow> 2 | Some u \<Rightarrow> 1)"

lemma settle_left:
  "settle retry fl resp w = (Inr fl', w') \<Longrightarrow>
     fl' = fl\<lparr>fl_attempt := fl_attempt fl + 1, fl_waiting := None\<rparr> \<and> fl_attempt fl + 1 < max_attempts retry
     \<and> w' = metric (record_retry_attempt (sp_model (fl_spec fl)) (sp_endpoint (fl_spec fl)) (status resp)) w
     \<and> is_retryable_status (status resp)"
  by (auto simp: settle_def Let_def split: if_splits)

lemma flight_step_left: "flight_step J L retry fl w = (Inr fl', w') \<Longrightarrow> steps_left retry fl' < steps_left retry fl"
  by (auto simp: flight_step_def Let_def steps_left_def dest!: settle_left split: option.splits prod.splits)

text \<open>A flight that nothing comes between.\<close>

function finish_flight ::
    "'j lib \<Rightarrow> 's limiter_ops \<Rightarrow> 'g retry_config \<Rightarrow> ('j, 'g) flight \<Rightarrow> ('s, 'j) world
       \<Rightarrow> 'j response \<times> ('s, 'j) world" where
  "finish_flight J L retry fl w =
     (case flight_step J L retry fl w of
        (Inl resp, w') \<Rightarrow> (resp, w')
      | (Inr fl', w') \<Rightarrow> finish_flight J L retry fl' w')"
  by pat_completeness auto
termination
  by (relation "measure (\<lambda>(J, L, retry, fl, w). steps_left retry fl)") (auto dest: flight_step_left [OF sym])

declare finish_flight.simps [simp del]

section \<open>The ends of a request\<close>

text \<open>Admission, and what each handler does between it and the first attempt.\<close>

definition admit ::
    "'j lib \<Rightarrow> ('s, 'g) gateway_state \<Rightarrow> ('j, 'g) serve_env \<Rightarrow> string \<Rightarrow> api_key_identity \<Rightarrow> string \<Rightarrow> string
       \<Rightarrow> string \<Rightarrow> ('s, 'j) world \<Rightarrow> ('j response + request_context) \<times> ('s, 'j) world" where
  "admit J S env request_id identity mid protocol endpoint w =
     (case check_rate_limits J (gs_rate_limiter S) (gs_quota_store S) (w_registry w) (se_now env)
             (ident_key_id identity) mid protocol (w_limiter w) of
        (Inl resp, s) \<Rightarrow>
          (Inl resp, emit_rl_log (se_ts env) request_id (ident_key_id identity) mid endpoint (w\<lparr>w_limiter := s\<rparr>))
      | (Inr (rate_limit, min_priority), s) \<Rightarrow>
          (Inr \<lparr>rc_request_id = request_id, rc_api_key_id = ident_key_id identity,
                rc_rate_limit = rate_limit, rc_min_priority = min_priority\<rparr>, w\<lparr>w_limiter := s\<rparr>))"

definition launch_typed ::
    "'j lib \<Rightarrow> ('s, 'g) gateway_state \<Rightarrow> ('j, 'g) serve_env \<Rightarrow> string \<Rightarrow> api_key_identity \<Rightarrow> string \<Rightarrow> string
       \<Rightarrow> (request_context \<Rightarrow> 'j route_spec) \<Rightarrow> 'j typed_request \<Rightarrow> ('s, 'j) world
       \<Rightarrow> ('j response + ('j, 'g) flight) \<times> ('s, 'j) world" where
  "launch_typed J S env request_id identity protocol endpoint spec rbody w =
     (case admit J S env request_id identity (tr_model rbody) protocol endpoint w of
        (Inl resp, w') \<Rightarrow> (Inl resp, w')
      | (Inr ctx, w') \<Rightarrow>
          (case tr_value rbody of
             Inl e \<Rightarrow> (Inl (bad_request (''Failed to serialize request: '' @ e)),
                      metric (record_gateway_error (tr_model rbody) endpoint ERROR_VALIDATION) w')
           | Inr payload \<Rightarrow> launch (spec ctx) ctx (se_route env) payload w'))"

definition launch_responses ::
    "'j lib \<Rightarrow> ('s, 'g) gateway_state \<Rightarrow> ('j, 'g) serve_env \<Rightarrow> headers \<Rightarrow> string \<Rightarrow> api_key_identity
       \<Rightarrow> 'j \<Rightarrow> ('s, 'j) world \<Rightarrow> ('j response + ('j, 'g) flight) \<times> ('s, 'j) world" where
  "launch_responses J S env hs request_id identity rbody w =
     (case admit J S env request_id identity (or_default (opt_str J ''model'' rbody) '''') ''openai''
             ENDPOINT_RESPONSES w of
        (Inl resp, w') \<Rightarrow> (Inl resp, w')
      | (Inr ctx, w') \<Rightarrow>
          (case opt_str J ''model'' rbody of
             None \<Rightarrow> (Inl (bad_request (''Missing required field: '' @ quoted ''model'')), w')
           | Some mdl \<Rightarrow>
               (case extract_provider_id J hs of
                  None \<Rightarrow> (Inl (missing_provider_header J), w')
                | Some pid \<Rightarrow>
                    launch (responses_spec J (gs_router S) mdl
                              (or_default (Option.bind (j_get J ''stream'' rbody) (j_as_bool J)) False) pid)
                      ctx (se_route env) rbody w')))"

definition arrive_handler ::
    "'j lib \<Rightarrow> 'f hash_ops \<Rightarrow> 'g f32_ops \<Rightarrow> ('s, 'g) gateway_state \<Rightarrow> ('j, 'g) serve_env \<Rightarrow> 'j http_in \<Rightarrow> string
       \<Rightarrow> api_key_identity \<Rightarrow> route \<Rightarrow> ('s, 'j) world \<Rightarrow> ('j response + ('j, 'g) flight) \<times> ('s, 'j) world" where
  "arrive_handler J H F S env hi request_id identity rt w =
     (let g = gs_router S;
          key = extract_routing_key J (hi_headers hi);
          typed = (\<lambda>protocol endpoint spec.
            (case hi_typed hi of
               Inl resp \<Rightarrow> (Inl resp, w)
             | Inr rbody \<Rightarrow> launch_typed J S env request_id identity protocol endpoint (spec rbody) rbody w))
      in case rt of
           ChatRoute \<Rightarrow>
             typed ''openai'' ENDPOINT_CHAT
               (\<lambda>b ctx. chat_spec J H g (tr_model b) (tr_stream b) key (rc_min_priority ctx))
         | MessagesRoute \<Rightarrow>
             typed ''anthropic'' ENDPOINT_MESSAGES
               (\<lambda>b ctx. messages_spec J H g (tr_model b) (tr_stream b) key (rc_min_priority ctx))
         | EmbeddingsRoute \<Rightarrow>
             typed ''openai'' ENDPOINT_EMBEDDINGS
               (\<lambda>b ctx. embedding_spec J H g (tr_model b) key (rc_min_priority ctx))
         | ResponsesRoute \<Rightarrow>
             (case hi_json hi of
                Inl resp \<Rightarrow> (Inl resp, w)
              | Inr rbody \<Rightarrow> launch_responses J S env (hi_headers hi) request_id identity rbody w)
         | _ \<Rightarrow> (case protected_handler J H F S env hi request_id identity rt w of (resp, w') \<Rightarrow> (Inl resp, w')))"

definition arrive ::
    "'j lib \<Rightarrow> 'f hash_ops \<Rightarrow> 'g f32_ops \<Rightarrow> (nat \<Rightarrow> string option) \<Rightarrow> (string \<Rightarrow> string)
       \<Rightarrow> ('s, 'g) gateway_state \<Rightarrow> ('j, 'g) serve_env \<Rightarrow> 'j http_in \<Rightarrow> string \<Rightarrow> ('s, 'j) world
       \<Rightarrow> ('j response + ('j, 'g) flight) \<times> ('s, 'j) world" where
  "arrive J H F reason sha256_hex S env hi request_id w =
     (let w1 = metric (record_http_request (method_to_static_str (hi_method hi))
                 (normalize_path_for_metrics (hi_path hi))) w
      in case app_route (hi_method hi) (hi_path hi) of
           HealthRoute \<Rightarrow> (Inl health, w1)
         | ModelsRoute \<Rightarrow> (Inl (v1_models J (w_registry w1)), w1)
         | Unmatched \<Rightarrow> (Inl (hi_unmatched hi), w1)
         | rt \<Rightarrow>
             (case auth_middleware J reason sha256_hex (gs_auth_required S) (gs_api_key_repo S) (hi_headers hi) of
                Inl resp \<Rightarrow> (Inl resp, w1)
              | Inr identity \<Rightarrow> arrive_handler J H F S env hi request_id identity rt w1))"

definition land :: "'j lib \<Rightarrow> string \<Rightarrow> 'j response \<Rightarrow> ('s, 'j) world \<Rightarrow> 'j response \<times> ('s, 'j) world" where
  "land J request_id resp w =
     (add_request_id J request_id resp, metric (record_http_response (status resp) (extract_error_code J resp)) w)"

section \<open>A request alone\<close>

lemma finish_flight_core:
  assumes "fl_waiting fl = None" "fl_attempt fl < max_attempts retry"
  shows "finish_flight J L retry fl w =
    (let sp = fl_spec fl; ctx = fl_ctx fl; env = fl_env fl in
     case retry_loop (max_attempts retry) (calculate_delay F (re_draw env) retry)
           (\<lambda>attempt. attempt_once J L sp ctx (re_attempt env attempt) (fl_payload fl))
           status
           (\<lambda>res _. is_retryable_status (status res))
           (\<lambda>_ _ status_code (w, l). (metric (record_retry_attempt (sp_model sp) (sp_endpoint sp) status_code) w, l))
           (\<lambda>(w, l). (metric (record_retry_exhausted (sp_model sp) (sp_endpoint sp)) w, l))
           (fl_attempt fl) (w, fl_last fl) of
         (resp, wl) \<Rightarrow> (resp, finish_route sp ctx (re_ts env) (re_total_ms env) resp wl))"
  using assms
proof (induction "max_attempts retry - fl_attempt fl" arbitrary: fl w rule: less_induct)
  case less
  let ?sp = "fl_spec fl" and ?e = "re_attempt (fl_env fl) (fl_attempt fl)" and ?m = "max_attempts retry"
  let ?op = "\<lambda>attempt. attempt_once J L ?sp (fl_ctx fl) (re_attempt (fl_env fl) attempt) (fl_payload fl)"
  let ?bo = "\<lambda>_ _ status_code (w, l). (metric (record_retry_attempt (sp_model ?sp) (sp_endpoint ?sp) status_code) w, l)"
  let ?ex = "\<lambda>(w, l). (metric (record_retry_exhausted (sp_model ?sp) (sp_endpoint ?sp)) w, l)"
  let ?fin = "\<lambda>(resp, wl). (resp, finish_route ?sp (fl_ctx fl) (re_ts (fl_env fl)) (re_total_ms (fl_env fl)) resp wl)"
  let ?loop = "retry_loop ?m (calculate_delay F (re_draw (fl_env fl)) retry) ?op status
      (\<lambda>res _. is_retryable_status (status res)) ?bo ?ex"
  have settled: "(case settle retry flx resp v of (Inl resp, w') \<Rightarrow> (resp, w') | (Inr fl', w') \<Rightarrow> finish_flight J L retry fl' w')
      = ?fin (if \<not> is_retryable_status (status resp) then (resp, v, l)
              else if ?m \<le> fl_attempt fl + 1 then (resp, ?ex (v, l))
              else ?loop (fl_attempt fl + 1) (?bo () () (status resp) (v, l)))"
    if "fl_spec flx = ?sp" "fl_ctx flx = fl_ctx fl" "fl_env flx = fl_env fl" "fl_payload flx = fl_payload fl"
      "fl_attempt flx = fl_attempt fl" "fl_last flx = l" for flx resp l v
  proof -
    have "\<not> ?m \<le> fl_attempt fl + 1 \<Longrightarrow>
        ?m - fl_attempt (flx\<lparr>fl_attempt := fl_attempt fl + 1, fl_waiting := None\<rparr>) < ?m - fl_attempt fl"
      using that by simp
    from less.hyps [OF this] that show ?thesis by (simp add: settle_def Let_def)
  qed
  obtain pk r where pk: "sp_pick ?sp (ae_select_at ?e) (w_registry w) = (pk, r)" by force
  show ?case
  proof (cases pk)
    case None
    then show ?thesis
      using settled [of fl] less.prems(1)
      by (subst finish_flight.simps, subst retry_loop.simps)
        (simp add: flight_step_def pk attempt_once_def Let_def)
  next
    case (Some u)
    let ?b = "deref r u"
    let ?fl = "fl\<lparr>fl_waiting := Some u, fl_last := (base_url ?b, provider_node_id ?b, upstream_model_or ?b (sp_model ?sp))\<rparr>"
    obtain resp v where sd: "send_attempt J L ?sp (fl_ctx fl) ?e (fl_payload fl) u (w\<lparr>w_registry := r\<rparr>) = (resp, v)" by force
    let ?w = "send_request J ?sp (fl_payload fl) u (w\<lparr>w_registry := r\<rparr>)"
    have "flight_step J L retry fl w = (Inr ?fl, ?w)"
      using pk Some less.prems(1) by (simp add: flight_step_def Let_def)
    moreover have "flight_step J L retry ?fl ?w = settle retry ?fl resp v"
      using sd by (simp add: flight_step_def Let_def send_attempt_halves)
    ultimately have "finish_flight J L retry fl w
        = (case settle retry ?fl resp v of (Inl resp, w') \<Rightarrow> (resp, w') | (Inr fl', w') \<Rightarrow> finish_flight J L retry fl' w')"
      by (subst finish_flight.simps, simp, subst finish_flight.simps, simp)
    moreover have "?loop (fl_attempt fl) (w, fl_last fl)
        = (if \<not> is_retryable_status (status resp) then (resp, v, fl_last ?fl)
           else if ?m \<le> fl_attempt fl + 1 then (resp, ?ex (v, fl_last ?fl))
           else ?loop (fl_attempt fl + 1) (?bo () () (status resp) (v, fl_last ?fl)))"
      using pk Some sd by (subst retry_loop.simps) (simp add: attempt_once_def Let_def)
    ultimately show ?thesis
      using settled [of ?fl _ resp v] by (simp only: Let_def) simp
  qed
qed
text \<open>What remains of a request, when nothing comes between.\<close>

definition complete ::
    "'j lib \<Rightarrow> ('s, 'g) gateway_state \<Rightarrow> ('j response + ('j, 'g) flight) \<times> ('s, 'j) world
       \<Rightarrow> 'j response \<times> ('s, 'j) world" where
  "complete J S a =
     (case a of
        (Inl resp, w) \<Rightarrow> (resp, w)
      | (Inr fl, w) \<Rightarrow> finish_flight J (router_limiter S) (gr_retry_config (gs_router S)) fl w)"

lemma max_attempts_pos [simp]: "0 < max_attempts retry"
  by (auto simp: max_attempts_def unat_gt_0 max_def)

lemma complete_launch:
  "complete J S (launch sp ctx env payload w)
     = route_core J (router_limiter S) F (gr_retry_config (gs_router S)) sp ctx env payload w"
  by (simp add: complete_def launch_def finish_flight_core [where F = F] route_core_def
      execute_response_with_retry_def max_attempts_def [symmetric] Let_def)

lemma with_admission_admit:
  "with_admission J S env request_id identity mid protocol endpoint k w =
     (case admit J S env request_id identity mid protocol endpoint w of
        (Inl resp, w') \<Rightarrow> (resp, w')
      | (Inr ctx, w') \<Rightarrow> k ctx w')"
  by (auto simp: with_admission_def admit_def split: prod.splits sum.splits)

lemma complete_Inl [simp]: "complete J S (Inl resp, w) = (resp, w)"
  by (simp add: complete_def)

lemma or_default_Some [simp]: "or_default (Some x) d = x"
  by (simp add: or_default_def)

lemma complete_typed:
  "v1_chat_completions J H F S env hs request_id identity rbody w =
     complete J S (launch_typed J S env request_id identity ''openai'' ENDPOINT_CHAT
       (\<lambda>ctx. chat_spec J H (gs_router S) (tr_model rbody) (tr_stream rbody) (extract_routing_key J hs)
                (rc_min_priority ctx)) rbody w)"
  "v1_messages J H F S env hs request_id identity rbody w =
     complete J S (launch_typed J S env request_id identity ''anthropic'' ENDPOINT_MESSAGES
       (\<lambda>ctx. messages_spec J H (gs_router S) (tr_model rbody) (tr_stream rbody) (extract_routing_key J hs)
                (rc_min_priority ctx)) rbody w)"
  "v1_embeddings J H F S env hs request_id identity rbody w =
     complete J S (launch_typed J S env request_id identity ''openai'' ENDPOINT_EMBEDDINGS
       (\<lambda>ctx. embedding_spec J H (gs_router S) (tr_model rbody) (extract_routing_key J hs)
                (rc_min_priority ctx)) rbody w)"
  unfolding v1_chat_completions_def v1_messages_def v1_embeddings_def with_admission_admit launch_typed_def
    route_chat_def route_messages_def route_embedding_def Let_def
  by (simp_all add: complete_launch [where F = F] split: prod.split sum.split)

lemma complete_responses:
  "v1_responses J F S env hs request_id identity rbody w =
     complete J S (launch_responses J S env hs request_id identity rbody w)"
  unfolding v1_responses_def with_admission_admit launch_responses_def route_responses_def Let_def
  by (simp add: complete_launch [where F = F] split: prod.split sum.split option.split)

lemma protected_handler_arrive:
  "protected_handler J H F S env hi request_id identity rt w =
     complete J S (arrive_handler J H F S env hi request_id identity rt w)"
  by (cases rt) (simp_all add: protected_handler_def arrive_handler_def extracted_def Let_def
      complete_typed complete_responses split: sum.split prod.split)

text \<open>
  C9. Cutting a request at its waits loses nothing: a request that runs without interference, from its
  arrival over the steps of its attempts to the outer layers, gets the response and leaves the world
  that \<open>serve\<close> computes in one go, whatever route it takes and however often it is retried.
\<close>

theorem request_alone:
  "serve J H F reason sha names S env hi w =
     (let request_id = request_id_of J names (se_draws env) (hi_headers hi) (hi_path hi)
      in case complete J S (arrive J H F reason sha S env hi request_id w) of
           (resp, w') \<Rightarrow> land J request_id resp w')"
  by (cases "app_route (hi_method hi) (hi_path hi)")
    (simp_all add: serve_def dispatch_def arrive_def land_def Let_def protected_handler_arrive
      split: sum.split prod.split)

section \<open>The running gateway\<close>

text \<open>
  The application's state, the world, the requests in flight and the log writer (its buffer and
  batches; the channel is the world's sink).  Three ghosts list the ids of the requests that arrived,
  of those that were launched, and of those whose handler was dropped.
\<close>

record ('s, 'j, 'g) gateway_run =
  run_app :: "('s, 'g) gateway_state"
  run_world :: "('s, 'j) world"
  run_flights :: "('j, 'g) flight list"
  run_writer :: log_writer
  run_arrived :: "string list"
  run_routed :: "string list"
  run_dropped :: "string list"

definition run_start ::
    "('s, 'g) gateway_state \<Rightarrow> registry \<Rightarrow> 's \<Rightarrow> log_sink \<Rightarrow> metrics \<Rightarrow> ('s, 'j, 'g) gateway_run" where
  "run_start S r s sink m =
     \<lparr>run_app = S,
      run_world = \<lparr>w_registry = r, w_limiter = s, w_sink = sink, w_access = [], w_metrics = m,
                   w_sent = [], w_tasks = []\<rparr>,
      run_flights = [], run_writer = writer_start, run_arrived = [], run_routed = [],
      run_dropped = []\<rparr>"

text \<open>The extractor of the handler that spawned a task.\<close>

definition task_span :: "'j lib \<Rightarrow> stream_task \<Rightarrow> string \<Rightarrow> collected \<Rightarrow> collected" where
  "task_span J t =
     (if task_endpoint t = ENDPOINT_MESSAGES then messages_on_span J
      else if task_endpoint t = ENDPOINT_RESPONSES then responses_on_span J
      else chat_on_span J)"

definition remove_nth :: "nat \<Rightarrow> 'a list \<Rightarrow> 'a list" where
  "remove_nth i xs = take i xs @ drop (Suc i) xs"

text \<open>
  The steps.  When a client goes away before its answer, the server drops the handler's future, and
  with it the request in flight.  A task that ends is no longer pending; a reload installs well-formed groups, which is
  what both loaders yield; \<open>clean\<close> is the limiter's background clean-up.
\<close>

inductive gateway_step ::
    "'j lib \<Rightarrow> 'f hash_ops \<Rightarrow> 'g f32_ops \<Rightarrow> (nat \<Rightarrow> string option) \<Rightarrow> (string \<Rightarrow> string) \<Rightarrow> string list
       \<Rightarrow> (int \<Rightarrow> 's \<Rightarrow> 's) \<Rightarrow> ('s, 'j, 'g) gateway_run \<Rightarrow> ('s, 'j, 'g) gateway_run \<Rightarrow> bool"
  for J H F reason sha names clean where
  step_refuse:
    "rid = request_id_of J names (se_draws env) (hi_headers hi) (hi_path hi) \<Longrightarrow>
     arrive J H F reason sha (run_app R) env hi rid (run_world R) = (Inl resp, w') \<Longrightarrow>
     gateway_step J H F reason sha names clean R
       (R\<lparr>run_world := snd (land J rid resp w'), run_arrived := run_arrived R @ [rid]\<rparr>)"
| step_launch:
    "rid = request_id_of J names (se_draws env) (hi_headers hi) (hi_path hi) \<Longrightarrow>
     arrive J H F reason sha (run_app R) env hi rid (run_world R) = (Inr fl, w') \<Longrightarrow>
     gateway_step J H F reason sha names clean R
       (R\<lparr>run_world := w', run_flights := run_flights R @ [fl], run_arrived := run_arrived R @ [rid],
          run_routed := run_routed R @ [rid]\<rparr>)"
| step_attempt:
    "i < length (run_flights R) \<Longrightarrow>
     flight_step J (router_limiter (run_app R)) (gr_retry_config (gs_router (run_app R)))
       (run_flights R ! i) (run_world R) = (Inr fl, w') \<Longrightarrow>
     gateway_step J H F reason sha names clean R
       (R\<lparr>run_world := w', run_flights := (run_flights R)[i := fl]\<rparr>)"
| step_answer:
    "i < length (run_flights R) \<Longrightarrow>
     flight_step J (router_limiter (run_app R)) (gr_retry_config (gs_router (run_app R)))
       (run_flights R ! i) (run_world R) = (Inl resp, w') \<Longrightarrow>
     gateway_step J H F reason sha names clean R
       (R\<lparr>run_world := snd (land J (rc_request_id (fl_ctx (run_flights R ! i))) resp w'),
          run_flights := remove_nth i (run_flights R)\<rparr>)"
| step_drop:
    "i < length (run_flights R) \<Longrightarrow>
     gateway_step J H F reason sha names clean R
       (R\<lparr>run_flights := remove_nth i (run_flights R),
          run_dropped := run_dropped R @ [rc_request_id (fl_ctx (run_flights R ! i))]\<rparr>)"
| step_stream:
    "i < length (w_tasks (run_world R)) \<Longrightarrow>
     t = w_tasks (run_world R) ! i \<Longrightarrow>
     run_stream_task (router_limiter (run_app R)) (task_span J t) t items fe
       ((run_world R)\<lparr>w_tasks := remove_nth i (w_tasks (run_world R))\<rparr>) = (chunks, w') \<Longrightarrow>
     gateway_step J H F reason sha names clean R (R\<lparr>run_world := w'\<rparr>)"
| step_reload_routes:
    "\<forall>g \<in> set gs. group_wf g \<Longrightarrow>
     gateway_step J H F reason sha names clean R
       (R\<lparr>run_world := (run_world R)\<lparr>w_registry := reload_all now gs (w_registry (run_world R))\<rparr>\<rparr>)"
| step_reload_keys:
    "gateway_step J H F reason sha names clean R (R\<lparr>run_app := (run_app R)\<lparr>gs_api_key_repo := repo\<rparr>\<rparr>)"
| step_reload_quotas:
    "gateway_step J H F reason sha names clean R (R\<lparr>run_app := (run_app R)\<lparr>gs_quota_store := quotas\<rparr>\<rparr>)"
| step_clean:
    "gateway_step J H F reason sha names clean R
       (R\<lparr>run_world := (run_world R)\<lparr>w_limiter := clean now (w_limiter (run_world R))\<rparr>\<rparr>)"
| step_log_receive:
    "w_sink (run_world R) = LogChannel (r # q) \<Longrightarrow>
     gateway_step J H F reason sha names clean R
       (R\<lparr>run_world := (run_world R)\<lparr>w_sink := LogChannel q\<rparr>, run_writer := receive_record r (run_writer R)\<rparr>)"
| step_log_flush:
    "gateway_step J H F reason sha names clean R (R\<lparr>run_writer := flush_buffer (run_writer R)\<rparr>)"

end
