(* ===== verification/Gateway_Run_Spec.thy ===== *)
theory Gateway_Run_Spec
  imports Gateway_Run Server_Spec "HOL-Library.Multiset"
begin

text \<open>
  What the steps of the running gateway keep: each operation is described by the ids it leaves in the
  access events, log rows and tasks, and by what it does to the registry and to the requests sent; from
  these follow the invariants of a run (\<open>run_safe\<close>, \<open>run_counted\<close>, \<open>run_bounded\<close>) and the measure under
  which it drains.
\<close>

section \<open>What an operation leaves\<close>

text \<open>
  Request ids of the access events, log rows and tasks an operation adds.  A row may be dropped when
  the channel is full.
\<close>

definition sink_rows :: "log_sink \<Rightarrow> string list" where
  "sink_rows sink = (case sink of LogNoop \<Rightarrow> [] | LogChannel q \<Rightarrow> map rec_request_id q)"

definition leaves ::
    "string list \<Rightarrow> string list \<Rightarrow> string list \<Rightarrow> ('s, 'j) world \<Rightarrow> ('s, 'j) world \<Rightarrow> bool" where
  "leaves events rows tasks w w' \<longleftrightarrow>
     map rec_request_id (w_access w') = map rec_request_id (w_access w) @ events
   \<and> map task_request_id (w_tasks w') = map task_request_id (w_tasks w) @ tasks
   \<and> mset (sink_rows (w_sink w')) \<subseteq># mset (sink_rows (w_sink w)) + mset rows"

abbreviation leaves_nothing :: "('s, 'j) world \<Rightarrow> ('s, 'j) world \<Rightarrow> bool" where
  "leaves_nothing \<equiv> leaves [] [] []"

definition one_trace :: "string \<Rightarrow> ('s, 'j) world \<Rightarrow> ('s, 'j) world \<Rightarrow> bool" where
  "one_trace rid w w' \<longleftrightarrow> leaves [rid] [rid] [] w w' \<or> leaves [] [] [rid] w w'"

lemma try_send_rows: "mset (sink_rows (try_send r sink)) \<subseteq># mset (sink_rows sink) + {#rec_request_id r#}"
  by (auto simp: try_send_def sink_rows_def split: log_sink.split)

lemma leaves_refl [simp]: "leaves_nothing w w"
  by (simp add: leaves_def)

lemma leaves_same [simp]:
  "leaves es rs ts w (metric f w') = leaves es rs ts w w'"
  "leaves es rs ts w (breaker_success now u w') = leaves es rs ts w w'"
  "leaves es rs ts w (breaker_failure now u w') = leaves es rs ts w w'"
  "leaves es rs ts w (charge L at rl k n w') = leaves es rs ts w w'"
  "leaves es rs ts w (w'\<lparr>w_sent := q\<rparr>) = leaves es rs ts w w'"
  "leaves es rs ts w (w'\<lparr>w_registry := r\<rparr>) = leaves es rs ts w w'"
  "leaves es rs ts w (w'\<lparr>w_limiter := s\<rparr>) = leaves es rs ts w w'"
  "leaves es rs ts (metric f w) w' = leaves es rs ts w w'"
  "leaves es rs ts (w\<lparr>w_sent := q\<rparr>) w' = leaves es rs ts w w'"
  "leaves es rs ts (w\<lparr>w_registry := r\<rparr>) w' = leaves es rs ts w w'"
  "leaves es rs ts (w\<lparr>w_limiter := s\<rparr>) w' = leaves es rs ts w w'"
  by (simp_all add: leaves_def)

lemma try_send_rows_le:
  "mset (sink_rows sink) \<subseteq># M \<Longrightarrow> rec_request_id r = rid \<Longrightarrow> mset (sink_rows (try_send r sink)) \<subseteq># add_mset rid M"
  using try_send_rows [of r sink] subset_mset.trans by fastforce

lemma leaves_try_send:
  "leaves_nothing w w' \<Longrightarrow> rec_request_id r = rid \<Longrightarrow>
     leaves [] [rid] [] w (w'\<lparr>w_sink := try_send r (w_sink w')\<rparr>)"
  by (simp add: leaves_def try_send_rows_le)

lemma truncate_request_id [simp]: "rec_request_id (access_log_record.truncate e) = rec_request_id e"
  by (simp add: access_log_record.truncate_def)

lemma leaves_emit [simp]:
  "leaves_nothing w w' \<Longrightarrow>
     leaves [rid] [rid] [] w (emit_access_log ts rid a b c d e f g st ms str tt tp p cp tot fr q w')"
  by (simp add: leaves_def emit_access_log_def Let_def try_send_rows_le)

lemma leaves_trans:
  "leaves es rs ts w w1 \<Longrightarrow> leaves es' rs' ts' w1 w2 \<Longrightarrow> leaves (es @ es') (rs @ rs') (ts @ ts') w w2"
  unfolding leaves_def by (auto dest: subset_mset.add_mono [where c = "mset rs'" and d = "mset rs'"]
      intro: subset_mset.trans simp: ac_simps)

lemma one_trace_simps [simp]:
  "one_trace rid w (metric f w') = one_trace rid w w'"
  "one_trace rid (metric f w) w' = one_trace rid w w'"
  "one_trace rid (w\<lparr>w_registry := r\<rparr>) w' = one_trace rid w w'"
  "leaves_nothing w w' \<Longrightarrow>
     one_trace rid w (emit_access_log ts rid a b c d e h g st ms str tt tp p cp tot fr q w')"
  by (simp_all add: one_trace_def)

lemma one_trace_trans: "leaves_nothing w w1 \<Longrightarrow> one_trace rid w1 w2 \<Longrightarrow> one_trace rid w w2"
  unfolding one_trace_def using leaves_trans [of "[]" "[]" "[]" w w1] by fastforce

section \<open>Steps of a request\<close>

lemma answer_body_leaves:
  assumes "answer_body J L sp ctx e u b q rl st ct rbody w = (resp, w')"
  shows "if is_success (status resp) then one_trace (rc_request_id ctx) w w' else leaves_nothing w w'"
  using assms by (cases rbody) (auto simp: answer_body_def Let_def is_success_def)

lemma answer_stream_leaves:
  "answer_stream sp ctx e u b q rl st w = (resp, w') \<Longrightarrow> one_trace (rc_request_id ctx) w w' \<and> status resp = st"
  by (auto simp: answer_stream_def Let_def one_trace_def leaves_def)

lemma take_reply_leaves:
  assumes "take_reply J L sp ctx e payload u w = (resp, w')"
  shows "if is_success (status resp) then one_trace (rc_request_id ctx) w w' else leaves_nothing w w'"
proof -
  let ?b = "deref (w_registry w) u"
  let ?req = "attempt_request J sp ?b (attempt_payload J sp ?b payload)"
  show ?thesis
  proof (cases "ae_exchange e ?req")
    case (SendError err)
    with assms show ?thesis by (auto simp: take_reply_def Let_def is_success_def)
  next
    case (Reply raw ct rbody)
    with assms show ?thesis
      by (auto simp: take_reply_def Let_def is_success_def split: if_splits
          dest!: answer_body_leaves answer_stream_leaves)
  qed
qed

lemma settle_leaves:
  assumes "settle retry fl resp w = (x, w')" "w_access w0 = w_access w0"
    and "if is_success (status resp) then one_trace (rc_request_id (fl_ctx fl)) w0 w else leaves_nothing w0 w"
  shows "case x of Inl _ \<Rightarrow> one_trace (rc_request_id (fl_ctx fl)) w0 w'
         | Inr fl' \<Rightarrow> leaves_nothing w0 w' \<and> fl_ctx fl' = fl_ctx fl \<and> fl_spec fl' = fl_spec fl \<and> fl_waiting fl' = None
             \<and> fl_attempt fl' = fl_attempt fl + 1 \<and> fl_attempt fl' < max_attempts retry
             \<and> w_registry w' = w_registry w \<and> w_sent w' = w_sent w \<and> w_tasks w' = w_tasks w"
proof (cases "is_retryable_status (status resp)")
  case True
  then have "\<not> is_success (status resp)" by (rule retryable_not_success)
  with True assms show ?thesis
    by (cases "fl_last fl") (auto simp: settle_def Let_def finish_route_def split: if_splits)
next
  case False
  with assms show ?thesis
    by (cases "fl_last fl") (auto simp: settle_def Let_def finish_route_def split: if_splits)
qed

lemma settle_frame:
  "settle retry fl resp w = (x, w') \<Longrightarrow>
     w_registry w' = w_registry w \<and> w_sent w' = w_sent w \<and> w_tasks w' = w_tasks w"
  by (cases "fl_last fl") (auto simp: settle_def Let_def finish_route_def split: if_splits)

text \<open>The upstream a flight or a task has on record is the one its reference leads to.\<close>

definition recorded :: "registry \<Rightarrow> string \<Rightarrow> upstream_ref \<Rightarrow> last_upstream" where
  "recorded r mdl u =
     (let b = deref r u in (base_url b, provider_node_id b, upstream_model_or b mdl))"

definition task_ok :: "registry \<Rightarrow> stream_task \<Rightarrow> bool" where
  "task_ok r t \<longleftrightarrow>
     stored r (task_upstream t)
   \<and> (task_provider t, task_node_id t, task_upstream_model t) = recorded r (task_model t) (task_upstream t)"

definition flight_ok :: "nat \<Rightarrow> registry \<Rightarrow> ('j, 'g) flight \<Rightarrow> bool" where
  "flight_ok m r fl \<longleftrightarrow>
     fl_attempt fl < m \<and> (\<exists>good. upstream_picker (sp_pick (fl_spec fl)) good)
   \<and> \<not> is_success (status (sp_no_upstream (fl_spec fl)))
   \<and> (case fl_waiting fl of
        None \<Rightarrow> True
      | Some u \<Rightarrow> stored r u \<and> fl_last fl = recorded r (sp_model (fl_spec fl)) u)"

lemma recorded_node: "node (deref r' u) = node (deref r u) \<Longrightarrow> recorded r' mdl u = recorded r mdl u"
  by (simp add: recorded_def upstream_model_or_def Let_def)

lemma task_ok_persists: "task_ok r t \<Longrightarrow> persists r r' \<Longrightarrow> task_ok r' t"
  unfolding task_ok_def using persistsD [of r r' "task_upstream t"] recorded_node by metis

lemma flight_ok_persists:
  assumes "flight_ok m r fl" "persists r r'"
  shows "flight_ok m r' fl"
proof (cases "fl_waiting fl")
  case (Some u)
  with assms have "stored r u" by (simp add: flight_ok_def)
  from persistsD [OF assms(2) this] have st: "stored r' u" and n: "node (deref r' u) = node (deref r u)"
    by simp_all
  with recorded_node [OF n] assms(1) Some show ?thesis by (simp add: flight_ok_def)
qed (use assms(1) in \<open>simp add: flight_ok_def\<close>)

text \<open>The requests a flight may still send.\<close>

definition sends_left :: "nat \<Rightarrow> ('j, 'g) flight \<Rightarrow> nat" where
  "sends_left m fl = m - fl_attempt fl - (case fl_waiting fl of None \<Rightarrow> 0 | Some u \<Rightarrow> 1)"

lemma persists_outcome_of: "outcome_of u r r' \<Longrightarrow> persists r r'"
  by (auto simp: outcome_of_def persists_outcome)

lemma take_reply_state:
  assumes "take_reply J L sp ctx e payload u w = (resp, w')" "stored (w_registry w) u"
  shows "outcome_of u (w_registry w) (w_registry w') \<and> w_sent w' = w_sent w
       \<and> (w_tasks w' = w_tasks w \<or> (\<exists>t. w_tasks w' = w_tasks w @ [t] \<and> task_ok (w_registry w') t))"
proof -
  let ?b = "deref (w_registry w) u"
  let ?req = "attempt_request J sp ?b (attempt_payload J sp ?b payload)"
  show ?thesis
  proof (cases "ae_exchange e ?req")
    case (SendError err)
    with assms show ?thesis by (auto simp: take_reply_def Let_def outcome_of_metric_eq)
  next
    case (Reply raw ct rbody)
    show ?thesis
    proof (cases "\<not> sp_streaming sp \<or> \<not> is_success (status_from_u16 raw)")
      case True
      with assms Reply obtain q rl st v where a: "answer_body J L sp ctx e u ?b q rl st ct rbody v = (resp, w')"
        "w_registry v = w_registry w" "w_sent v = w_sent w" "w_tasks v = w_tasks w"
        by (auto simp: take_reply_def Let_def)
      have "w_tasks w' = w_tasks v"
        using a(1) by (cases rbody) (auto simp: answer_body_def Let_def split: if_splits)
      with answer_body_registry [OF a(1)] a show ?thesis by simp
    next
      case False
      with assms Reply show ?thesis
        by (auto simp: take_reply_def Let_def answer_stream_def task_ok_def recorded_def)
    qed
  qed
qed

lemma flight_reply:
  assumes "flight_step J L retry fl w = (x, w')" "fl_waiting fl = Some u"
    and ok: "flight_ok (max_attempts retry) (w_registry w) fl" "registry_inv (w_registry w)"
  shows "registry_inv (w_registry w') \<and> persists (w_registry w) (w_registry w') \<and> w_sent w' = w_sent w
       \<and> (w_tasks w' = w_tasks w \<or> (\<exists>t. w_tasks w' = w_tasks w @ [t] \<and> task_ok (w_registry w') t))
       \<and> (case x of
            Inl resp \<Rightarrow> one_trace (rc_request_id (fl_ctx fl)) w w'
          | Inr fl' \<Rightarrow> leaves_nothing w w' \<and> fl_ctx fl' = fl_ctx fl
              \<and> flight_ok (max_attempts retry) (w_registry w') fl'
              \<and> sends_left (max_attempts retry) fl' \<le> sends_left (max_attempts retry) fl)"
proof -
  let ?e = "re_attempt (fl_env fl) (fl_attempt fl)"
  obtain resp v where r: "take_reply J L (fl_spec fl) (fl_ctx fl) ?e (fl_payload fl) u w = (resp, v)"
    and s: "settle retry fl resp v = (x, w')"
    using assms(1,2) by (auto simp: flight_step_def Let_def split: prod.splits)
  from ok(1) assms(2) have "stored (w_registry w) u" by (simp add: flight_ok_def)
  note state = take_reply_state [OF r this] and frame = settle_frame [OF s]
  note left = settle_leaves [OF s, of w, OF refl take_reply_leaves [OF r]]
  from state frame ok(2) have "registry_inv (w_registry w')" "persists (w_registry w) (w_registry w')"
    by (metis outcome_of_inv, metis persists_outcome_of)
  with state frame left show ?thesis
    using ok(1) assms(2) by (cases x) (auto simp: flight_ok_def sends_left_def)
qed

lemma flight_pick:
  assumes "flight_step J L retry fl w = (x, w')" "fl_waiting fl = None"
    and ok: "flight_ok (max_attempts retry) (w_registry w) fl" "registry_inv (w_registry w)"
  shows "registry_inv (w_registry w') \<and> persists (w_registry w) (w_registry w') \<and> w_tasks w' = w_tasks w
       \<and> (case x of
            Inl resp \<Rightarrow> one_trace (rc_request_id (fl_ctx fl)) w w' \<and> w_sent w' = w_sent w
          | Inr fl' \<Rightarrow> leaves_nothing w w' \<and> fl_ctx fl' = fl_ctx fl
              \<and> flight_ok (max_attempts retry) (w_registry w') fl'
              \<and> length (w_sent w') + sends_left (max_attempts retry) fl'
                  \<le> length (w_sent w) + sends_left (max_attempts retry) fl)"
proof -
  let ?e = "re_attempt (fl_env fl) (fl_attempt fl)" and ?sp = "fl_spec fl"
  obtain good where p: "upstream_picker (sp_pick ?sp) good" using ok(1) by (auto simp: flight_ok_def)
  obtain pk r where pk: "sp_pick ?sp (ae_select_at ?e) (w_registry w) = (pk, r)" by force
  from upstream_picker.pick_evolves [OF p ok(2), of "ae_select_at ?e"] pk
  have r: "evolves (w_registry w) r" "registry_inv r" "persists (w_registry w) r"
    by (simp_all add: persists_evolves)
  show ?thesis
  proof (cases pk)
    case None
    let ?v = "metric (record_gateway_error (sp_model ?sp) (sp_endpoint ?sp) ERROR_NO_UPSTREAM) (w\<lparr>w_registry := r\<rparr>)"
    from assms(1,2) pk None have s: "settle retry fl (sp_no_upstream ?sp) ?v = (x, w')"
      by (simp add: flight_step_def Let_def)
    have "\<not> is_success (status (sp_no_upstream ?sp))" using ok(1) by (simp add: flight_ok_def)
    then have "if is_success (status (sp_no_upstream ?sp)) then one_trace (rc_request_id (fl_ctx fl)) w ?v
        else leaves_nothing w ?v" by simp
    from settle_leaves [OF s refl this] settle_frame [OF s] r ok(1) assms(2) show ?thesis
      by (cases x) (auto simp: flight_ok_def sends_left_def)
  next
    case (Some u)
    from upstream_picker.pick_good [OF p ok(2)] pk Some have "good (w_registry w) u" by blast
    then have "stored (w_registry w) u"
      using upstream_picker.good_group [OF p] by (fastforce simp: stored_def)
    with r(3) have st: "stored r u" by (simp add: persistsD)
    let ?fl = "fl\<lparr>fl_waiting := Some u, fl_last := recorded r (sp_model ?sp) u\<rparr>"
    from assms(1,2) pk Some have x: "x = Inr ?fl"
      "w' = send_request J ?sp (fl_payload fl) u (w\<lparr>w_registry := r\<rparr>)"
      by (auto simp: flight_step_def Let_def recorded_def)
    have "w_registry w' = r" "leaves_nothing w w'" "length (w_sent w') = Suc (length (w_sent w))" "w_tasks w' = w_tasks w"
      by (simp_all add: x send_request_def Let_def)
    with r st ok(1) assms(2) show ?thesis by (auto simp: x(1) flight_ok_def sends_left_def)
  qed
qed

section \<open>Arrivals\<close>

text \<open>What an arrival may do before the request is in flight, or instead.\<close>

definition arrival :: "string \<Rightarrow> ('s, 'j) world \<Rightarrow> ('s, 'j) world \<Rightarrow> bool" where
  "arrival rid w w' \<longleftrightarrow>
     (\<exists>es rs. leaves es rs [] w w' \<and> mset es \<subseteq># {#rid#} \<and> mset rs \<subseteq># {#rid#})
   \<and> length (w_sent w') \<le> Suc (length (w_sent w)) \<and> w_tasks w' = w_tasks w
   \<and> (registry_inv (w_registry w) \<longrightarrow> registry_inv (w_registry w') \<and> persists (w_registry w) (w_registry w'))"

lemma leaves_nothing_some:
  "leaves_nothing w w' \<Longrightarrow> \<exists>es rs. leaves es rs [] w w' \<and> mset es \<subseteq># {#rid#} \<and> mset rs \<subseteq># {#rid#}"
  by (intro exI [of _ "[]"]) simp

lemma arrival_same [simp]:
  "arrival rid w w" "arrival rid w (metric f w') = arrival rid w w'" "arrival rid (metric f w) w' = arrival rid w w'"
  "arrival rid w (w\<lparr>w_limiter := s\<rparr>)"
  by (simp_all add: arrival_def leaves_nothing_some)

lemma arrival_rejected [simp]: "arrival rid w (emit_rl_log ts rid k mid ep (w\<lparr>w_limiter := s\<rparr>))"
proof -
  have "leaves [] [rid] [] w (emit_rl_log ts rid k mid ep (w\<lparr>w_limiter := s\<rparr>))"
    unfolding emit_rl_log_def by (rule leaves_try_send) (simp_all add: rl_record_def)
  then show ?thesis unfolding arrival_def
    by (intro conjI exI [of _ "[]"] exI [of _ "[rid]"]) (simp_all add: emit_rl_log_def)
qed

lemma proxy_request_leaves:
  assumes "proxy_request J g verb u path qs mdl ep ctx e w = (resp, w')"
  shows "leaves [rc_request_id ctx] [rc_request_id ctx] [] w w'"
proof -
  let ?b = "deref (w_registry w) u"
  let ?url = "if qs = [] then base_url ?b @ path else base_url ?b @ path @ ''?'' @ qs"
  let ?req = "\<lparr>req_method = verb, req_url = ?url,
      req_headers = apply_provider_headers J (api_compatibility_of ?b) (auth_header J ?b) [], req_json = None\<rparr>"
  note def = proxy_request_def [of J g verb u path qs mdl ep ctx e w, unfolded Let_def] proxy_log_def
  show ?thesis
  proof (cases "ae_exchange e ?req")
    case (SendError err)
    with assms show ?thesis by (auto simp: def)
  next
    case (Reply raw ct rbody)
    with assms show ?thesis by (auto simp: def split: sum.splits if_splits)
  qed
qed

lemma with_provider_arrival:
  assumes "with_provider J hs e (\<lambda>u. proxy_request J g verb u path qs mdl ep ctx e) w = (resp, w')"
    and "rc_request_id ctx = rid"
  shows "arrival rid w w'"
proof (cases "extract_provider_id J hs")
  case None
  with assms show ?thesis by (simp add: with_provider_def)
next
  case (Some pid)
  obtain pk r where f: "find_for_responses (ae_select_at e) pid (w_registry w) = (pk, r)" by force
  then have r: "registry_inv (w_registry w) \<Longrightarrow> registry_inv r" "persists (w_registry w) r"
    using registry_inv_find_for_responses persists_find_for_responses by (metis snd_conv)+
  show ?thesis
  proof (cases pk)
    case None
    with assms(1) Some f have "w' = w\<lparr>w_registry := r\<rparr>" by (simp add: with_provider_def)
    with r show ?thesis by (simp add: arrival_def leaves_nothing_some)
  next
    case (Some u)
    with assms(1) f \<open>extract_provider_id J hs = Some pid\<close>
    have p: "proxy_request J g verb u path qs mdl ep ctx e (w\<lparr>w_registry := r\<rparr>) = (resp, w')"
      by (simp add: with_provider_def)
    from proxy_request_leaves [OF p] have l: "leaves [rid] [rid] [] w w'" by (simp add: assms(2))
    from proxy_request_effect [OF p] have eff: "outcome_of u r (w_registry w')" "w_tasks w' = w_tasks w"
      "length (w_sent w') = Suc (length (w_sent w))" by simp_all
    from eff(1) r have "registry_inv (w_registry w) \<Longrightarrow> registry_inv (w_registry w')" "persists (w_registry w) (w_registry w')"
      using outcome_of_inv persists_outcome_of persists_trans by metis+
    with l eff show ?thesis unfolding arrival_def by (intro conjI exI [of _ "[rid]"]) simp_all
  qed
qed

lemma protected_proxy_arrival:
  assumes "rt \<notin> {ChatRoute, MessagesRoute, EmbeddingsRoute, ResponsesRoute}"
    and "protected_handler J H F S env hi rid identity rt w = (resp, w')"
  shows "arrival rid w w'"
  using assms
  by (cases rt) (auto simp: protected_handler_def extracted_def v1_responses_retrieve_def v1_responses_delete_def
      v1_responses_input_items_def route_response_retrieve_def route_response_delete_def
      route_response_input_items_def unlimited_context_def
      dest!: with_provider_arrival [where rid = rid] split: sum.splits)

section \<open>Launches\<close>

lemma spec_pickers [simp]:
  "\<exists>good. upstream_picker (sp_pick (chat_spec J H g mdl str key prio)) good"
  "\<exists>good. upstream_picker (sp_pick (messages_spec J H g mdl str key prio)) good"
  "\<exists>good. upstream_picker (sp_pick (embedding_spec J H g mdl key prio)) good"
  "\<exists>good. upstream_picker (sp_pick (responses_spec J g mdl str pid)) good"
  unfolding chat_spec_def messages_spec_def embedding_spec_def responses_spec_def route_spec.simps
  using model_picker.upstream_picker_axioms provider_picker.upstream_picker_axioms by blast+

lemma spec_refusals [simp]:
  "\<not> is_success (status (sp_no_upstream (chat_spec J H g mdl str key prio)))"
  "\<not> is_success (status (sp_no_upstream (messages_spec J H g mdl str key prio)))"
  "\<not> is_success (status (sp_no_upstream (embedding_spec J H g mdl key prio)))"
  "\<not> is_success (status (sp_no_upstream (responses_spec J g mdl str pid)))"
  by (simp_all add: chat_spec_def messages_spec_def embedding_spec_def responses_spec_def is_success_def)

definition launched :: "string \<Rightarrow> ('s, 'j) world \<Rightarrow> ('j, 'g) flight \<times> ('s, 'j) world \<Rightarrow> bool" where
  "launched rid w x \<longleftrightarrow>
     (case x of (fl, w') \<Rightarrow>
        w_registry w' = w_registry w \<and> w_sent w' = w_sent w \<and> w_tasks w' = w_tasks w \<and> leaves_nothing w w'
      \<and> rc_request_id (fl_ctx fl) = rid \<and> fl_waiting fl = None \<and> fl_attempt fl = 0
      \<and> (\<forall>m > 0. flight_ok m (w_registry w) fl))"

definition arrived :: "string \<Rightarrow> ('s, 'j) world \<Rightarrow> ('j response + ('j, 'g) flight) \<times> ('s, 'j) world \<Rightarrow> bool" where
  "arrived rid w x \<longleftrightarrow>
     (case x of (Inl resp, w') \<Rightarrow> arrival rid w w' | (Inr fl, w') \<Rightarrow> launched rid w (fl, w'))"

lemma arrived_start [simp]:
  "arrived rid (metric f w) x = arrived rid w x"
  by (auto simp: arrived_def launched_def split: prod.split sum.split)

lemma admit_effect:
  assumes "admit J S env rid identity mid protocol endpoint w = (x, w')"
  shows "case x of Inl resp \<Rightarrow> arrival rid w w'
         | Inr ctx \<Rightarrow> (\<exists>s. w' = w\<lparr>w_limiter := s\<rparr>) \<and> rc_request_id ctx = rid"
  using assms by (auto simp: admit_def split: prod.splits sum.splits)

lemma arrived_launch:
  assumes "\<exists>good. upstream_picker (sp_pick sp) good" "\<not> is_success (status (sp_no_upstream sp))"
    and "rc_request_id ctx = rid"
  shows "arrived rid w (launch sp ctx env payload (w\<lparr>w_limiter := s\<rparr>))"
  using assms by (auto simp: arrived_def launched_def launch_def flight_ok_def)

lemma launch_typed_arrived:
  assumes "\<And>ctx. \<exists>good. upstream_picker (sp_pick (spec ctx)) good"
    and "\<And>ctx. \<not> is_success (status (sp_no_upstream (spec ctx)))"
  shows "arrived rid w (launch_typed J S env rid identity protocol endpoint spec rbody w)"
proof -
  obtain x v where a: "admit J S env rid identity (tr_model rbody) protocol endpoint w = (x, v)" by force
  note eff = admit_effect [OF a]
  show ?thesis
  proof (cases x)
    case (Inl resp)
    with a eff show ?thesis by (simp add: launch_typed_def arrived_def)
  next
    case (Inr ctx)
    with eff obtain s where v: "v = w\<lparr>w_limiter := s\<rparr>" "rc_request_id ctx = rid" by auto
    with Inr a show ?thesis
      by (cases "tr_value rbody") (simp_all add: launch_typed_def arrived_launch assms, simp add: arrived_def)
  qed
qed

lemma launch_responses_arrived: "arrived rid w (launch_responses J S env hs rid identity rbody w)"
proof -
  obtain x v where a: "admit J S env rid identity (or_default (opt_str J ''model'' rbody) '''') ''openai''
      ENDPOINT_RESPONSES w = (x, v)" by force
  note eff = admit_effect [OF a]
  have refuse: "arrived rid w (Inl resp, w\<lparr>w_limiter := s\<rparr>)" for resp s by (simp add: arrived_def)
  show ?thesis
  proof (cases x)
    case (Inl resp)
    with a eff show ?thesis by (simp add: launch_responses_def arrived_def)
  next
    case (Inr ctx)
    with eff obtain s where v: "v = w\<lparr>w_limiter := s\<rparr>" "rc_request_id ctx = rid" by auto
    with Inr a show ?thesis
      by (auto simp: launch_responses_def arrived_launch refuse split: option.splits)
  qed
qed

lemma arrive_handler_arrived: "arrived rid w (arrive_handler J H F S env hi rid identity rt w)"
proof (cases "rt \<in> {ChatRoute, MessagesRoute, EmbeddingsRoute, ResponsesRoute}")
  case True
  have refuse: "arrived rid w (Inl resp, w)" for resp by (simp add: arrived_def)
  from True show ?thesis
    by (auto simp: arrive_handler_def Let_def refuse launch_responses_arrived intro!: launch_typed_arrived split: sum.split)
next
  case False
  obtain resp v where p: "protected_handler J H F S env hi rid identity rt w = (resp, v)" by force
  with False have "arrive_handler J H F S env hi rid identity rt w = (Inl resp, v)"
    by (cases rt) (auto simp: arrive_handler_def Let_def)
  with protected_proxy_arrival [OF False p] show ?thesis by (simp add: arrived_def)
qed

lemma arrive_arrived: "arrived rid w (arrive J H F reason sha S env hi rid w)"
proof -
  have refuse: "arrived rid w (Inl resp, metric f w)" for resp f by (simp add: arrived_def)
  have go: "arrived rid w (arrive_handler J H F S env hi rid identity rt (metric f w))" for identity rt f
    using arrive_handler_arrived [of rid "metric f w"] by simp
  show ?thesis
    unfolding arrive_def Let_def by (auto simp: refuse go split: route.split sum.split)
qed

lemma flight_step_effect:
  assumes "flight_step J L retry fl w = (x, w')" "m = max_attempts retry"
    and ok: "flight_ok m (w_registry w) fl" "registry_inv (w_registry w)"
  shows "registry_inv (w_registry w')" "persists (w_registry w) (w_registry w')"
    and "w_tasks w' = w_tasks w \<or> (\<exists>t. w_tasks w' = w_tasks w @ [t] \<and> task_ok (w_registry w') t)"
    and "length (w_sent w') + (case x of Inl resp \<Rightarrow> 0 | Inr fl' \<Rightarrow> sends_left m fl')
           \<le> length (w_sent w) + sends_left m fl"
    and "case x of
           Inl resp \<Rightarrow> one_trace (rc_request_id (fl_ctx fl)) w w'
         | Inr fl' \<Rightarrow> leaves_nothing w w' \<and> fl_ctx fl' = fl_ctx fl \<and> flight_ok m (w_registry w') fl'"
proof -
  have "registry_inv (w_registry w') \<and> persists (w_registry w) (w_registry w')
     \<and> (w_tasks w' = w_tasks w \<or> (\<exists>t. w_tasks w' = w_tasks w @ [t] \<and> task_ok (w_registry w') t))
     \<and> length (w_sent w') + (case x of Inl resp \<Rightarrow> 0 | Inr fl' \<Rightarrow> sends_left m fl')
         \<le> length (w_sent w) + sends_left m fl
     \<and> (case x of
          Inl resp \<Rightarrow> one_trace (rc_request_id (fl_ctx fl)) w w'
        | Inr fl' \<Rightarrow> leaves_nothing w w' \<and> fl_ctx fl' = fl_ctx fl \<and> flight_ok m (w_registry w') fl')"
  proof (cases "fl_waiting fl")
    case None
    from flight_pick [OF assms(1) None ok [unfolded assms(2)]] show ?thesis
      by (cases x) (simp_all add: assms(2))
  next
    case (Some u)
    from flight_reply [OF assms(1) Some ok [unfolded assms(2)]] show ?thesis
      by (cases x) (simp_all add: assms(2))
  qed
  then show "registry_inv (w_registry w')" "persists (w_registry w) (w_registry w')"
    "w_tasks w' = w_tasks w \<or> (\<exists>t. w_tasks w' = w_tasks w @ [t] \<and> task_ok (w_registry w') t)"
    "length (w_sent w') + (case x of Inl resp \<Rightarrow> 0 | Inr fl' \<Rightarrow> sends_left m fl')
       \<le> length (w_sent w) + sends_left m fl"
    "case x of
       Inl resp \<Rightarrow> one_trace (rc_request_id (fl_ctx fl)) w w'
     | Inr fl' \<Rightarrow> leaves_nothing w w' \<and> fl_ctx fl' = fl_ctx fl \<and> flight_ok m (w_registry w') fl'"
    by blast+
qed

section \<open>Forwarding tasks\<close>

lemma stream_task_effect:
  assumes "run_stream_task L on_span t items fe w = (chunks, w')"
  shows "leaves [task_request_id t] [task_request_id t] [] w w'"
    and "outcome_of (task_upstream t) (w_registry w) (w_registry w')"
    and "w_sent w' = w_sent w" "w_tasks w' = w_tasks w"
proof -
  obtain st v where l: "stream_loop on_span t items (stream_start (task_log_body t), w) = (st, v)" by force
  from stream_loop_effect [OF l] have v: "quiet w v" "w_registry v = w_registry w" "w_sent v = w_sent w" by simp_all
  then have "leaves_nothing w v" "w_tasks v = w_tasks w" by (simp_all add: quiet_def leaves_def)
  with assms l v show "leaves [task_request_id t] [task_request_id t] [] w w'"
    "outcome_of (task_upstream t) (w_registry w) (w_registry w')" "w_sent w' = w_sent w" "w_tasks w' = w_tasks w"
    by (auto simp: run_stream_task_def stream_finish_def Let_def outcome_of_metric_eq split: prod.splits)
qed

section \<open>Invariants of a run\<close>

text \<open>Lists with one element taken out.\<close>

lemma remove_nth_map: "map f (remove_nth i xs) = remove_nth i (map f xs)"
  by (simp add: remove_nth_def take_map drop_map)

lemma remove_nth_mset: "i < length xs \<Longrightarrow> mset xs = add_mset (xs ! i) (mset (remove_nth i xs))"
  by (metis id_take_nth_drop mset.simps(2) mset_append remove_nth_def union_mset_add_mset_right)

lemma remove_nth_sum: "i < length xs \<Longrightarrow> sum_list xs = xs ! i + sum_list (remove_nth i xs)" for xs :: "nat list"
proof -
  assume "i < length xs"
  from id_take_nth_drop [OF this] have "sum_list xs = sum_list (take i xs @ xs ! i # drop (Suc i) xs)" by simp
  then show ?thesis by (simp add: remove_nth_def)
qed

lemma remove_nth_in [dest]: "x \<in> set (remove_nth i xs) \<Longrightarrow> x \<in> set xs"
  by (auto simp: remove_nth_def dest: in_set_takeD in_set_dropD)

abbreviation flight_id :: "('j, 'g) flight \<Rightarrow> string" where
  "flight_id fl \<equiv> rc_request_id (fl_ctx fl)"

text \<open>The requests that are still to be logged, those with a trace, and those with a log row.\<close>

definition pending :: "('s, 'j, 'g) gateway_run \<Rightarrow> string multiset" where
  "pending R = mset (map task_request_id (w_tasks (run_world R))) + mset (map flight_id (run_flights R))"

definition traces :: "('s, 'j, 'g) gateway_run \<Rightarrow> string multiset" where
  "traces R = mset (map rec_request_id (w_access (run_world R))) + pending R"

definition log_rows :: "('s, 'j, 'g) gateway_run \<Rightarrow> string multiset" where
  "log_rows R =
     mset (map rec_request_id (concat (batches (run_writer R)) @ buffer (run_writer R)))
     + mset (sink_rows (w_sink (run_world R)))"

definition run_attempts :: "('s, 'j, 'g) gateway_run \<Rightarrow> nat" where
  "run_attempts R = max_attempts (gr_retry_config (gs_router (run_app R)))"

definition run_safe :: "('s, 'j, 'g) gateway_run \<Rightarrow> bool" where
  "run_safe R \<longleftrightarrow>
     registry_inv (w_registry (run_world R))
   \<and> (\<forall>fl \<in> set (run_flights R). flight_ok (run_attempts R) (w_registry (run_world R)) fl)
   \<and> (\<forall>t \<in> set (w_tasks (run_world R)). task_ok (w_registry (run_world R)) t)"

definition run_counted :: "('s, 'j, 'g) gateway_run \<Rightarrow> bool" where
  "run_counted R \<longleftrightarrow>
     mset (run_routed R) \<subseteq># traces R + mset (run_dropped R)
   \<and> traces R + mset (run_dropped R) \<subseteq># mset (run_arrived R)
   \<and> log_rows R + pending R + mset (run_dropped R) \<subseteq># mset (run_arrived R)"

definition run_bounded :: "('s, 'j, 'g) gateway_run \<Rightarrow> bool" where
  "run_bounded R \<longleftrightarrow>
     length (w_sent (run_world R)) + sum_list (map (sends_left (run_attempts R)) (run_flights R))
     \<le> run_attempts R * length (run_arrived R)"

lemma run_attempts_step: "gateway_step J H F reason sha names clean R R' \<Longrightarrow> run_attempts R' = run_attempts R"
  by (induction rule: gateway_step.induct) (simp_all add: run_attempts_def)

lemma run_attempts_pos [simp]: "0 < run_attempts R"
  by (simp add: run_attempts_def)

lemma run_safeI:
  assumes "run_safe R" "run_attempts R' = run_attempts R" "registry_inv (w_registry (run_world R'))"
    and "persists (w_registry (run_world R)) (w_registry (run_world R'))"
    and "\<And>fl. fl \<in> set (run_flights R') \<Longrightarrow>
           fl \<in> set (run_flights R) \<or> flight_ok (run_attempts R) (w_registry (run_world R')) fl"
    and "\<And>t. t \<in> set (w_tasks (run_world R')) \<Longrightarrow>
           t \<in> set (w_tasks (run_world R)) \<or> task_ok (w_registry (run_world R')) t"
  shows "run_safe R' \<and> persists (w_registry (run_world R)) (w_registry (run_world R'))"
  unfolding run_safe_def
proof (intro conjI ballI)
  fix fl assume "fl \<in> set (run_flights R')"
  with assms(5) consider "fl \<in> set (run_flights R)" | "flight_ok (run_attempts R) (w_registry (run_world R')) fl" by blast
  then show "flight_ok (run_attempts R') (w_registry (run_world R')) fl"
    using assms(1,2,4) by cases (auto simp: run_safe_def intro: flight_ok_persists)
next
  fix t assume "t \<in> set (w_tasks (run_world R'))"
  with assms(6) consider "t \<in> set (w_tasks (run_world R))" | "task_ok (w_registry (run_world R')) t" by blast
  then show "task_ok (w_registry (run_world R')) t"
    using assms(1,4) by cases (auto simp: run_safe_def intro: task_ok_persists)
qed (rule assms(3,4))+

lemma land_world [simp]: "snd (land J rid resp w) = metric (record_http_response (status resp) (extract_error_code J resp)) w"
  by (simp add: land_def)

lemma run_safe_step:
  assumes "gateway_step J H F reason sha names clean R R'" "run_safe R"
  shows "run_safe R' \<and> persists (w_registry (run_world R)) (w_registry (run_world R'))"
  using assms
proof (induction rule: gateway_step.induct)
  case (step_refuse rid env hi R resp w')
  then have "registry_inv (w_registry (run_world R))" by (simp add: run_safe_def)
  with arrive_arrived [of rid "run_world R" J H F reason sha "run_app R" env hi] step_refuse show ?case
    by (intro run_safeI [OF step_refuse.prems]) (simp_all add: arrived_def arrival_def run_attempts_def)
next
  case (step_launch rid env hi R fl w')
  then have "registry_inv (w_registry (run_world R))" by (simp add: run_safe_def)
  with arrive_arrived [of rid "run_world R" J H F reason sha "run_app R" env hi] step_launch show ?case
    by (intro run_safeI [OF step_launch.prems]) (auto simp: arrived_def launched_def run_attempts_def)
next
  case (step_attempt i R fl w')
  then have "registry_inv (w_registry (run_world R))"
    "flight_ok (run_attempts R) (w_registry (run_world R)) (run_flights R ! i)" by (simp_all add: run_safe_def)
  note eff = flight_step_effect [OF step_attempt.hyps(2) run_attempts_def this(2,1)]
  from eff show ?case
    by (intro run_safeI [OF step_attempt.prems]) (auto simp: run_attempts_def dest: set_update_subset_insert [THEN subsetD])
next
  case (step_answer i R resp w')
  then have "registry_inv (w_registry (run_world R))"
    "flight_ok (run_attempts R) (w_registry (run_world R)) (run_flights R ! i)" by (simp_all add: run_safe_def)
  note eff = flight_step_effect [OF step_answer.hyps(2) run_attempts_def this(2,1)]
  from eff show ?case
    by (intro run_safeI [OF step_answer.prems]) (auto simp: run_attempts_def)
next
  case (step_stream i R t items fe chunks w')
  note eff = stream_task_effect [OF step_stream.hyps(3)]
  from step_stream.prems have "registry_inv (w_registry (run_world R))" by (simp add: run_safe_def)
  with eff(2) have "registry_inv (w_registry w')" "persists (w_registry (run_world R)) (w_registry w')"
    by (simp_all add: outcome_of_inv persists_outcome_of)
  with eff(4) show ?case
    by (intro run_safeI [OF step_stream.prems]) (auto simp: run_attempts_def)
next
  case (step_reload_routes gs R now)
  then show ?case
    by (intro run_safeI [OF step_reload_routes.prems])
      (auto simp: run_attempts_def run_safe_def persists_reload intro: registry_inv_reload)
qed (auto simp: run_safe_def run_attempts_def)

text \<open>
  \<open>a\<close> traces and at most \<open>b\<close> rows come from the \<open>d\<close> requests that arrive, \<open>c\<close> of which are launched.
\<close>

lemma run_countedI:
  assumes "run_counted R" "run_dropped R' = run_dropped R" "mset (run_routed R') = mset (run_routed R) + c"
    and "traces R' = traces R + a" "log_rows R' + pending R' \<subseteq># log_rows R + pending R + b"
    and "mset (run_arrived R') = mset (run_arrived R) + d" "c \<subseteq># a" "a \<subseteq># d" "b \<subseteq># d"
  shows "run_counted R'"
  unfolding run_counted_def assms(2)
proof (intro conjI)
  let ?D = "mset (run_dropped R)"
  have t: "traces R' + ?D = traces R + ?D + a" by (simp add: assms(4))
  show "mset (run_routed R') \<subseteq># traces R' + ?D"
    unfolding t assms(3) using assms(1,7) by (simp only: run_counted_def subset_mset.add_mono)
  show "traces R' + ?D \<subseteq># mset (run_arrived R')"
    unfolding t assms(6) using assms(1,8) by (simp only: run_counted_def subset_mset.add_mono)
  have "log_rows R' + pending R' + ?D \<subseteq># log_rows R + pending R + b + ?D"
    by (rule subset_mset.add_right_mono [OF assms(5)])
  also have "\<dots> = log_rows R + pending R + ?D + b" by simp
  also have "\<dots> \<subseteq># mset (run_arrived R')"
    unfolding assms(6) using assms(1,9) by (simp only: run_counted_def subset_mset.add_mono)
  finally show "log_rows R' + pending R' + ?D \<subseteq># mset (run_arrived R')" .
qed

lemma leavesD:
  assumes "leaves es rs ts w w'"
  shows "mset (map rec_request_id (w_access w')) = mset (map rec_request_id (w_access w)) + mset es"
    and "mset (map task_request_id (w_tasks w')) = mset (map task_request_id (w_tasks w)) + mset ts"
    and "mset (sink_rows (w_sink w')) \<subseteq># mset (sink_rows (w_sink w)) + mset rs"
  using assms by (simp_all only: leaves_def mset_append)

lemma leaves_run:
  assumes "leaves es rs ts (run_world R) w'" "run_world R' = w'" "run_writer R' = run_writer R"
    and "mset (map flight_id (run_flights R')) + f = mset (map flight_id (run_flights R)) + f'"
  shows "traces R' + f = traces R + mset es + mset ts + f'"
    and "log_rows R' + pending R' + f \<subseteq># log_rows R + pending R + mset rs + mset ts + f'"
proof -
  note l = leavesD [OF assms(1)]
  let ?T = "mset (map task_request_id (w_tasks (run_world R)))"
  have "pending R' + f = (?T + mset ts) + (mset (map flight_id (run_flights R')) + f)"
    by (simp only: pending_def assms(2) l(2) add.assoc)
  also have "\<dots> = pending R + mset ts + f'"
    by (simp only: assms(4)) (simp only: pending_def ac_simps)
  finally have p: "pending R' + f = pending R + mset ts + f'" .
  show "traces R' + f = traces R + mset es + mset ts + f'"
    unfolding traces_def assms(2) l(1) add.assoc p by (simp only: ac_simps)
  have "log_rows R' \<subseteq># log_rows R + mset rs"
    using l(3) by (simp add: log_rows_def assms(2,3) subset_mset.add_left_mono ac_simps)
  then have "log_rows R' + (pending R' + f) \<subseteq># log_rows R + mset rs + (pending R + mset ts + f')"
    unfolding p by (rule subset_mset.add_right_mono)
  then show "log_rows R' + pending R' + f \<subseteq># log_rows R + pending R + mset rs + mset ts + f'"
    by (simp add: ac_simps)
qed

lemma run_counted_step:
  assumes "gateway_step J H F reason sha names clean R R'" "run_safe R" "run_counted R"
  shows "run_counted R'"
  using assms
proof (induction rule: gateway_step.induct)
  case (step_refuse rid env hi R resp w')
  let ?R = "R\<lparr>run_world := snd (land J rid resp w'), run_arrived := run_arrived R @ [rid]\<rparr>"
  from arrive_arrived [of rid "run_world R" J H F reason sha "run_app R" env hi] step_refuse(2)
  obtain es rs where l: "leaves es rs [] (run_world R) (run_world ?R)" "mset es \<subseteq># {#rid#}" "mset rs \<subseteq># {#rid#}"
    by (auto simp: arrived_def arrival_def)
  from leaves_run [OF l(1) refl, of "{#}" "{#}"] l(2,3) show ?case
    by (intro run_countedI [OF step_refuse.prems(2), where a = "mset es" and b = "mset rs" and c = "{#}" and d = "{#rid#}"]) simp_all
next
  case (step_launch rid env hi R fl w')
  let ?R = "R\<lparr>run_world := w', run_flights := run_flights R @ [fl], run_arrived := run_arrived R @ [rid],
          run_routed := run_routed R @ [rid]\<rparr>"
  from arrive_arrived [of rid "run_world R" J H F reason sha "run_app R" env hi] step_launch(2)
  have l: "leaves_nothing (run_world R) (run_world ?R)" "flight_id fl = rid"
    by (simp_all add: arrived_def launched_def)
  from leaves_run [OF l(1) refl, of "{#}" "{#rid#}"] l(2) show ?case
    by (intro run_countedI [OF step_launch.prems(2), where a = "{#rid#}" and b = "{#rid#}" and c = "{#rid#}" and d = "{#rid#}"]) simp_all
next
  case (step_attempt i R fl w')
  let ?R = "R\<lparr>run_world := w', run_flights := (run_flights R)[i := fl]\<rparr>"
  from step_attempt.prems step_attempt.hyps(1) have ok: "registry_inv (w_registry (run_world R))"
    "flight_ok (run_attempts R) (w_registry (run_world R)) (run_flights R ! i)" by (simp_all add: run_safe_def)
  from flight_step_effect(5) [OF step_attempt.hyps(2) run_attempts_def ok(2,1)]
  have l: "leaves_nothing (run_world R) (run_world ?R)" "flight_id fl = flight_id (run_flights R ! i)" by simp_all
  have "map flight_id (run_flights ?R) = map flight_id (run_flights R)"
    using step_attempt.hyps(1) l(2) by (simp add: map_update list_update_same_conv)
  then have "mset (map flight_id (run_flights ?R)) + {#} = mset (map flight_id (run_flights R)) + {#}" by simp
  from leaves_run [OF l(1) refl _ this] show ?case
    by (intro run_countedI [OF step_attempt.prems(2), where a = "{#}" and b = "{#}" and c = "{#}" and d = "{#}"]) simp_all
next
  case (step_answer i R resp w')
  let ?rid = "flight_id (run_flights R ! i)"
  let ?R = "R\<lparr>run_world := snd (land J ?rid resp w'), run_flights := remove_nth i (run_flights R)\<rparr>"
  from step_answer.prems step_answer.hyps(1) have ok: "registry_inv (w_registry (run_world R))"
    "flight_ok (run_attempts R) (w_registry (run_world R)) (run_flights R ! i)" by (simp_all add: run_safe_def)
  from flight_step_effect(5) [OF step_answer.hyps(2) run_attempts_def ok(2,1)]
  have "one_trace ?rid (run_world R) (run_world ?R)" by simp
  then consider (event) "leaves [?rid] [?rid] [] (run_world R) (run_world ?R)"
    | (task) "leaves [] [] [?rid] (run_world R) (run_world ?R)" unfolding one_trace_def by blast
  moreover have f: "mset (map flight_id (run_flights ?R)) + {#?rid#} = mset (map flight_id (run_flights R)) + {#}"
    using remove_nth_mset [of i "map flight_id (run_flights R)"] step_answer.hyps(1) by (simp add: remove_nth_map)
  ultimately have "traces ?R = traces R \<and> log_rows ?R + pending ?R \<subseteq># log_rows R + pending R"
  proof cases
    case event
    from leaves_run [OF event refl _ f] show ?thesis by simp
  next
    case task
    from leaves_run [OF task refl _ f] show ?thesis by simp
  qed
  then show ?case
    by (intro run_countedI [OF step_answer.prems(2), where a = "{#}" and b = "{#}" and c = "{#}" and d = "{#}"]) simp_all
next
  case (step_stream i R t items fe chunks w')
  let ?Q = "R\<lparr>run_world := (run_world R)\<lparr>w_tasks := remove_nth i (w_tasks (run_world R))\<rparr>\<rparr>" and ?R = "R\<lparr>run_world := w'\<rparr>"
  from stream_task_effect(1) [OF step_stream.hyps(3)]
  have "leaves [task_request_id t] [task_request_id t] [] (run_world ?Q) (run_world ?R)" by simp
  from leaves_run [OF this refl, of "{#}" "{#}"]
  have l: "traces ?R = traces ?Q + {#task_request_id t#}"
    "log_rows ?R + pending ?R \<subseteq># log_rows ?Q + pending ?Q + {#task_request_id t#}" by simp_all
  have "mset (map task_request_id (w_tasks (run_world R)))
      = add_mset (task_request_id t) (mset (map task_request_id (w_tasks (run_world ?Q))))"
    using remove_nth_mset [of i "map task_request_id (w_tasks (run_world R))"] step_stream.hyps(1,2)
    by (simp add: remove_nth_map)
  then have "pending R = pending ?Q + {#task_request_id t#}" by (simp add: pending_def)
  then have "traces ?R = traces R" "log_rows ?R + pending ?R \<subseteq># log_rows R + pending R"
    using l by (simp_all add: traces_def log_rows_def)
  then show ?case
    by (intro run_countedI [OF step_stream.prems(2), where a = "{#}" and b = "{#}" and c = "{#}" and d = "{#}"]) simp_all
next
  case (step_drop i R)
  let ?R = "R\<lparr>run_flights := remove_nth i (run_flights R),
      run_dropped := run_dropped R @ [flight_id (run_flights R ! i)]\<rparr>"
  have "pending R = pending ?R + {#flight_id (run_flights R ! i)#}"
    using remove_nth_mset [of i "map flight_id (run_flights R)"] step_drop.hyps by (simp add: pending_def remove_nth_map)
  then have "traces ?R + mset (run_dropped ?R) = traces R + mset (run_dropped R)"
    "log_rows ?R + pending ?R + mset (run_dropped ?R) = log_rows R + pending R + mset (run_dropped R)"
    by (simp_all add: traces_def log_rows_def)
  with step_drop.prems(2) show ?case by (simp only: run_counted_def) simp
qed (auto simp: run_counted_def traces_def pending_def log_rows_def sink_rows_def receive_record_def
    flush_buffer_def Let_def ac_simps)

lemma run_bounded_step:
  assumes "gateway_step J H F reason sha names clean R R'" "run_safe R" "run_bounded R"
  shows "run_bounded R'"
  using assms
proof (induction rule: gateway_step.induct)
  case (step_refuse rid env hi R resp w')
  from arrive_arrived [of rid "run_world R" J H F reason sha "run_app R" env hi] step_refuse(2)
  have "length (w_sent w') \<le> Suc (length (w_sent (run_world R)))" by (simp add: arrived_def arrival_def)
  moreover have "1 \<le> run_attempts R" using run_attempts_pos [of R] by linarith
  ultimately show ?case using step_refuse.prems(2) by (simp add: run_bounded_def run_attempts_def)
next
  case (step_launch rid env hi R fl w')
  from arrive_arrived [of rid "run_world R" J H F reason sha "run_app R" env hi] step_launch(2)
  have "w_sent w' = w_sent (run_world R)" "sends_left m fl = m" for m
    by (simp_all add: arrived_def launched_def sends_left_def)
  then show ?case using step_launch.prems(2) by (simp add: run_bounded_def run_attempts_def)
next
  case (step_attempt i R fl w')
  let ?f = "sends_left (run_attempts R)"
  from step_attempt.prems step_attempt.hyps(1) have ok: "registry_inv (w_registry (run_world R))"
    "flight_ok (run_attempts R) (w_registry (run_world R)) (run_flights R ! i)" by (simp_all add: run_safe_def)
  from flight_step_effect(4) [OF step_attempt.hyps(2) run_attempts_def ok(2,1)]
  have "length (w_sent w') + ?f fl \<le> length (w_sent (run_world R)) + ?f (run_flights R ! i)" by simp
  moreover have "sum_list (map ?f ((run_flights R)[i := fl])) + ?f (run_flights R ! i)
      = sum_list (map ?f (run_flights R)) + ?f fl"
    using step_attempt.hyps(1) member_le_sum_list [of "?f (run_flights R ! i)" "map ?f (run_flights R)"]
    by (simp add: map_update sum_list_update)
  ultimately show ?case using step_attempt.prems(2) by (simp add: run_bounded_def run_attempts_def)
next
  case (step_answer i R resp w')
  let ?f = "sends_left (run_attempts R)"
  from step_answer.prems step_answer.hyps(1) have ok: "registry_inv (w_registry (run_world R))"
    "flight_ok (run_attempts R) (w_registry (run_world R)) (run_flights R ! i)" by (simp_all add: run_safe_def)
  from flight_step_effect(4) [OF step_answer.hyps(2) run_attempts_def ok(2,1)]
  have "length (w_sent w') \<le> length (w_sent (run_world R)) + ?f (run_flights R ! i)" by simp
  moreover have "sum_list (map ?f (run_flights R))
      = ?f (run_flights R ! i) + sum_list (map ?f (remove_nth i (run_flights R)))"
    using remove_nth_sum [of i "map ?f (run_flights R)"] step_answer.hyps(1) by (simp add: remove_nth_map)
  ultimately show ?case using step_answer.prems(2) by (simp add: run_bounded_def run_attempts_def)
next
  case (step_stream i R t items fe chunks w')
  from stream_task_effect(3) [OF step_stream.hyps(3)] step_stream.prems(2) show ?case
    by (simp add: run_bounded_def run_attempts_def)
next
  case (step_drop i R)
  have "sum_list (map f (remove_nth i (run_flights R))) \<le> sum_list (map f (run_flights R))" for f :: "_ \<Rightarrow> nat"
    using remove_nth_sum [of i "map f (run_flights R)"] step_drop.hyps by (simp add: remove_nth_map)
  from this [of "sends_left (run_attempts R)"] step_drop.prems(2) show ?case
    by (simp add: run_bounded_def run_attempts_def)
qed (simp_all add: run_bounded_def run_attempts_def)

definition run_inv :: "('s, 'j, 'g) gateway_run \<Rightarrow> bool" where
  "run_inv R \<longleftrightarrow> run_safe R \<and> run_counted R \<and> run_bounded R"

lemma run_inv_start:
  "registry_inv r \<Longrightarrow> sink_rows sink = [] \<Longrightarrow> run_inv (run_start S r s sink ms)"
  by (simp add: run_inv_def run_safe_def run_counted_def run_bounded_def run_start_def traces_def pending_def
      log_rows_def writer_start_def)

lemma run_inv_steps:
  assumes "(gateway_step J H F reason sha names clean)\<^sup>*\<^sup>* R R'" "run_inv R"
  shows "run_inv R'" "run_attempts R' = run_attempts R"
    and "persists (w_registry (run_world R)) (w_registry (run_world R'))"
proof -
  from assms have "run_inv R' \<and> run_attempts R' = run_attempts R
      \<and> persists (w_registry (run_world R)) (w_registry (run_world R'))"
  proof (induction rule: rtranclp_induct)
    case (step Q R')
    then have "run_inv Q" "run_attempts Q = run_attempts R"
      "persists (w_registry (run_world R)) (w_registry (run_world Q))" by simp_all
    with run_safe_step [OF step.hyps(2)] show ?case
      by (auto simp: run_inv_def run_attempts_step [OF step.hyps(2)] intro: persists_trans
          run_counted_step [OF step.hyps(2)] run_bounded_step [OF step.hyps(2)])
  qed simp
  then show "run_inv R'" "run_attempts R' = run_attempts R"
    "persists (w_registry (run_world R)) (w_registry (run_world R'))" by simp_all
qed

section \<open>Draining\<close>

text \<open>The work left: two for each step of a flight, since the last one may leave a task, one for a task.\<close>

definition run_work :: "('s, 'j, 'g) gateway_run \<Rightarrow> nat" where
  "run_work R =
     2 * sum_list (map (steps_left (gr_retry_config (gs_router (run_app R)))) (run_flights R))
     + length (w_tasks (run_world R))"

lemma leaves_tasks: "leaves es rs ts w w' \<Longrightarrow> length (w_tasks w') = length (w_tasks w) + length ts"
  by (metis leaves_def length_append length_map)

text \<open>Every step but an arrival leaves the pending work as it is, or lessens it.\<close>

lemma step_work:
  assumes "gateway_step J H F reason sha names clean R R'" "run_safe R" "run_arrived R' = run_arrived R"
  shows "run_flights R' = run_flights R \<and> w_tasks (run_world R') = w_tasks (run_world R) \<or> run_work R' < run_work R"
  using assms
proof (induction rule: gateway_step.induct)
  case (step_attempt i R fl w')
  let ?f = "steps_left (gr_retry_config (gs_router (run_app R)))"
  from step_attempt.prems(1) step_attempt.hyps(1) have ok: "registry_inv (w_registry (run_world R))"
    "flight_ok (run_attempts R) (w_registry (run_world R)) (run_flights R ! i)" by (simp_all add: run_safe_def)
  from flight_step_effect(5) [OF step_attempt.hyps(2) run_attempts_def ok(2,1)]
  have "length (w_tasks w') = length (w_tasks (run_world R))" by (auto dest: leaves_tasks)
  moreover have "sum_list (map ?f ((run_flights R)[i := fl])) < sum_list (map ?f (run_flights R))"
    using flight_step_left [OF step_attempt.hyps(2)] step_attempt.hyps(1)
      member_le_sum_list [of "?f (run_flights R ! i)" "map ?f (run_flights R)"]
    by (simp add: map_update sum_list_update)
  ultimately show ?case by (simp add: run_work_def)
next
  case (step_answer i R resp w')
  let ?f = "steps_left (gr_retry_config (gs_router (run_app R)))"
  from step_answer.prems(1) step_answer.hyps(1) have ok: "registry_inv (w_registry (run_world R))"
    "flight_ok (run_attempts R) (w_registry (run_world R)) (run_flights R ! i)" by (simp_all add: run_safe_def)
  from flight_step_effect(5) [OF step_answer.hyps(2) run_attempts_def ok(2,1)]
  have "length (w_tasks w') \<le> Suc (length (w_tasks (run_world R)))"
    by (auto simp: one_trace_def dest: leaves_tasks)
  moreover have "sum_list (map ?f (run_flights R))
      = ?f (run_flights R ! i) + sum_list (map ?f (remove_nth i (run_flights R)))"
    using remove_nth_sum [of i "map ?f (run_flights R)"] step_answer.hyps(1) by (simp add: remove_nth_map)
  moreover have "0 < ?f (run_flights R ! i)" by (simp add: steps_left_def split: option.split)
  ultimately show ?case by (simp add: run_work_def)
next
  case (step_stream i R t items fe chunks w')
  have "length (remove_nth i (w_tasks (run_world R))) < length (w_tasks (run_world R))"
    using step_stream.hyps(1) by (simp add: remove_nth_def)
  then show ?case using stream_task_effect(4) [OF step_stream.hyps(3)] by (simp add: run_work_def)
next
  case (step_drop i R)
  let ?f = "steps_left (gr_retry_config (gs_router (run_app R)))"
  have "sum_list (map ?f (run_flights R))
      = ?f (run_flights R ! i) + sum_list (map ?f (remove_nth i (run_flights R)))"
    using remove_nth_sum [of i "map ?f (run_flights R)"] step_drop.hyps by (simp add: remove_nth_map)
  moreover have "0 < ?f (run_flights R ! i)" by (simp add: steps_left_def split: option.split)
  ultimately show ?case by (simp add: run_work_def)
qed simp_all

lemma run_works:
  assumes "run_safe R" "run_flights R \<noteq> [] \<or> w_tasks (run_world R) \<noteq> []"
  shows "\<exists>R'. gateway_step J H F reason sha names clean R R' \<and> run_work R' < run_work R
       \<and> run_arrived R' = run_arrived R \<and> run_routed R' = run_routed R
       \<and> run_dropped R' = run_dropped R"
proof (cases "run_flights R")
  case (Cons fl fls)
  let ?retry = "gr_retry_config (gs_router (run_app R))"
  obtain x w' where st: "flight_step J (router_limiter (run_app R)) ?retry (run_flights R ! 0) (run_world R) = (x, w')"
    by force
  have pos: "0 < length (run_flights R)" by (simp add: Cons)
  show ?thesis
  proof (cases x)
    case (Inr fl')
    let ?R = "R\<lparr>run_world := w', run_flights := (run_flights R)[0 := fl']\<rparr>"
    have step: "gateway_step J H F reason sha names clean R ?R" using step_attempt [OF pos] st Inr by simp
    have "fl' \<noteq> fl" using flight_step_left [OF st [unfolded Inr]] by (auto simp: Cons)
    then have "run_flights ?R \<noteq> run_flights R" by (simp add: Cons)
    with step_work [OF step assms(1)] step show ?thesis by (intro exI [of _ ?R]) simp
  next
    case (Inl resp)
    let ?R = "R\<lparr>run_world := snd (land J (flight_id (run_flights R ! 0)) resp w'),
        run_flights := remove_nth 0 (run_flights R)\<rparr>"
    have step: "gateway_step J H F reason sha names clean R ?R" using step_answer [OF pos] st Inl by simp
    have "run_flights ?R \<noteq> run_flights R" by (simp add: Cons remove_nth_def)
    with step_work [OF step assms(1)] step show ?thesis by (intro exI [of _ ?R]) simp
  qed
next
  case Nil
  let ?t = "w_tasks (run_world R) ! 0"
    and ?w = "(run_world R)\<lparr>w_tasks := remove_nth 0 (w_tasks (run_world R))\<rparr>"
  have pos: "0 < length (w_tasks (run_world R))" using assms(2) Nil by simp
  obtain chunks w' where st: "run_stream_task (router_limiter (run_app R)) (task_span J ?t) ?t []
      \<lparr>fe_outcome_at = 0, fe_limiter_now = 0, fe_ts = 0, fe_total_ms = 0\<rparr> ?w = (chunks, w')" by force
  let ?R = "R\<lparr>run_world := w'\<rparr>"
  have step: "gateway_step J H F reason sha names clean R ?R" by (rule step_stream [OF pos refl st])
  have "w_tasks (run_world ?R) \<noteq> w_tasks (run_world R)"
    using stream_task_effect(4) [OF st] pos by (cases "w_tasks (run_world R)") (simp_all add: remove_nth_def)
  with step_work [OF step assms(1)] step show ?thesis by (intro exI [of _ ?R]) simp
qed

lemma run_drains:
  assumes "run_inv R"
  shows "\<exists>R'. (gateway_step J H F reason sha names clean)\<^sup>*\<^sup>* R R' \<and> run_flights R' = [] \<and> w_tasks (run_world R') = []
       \<and> run_arrived R' = run_arrived R \<and> run_routed R' = run_routed R
       \<and> run_dropped R' = run_dropped R"
  using assms
proof (induction "run_work R" arbitrary: R rule: less_induct)
  case less
  show ?case
  proof (cases "run_flights R = [] \<and> w_tasks (run_world R) = []")
    case True
    then show ?thesis by (intro exI [of _ R]) simp
  next
    case False
    with run_works [of R J H F reason sha names clean] less.prems obtain Q where
      q: "gateway_step J H F reason sha names clean R Q" "run_work Q < run_work R"
        "run_arrived Q = run_arrived R" "run_routed Q = run_routed R"
        "run_dropped Q = run_dropped R" by (auto simp: run_inv_def)
    from run_inv_steps(1) [OF r_into_rtranclp [of "gateway_step J H F reason sha names clean", OF q(1)] less.prems]
    have "run_inv Q" .
    from less.hyps [OF q(2) this] q show ?thesis by (metis converse_rtranclp_into_rtranclp)
  qed
qed

end
