(* ===== verification/Gateway_Run_Properties.thy ===== *)
theory Gateway_Run_Properties
  imports Gateway_Run_Spec
begin

text \<open>
  The properties of the running gateway: accounting of requests, outcomes that reach the upstream
  that was asked, and draining, each with a run of a small gateway as its witness.
\<close>

section \<open>The properties of a run\<close>

text \<open>
  C2. No request is lost or logged twice, however requests, forwarding tasks, the log writer, reloads
  and clean-ups interleave: each launched request is in flight, in a pending forwarding task, or in the
  access log, unless its client went away while it was in flight, and no request is in two of these
  places or in one of them twice; the log writer's rows repeat no request either; and never more
  requests are sent than \<open>max(max_retries, 1)\<close> for each request that arrived.
\<close>

theorem run_accounts:
  assumes "registry_inv r" "sink_rows sink = []"
    and "(gateway_step J H F reason sha names clean)\<^sup>*\<^sup>* (run_start S r s sink ms) R"
  shows "mset (run_routed R) \<subseteq># traces R + mset (run_dropped R)
       \<and> traces R + mset (run_dropped R) \<subseteq># mset (run_arrived R)
       \<and> log_rows R + pending R + mset (run_dropped R) \<subseteq># mset (run_arrived R)
       \<and> length (w_sent (run_world R))
           \<le> max_attempts (gr_retry_config (gs_router S)) * length (run_arrived R)"
proof -
  note inv = run_inv_steps [OF assms(3) run_inv_start [OF assms(1,2)]]
  have "run_attempts R = max_attempts (gr_retry_config (gs_router S))"
    using inv(2) by (simp add: run_attempts_def run_start_def)
  with inv(1) show ?thesis by (simp add: run_inv_def run_counted_def run_bounded_def)
qed

text \<open>A gateway without keys and limits, and its first request.\<close>

definition open_gateway :: "(mem_limiter, int) gateway_state" where
  "open_gateway = example_gateway\<lparr>gs_auth_required := False, gs_rate_limiter := None\<rparr>"

definition open_start :: "(mem_limiter, json, int) gateway_run" where
  "open_start =
     run_start open_gateway (register_group 7 example_group registry_new) (mem_limiter_new 60) LogNoop metrics_new"

abbreviation open_step :: "(mem_limiter, json, int) gateway_run \<Rightarrow> (mem_limiter, json, int) gateway_run \<Rightarrow> bool" where
  "open_step \<equiv> gateway_step example_lib example_hash_ops example_f32 (\<lambda>_. None) (\<lambda>t. t) [] (\<lambda>_ s. s)"

definition open_id :: string where
  "open_id = request_id_of example_lib [] (se_draws example_serve_env) [] ''/v1/chat/completions''"

definition open_flight :: "(json, int) flight" where
  "open_flight =
     \<lparr>fl_spec = chat_spec example_lib example_hash_ops example_router ''m'' False
        (extract_routing_key example_lib []) 0,
      fl_ctx = \<lparr>rc_request_id = open_id, rc_api_key_id = ''anonymous'', rc_rate_limit = None, rc_min_priority = 0\<rparr>,
      fl_env = example_env, fl_payload = JObj [(''model'', JStr ''m'')], fl_attempt = 0,
      fl_last = ('''', '''', ''''), fl_waiting = None\<rparr>"

lemma open_launch:
  "\<exists>R. open_step open_start R \<and> run_flights R = [open_flight] \<and> run_arrived R = [open_id] \<and> run_routed R = [open_id]
     \<and> run_dropped R = [] \<and> run_app R = open_gateway \<and> w_registry (run_world R) = register_group 7 example_group registry_new
     \<and> w_tasks (run_world R) = [] \<and> w_access (run_world R) = []"
proof -
  let ?in = "example_in []"
  obtain w' where a: "arrive example_lib example_hash_ops example_f32 (\<lambda>_. None) (\<lambda>t. t) open_gateway
      example_serve_env ?in open_id (run_world open_start) = (Inr open_flight, w')"
    "w_registry w' = w_registry (run_world open_start)" "w_tasks w' = []" "w_access w' = []"
    by (simp add: arrive_def example_in_def app_route_def open_gateway_def example_gateway_def auth_middleware_def
        arrive_handler_def launch_typed_def admit_def check_rate_limits_def launch_def example_request_def Let_def
        open_flight_def example_serve_env_def open_start_def run_start_def)
  have "open_id = request_id_of example_lib [] (se_draws example_serve_env) (hi_headers ?in) (hi_path ?in)"
    by (simp add: open_id_def example_in_def)
  from step_launch [OF this, of example_hash_ops example_f32 "\<lambda>_. None" "\<lambda>t. t" open_start open_flight w'] a
  show ?thesis
    by (intro exI conjI) (assumption | simp add: open_start_def run_start_def)+
qed

lemma open_registry: "registry_inv (register_group 7 example_group registry_new)"
  by (rule registry_inv_register [OF registry_inv_new])
    (simp add: group_wf_def example_group_def example_binding_def breaker_new_def inv_created)

lemma run_accounts_witness:
  "\<exists>R. open_step\<^sup>*\<^sup>* open_start R \<and> run_routed R = [open_id] \<and> traces R = {#open_id#}
     \<and> length (w_sent (run_world R)) \<le> 5"
proof -
  obtain R where R: "open_step open_start R" "run_arrived R = [open_id]" "run_routed R = [open_id]"
    "run_dropped R = []" using open_launch by blast
  have run: "open_step\<^sup>*\<^sup>* (run_start open_gateway (register_group 7 example_group registry_new)
      (mem_limiter_new 60) LogNoop metrics_new) R"
    using R(1) by (simp add: open_start_def r_into_rtranclp)
  have "max_attempts (gr_retry_config (gs_router open_gateway)) = 5"
    by (simp add: max_attempts_def open_gateway_def example_gateway_def example_router_def gateway_router_new_def
        effective_retry_config_def default_router_config_def default_retry_config_def)
  with run_accounts [OF open_registry _ run] R have "{#open_id#} \<subseteq># traces R" "traces R \<subseteq># {#open_id#}"
    "length (w_sent (run_world R)) \<le> 5" by (simp_all add: sink_rows_def)
  moreover from this(1,2) have "traces R = {#open_id#}" by (rule subset_mset.antisym [rotated])
  ultimately show ?thesis using R run by (auto simp: open_start_def)
qed

text \<open>
  C6. An outcome is recorded where the request went: from the moment an attempt is sent, or a
  forwarding task is spawned, until it ends, its reference leads to the binding with the URL, node and
  model name it has on record, whatever requests and route reloads come between; and the registry's
  invariant holds throughout.
\<close>

theorem outcomes_reach_asked_upstream:
  assumes "registry_inv r" "sink_rows sink = []"
    and "(gateway_step J H F reason sha names clean)\<^sup>*\<^sup>* (run_start S r s sink ms) R"
    and "(gateway_step J H F reason sha names clean)\<^sup>*\<^sup>* R R'"
  shows "registry_inv (w_registry (run_world R'))
       \<and> list_all (\<lambda>fl. case fl_waiting fl of
             None \<Rightarrow> True
           | Some u \<Rightarrow> recorded (w_registry (run_world R')) (sp_model (fl_spec fl)) u = fl_last fl) (run_flights R)
       \<and> list_all (\<lambda>t. recorded (w_registry (run_world R')) (task_model t) (task_upstream t)
             = (task_provider t, task_node_id t, task_upstream_model t)) (w_tasks (run_world R))"
proof -
  have inv: "run_inv R" by (rule run_inv_steps(1) [OF assms(3) run_inv_start [OF assms(1,2)]])
  note later = run_inv_steps [OF assms(4) inv]
  have keeps: "recorded (w_registry (run_world R')) mdl u = recorded (w_registry (run_world R)) mdl u"
    if "stored (w_registry (run_world R)) u" for mdl u
    using persistsD [OF later(3) that] by (intro recorded_node) simp
  from later(1) have "registry_inv (w_registry (run_world R'))" by (simp add: run_inv_def run_safe_def)
  with inv keeps show ?thesis
    by (auto simp: run_inv_def run_safe_def flight_ok_def task_ok_def list_all_iff split: option.split)
qed

lemma open_pick:
  "\<exists>R u fl. open_step\<^sup>*\<^sup>* open_start R \<and> run_flights R = [fl] \<and> fl_waiting fl = Some u \<and> sp_model (fl_spec fl) = ''m''"
proof -
  obtain R where R: "open_step open_start R" "run_flights R = [open_flight]" "run_app R = open_gateway"
    "w_registry (run_world R) = register_group 7 example_group registry_new"
    using open_launch by blast
  let ?g = "group_store (w_registry (run_world R)) ! 0"
  let ?sel = "select_with_min_priority example_hash_ops 0 (extract_routing_key example_lib []) (Some External)
      (Some OpenAiApi) 0 ?g"
  have ups: "upstreams ?g = [(example_binding ''a'' 1)\<lparr>enabled := False\<rparr>, (example_binding ''b'' 1)\<lparr>priority := 1\<rparr>]"
    unfolding R(4) example_group_lookup by (simp add: example_group_def)
  have el: "eligible 0 (Some External) (Some OpenAiApi) ((example_binding ''b'' 1)\<lparr>priority := 1\<rparr>)"
    by (simp add: eligible_def opt_eq_def is_available_def example_binding_def default_node_def
        default_profile_def can_execute_def breaker_state_def check_and_update_state_eq breaker_new_def
        with_config_and_label_def)
  obtain k g' where sel: "?sel = (k, g')" by force
  have "tier_choice 0 (Some External) (Some OpenAiApi) {p. 0 \<le> p} (upstreams ?g) k"
    using select_with_min_priority_choice [of 0 "Some External" "Some OpenAiApi" 0 ?g example_hash_ops
        "extract_routing_key example_lib []"] sel by simp
  with el obtain i where i: "k = Some i" by (cases k) (auto simp: tier_choice_def ups)
  have "get_protocol_group ''m'' (api_compatibility_str OpenAiApi) (w_registry (run_world R)) = Some 0"
    unfolding R(4) using example_group_lookup(1) by simp
  with sel i have "sp_pick (fl_spec open_flight) 0 (w_registry (run_world R))
      = (Some (GroupUpstream 0 i), update_group 0 g' (w_registry (run_world R)))"
    by (simp add: open_flight_def chat_spec_def registry_select_def)
  then obtain fl w' where fl: "flight_step example_lib (router_limiter (run_app R))
      (gr_retry_config (gs_router (run_app R))) (run_flights R ! 0) (run_world R) = (Inr fl, w')"
    "fl_waiting fl = Some (GroupUpstream 0 i)" "sp_model (fl_spec fl) = ''m''"
    by (simp add: R(2) flight_step_def open_flight_def example_env_def chat_spec_def Let_def)
  have "open_step R (R\<lparr>run_world := w', run_flights := (run_flights R)[0 := fl]\<rparr>)"
    by (rule step_attempt [OF _ fl(1)]) (simp add: R(2))
  with R(1,2) fl(2,3) show ?thesis
    by (intro exI [of _ "R\<lparr>run_world := w', run_flights := (run_flights R)[0 := fl]\<rparr>"]
        exI [of _ "GroupUpstream 0 i"] exI [of _ fl]) (simp add: rtranclp.rtrancl_into_rtrancl)
qed

lemma outcomes_reach_asked_upstream_witness:
  "\<exists>R u fl. open_step\<^sup>*\<^sup>* open_start R \<and> run_flights R = [fl] \<and> fl_waiting fl = Some u
     \<and> recorded (reload_all 9 [] (w_registry (run_world R))) ''m'' u = fl_last fl"
proof -
  obtain R u fl where R: "open_step\<^sup>*\<^sup>* open_start R" "run_flights R = [fl]" "fl_waiting fl = Some u"
    "sp_model (fl_spec fl) = ''m''" using open_pick by blast
  let ?R = "R\<lparr>run_world := (run_world R)\<lparr>w_registry := reload_all 9 [] (w_registry (run_world R))\<rparr>\<rparr>"
  have "open_step R ?R" by (rule step_reload_routes) simp
  from outcomes_reach_asked_upstream [OF open_registry _ R(1) [unfolded open_start_def] r_into_rtranclp
      [of open_step, OF this]] R show ?thesis
    by (intro exI [of _ R] exI [of _ u] exI [of _ fl]) (simp add: sink_rows_def)
qed

text \<open>
  C14. The gateway drains: in every state it can reach, each step of a request in flight or of a
  forwarding task lessens the work left, and no step but an arrival adds to it; so, when nothing more
  arrives, the gateway can get to a state with nothing pending, where the access log holds an event of
  each launched request that was not dropped, and no more than one of any request that arrived.
\<close>

theorem gateway_drains:
  assumes "registry_inv r" "sink_rows sink = []"
    and "(gateway_step J H F reason sha names clean)\<^sup>*\<^sup>* (run_start S r s sink ms) R"
  shows "(\<forall>Q. gateway_step J H F reason sha names clean R Q \<longrightarrow>
            run_arrived Q \<noteq> run_arrived R \<or> run_work Q < run_work R
          \<or> run_flights Q = run_flights R \<and> w_tasks (run_world Q) = w_tasks (run_world R))
       \<and> (\<exists>R'. (gateway_step J H F reason sha names clean)\<^sup>*\<^sup>* R R' \<and> pending R' = {#}
            \<and> mset (run_routed R) \<subseteq># mset (map rec_request_id (w_access (run_world R'))) + mset (run_dropped R)
            \<and> mset (map rec_request_id (w_access (run_world R'))) + mset (run_dropped R) \<subseteq># mset (run_arrived R))"
proof -
  have inv: "run_inv R" by (rule run_inv_steps(1) [OF assms(3) run_inv_start [OF assms(1,2)]])
  from run_drains [OF this] obtain R' where R': "(gateway_step J H F reason sha names clean)\<^sup>*\<^sup>* R R'"
    "run_flights R' = []" "w_tasks (run_world R') = []" "run_arrived R' = run_arrived R" "run_routed R' = run_routed R"
    "run_dropped R' = run_dropped R" by blast
  from run_inv_steps(1) [OF R'(1) inv] have "run_counted R'" by (simp add: run_inv_def)
  moreover have "pending R' = {#}" by (simp add: pending_def R'(2,3))
  ultimately have "\<exists>R'. (gateway_step J H F reason sha names clean)\<^sup>*\<^sup>* R R' \<and> pending R' = {#}
       \<and> mset (run_routed R) \<subseteq># mset (map rec_request_id (w_access (run_world R'))) + mset (run_dropped R)
       \<and> mset (map rec_request_id (w_access (run_world R'))) + mset (run_dropped R) \<subseteq># mset (run_arrived R)"
    using R' by (intro exI [of _ R']) (simp add: run_counted_def traces_def)
  moreover have "run_safe R" using inv by (simp add: run_inv_def)
  ultimately show ?thesis using step_work by blast
qed

lemma gateway_drains_witness:
  "\<exists>R R'. open_step open_start R \<and> open_step\<^sup>*\<^sup>* R R' \<and> pending R = {#open_id#} \<and> pending R' = {#}
     \<and> map rec_request_id (w_access (run_world R')) = [open_id]"
proof -
  obtain R where R: "open_step open_start R" "run_flights R = [open_flight]" "run_arrived R = [open_id]"
    "run_routed R = [open_id]" "run_dropped R = []" "w_tasks (run_world R) = []" using open_launch by blast
  have run: "open_step\<^sup>*\<^sup>* (run_start open_gateway (register_group 7 example_group registry_new)
      (mem_limiter_new 60) LogNoop metrics_new) R"
    using R(1) by (simp add: open_start_def r_into_rtranclp)
  from gateway_drains [OF open_registry _ run] R obtain R' where R': "open_step\<^sup>*\<^sup>* R R'" "pending R' = {#}"
    "{#open_id#} \<subseteq># mset (map rec_request_id (w_access (run_world R')))"
    "mset (map rec_request_id (w_access (run_world R'))) \<subseteq># {#open_id#}"
    by (auto simp: sink_rows_def)
  from R'(4,3) have "mset (map rec_request_id (w_access (run_world R'))) = {#open_id#}"
    by (rule subset_mset.antisym)
  then have "map rec_request_id (w_access (run_world R')) = [open_id]"
    by (simp only: mset_single_iff)
  moreover have "pending R = {#open_id#}" by (simp add: pending_def R open_flight_def)
  ultimately show ?thesis using R(1) R'(1,2)
    by (intro exI [of _ R] exI [of _ R'] conjI) assumption+
qed

end
