(* ===== verification/Spec2Isabelle.thy ===== *)
theory Spec2Isabelle
  imports Breaker_Threads Routing_Fairness Registry_Evolution Rate_Limit_Races Rate_Limit_Redis_Spec Retry Sse_Chunking Access_Log
    Router_Properties Auth_Spec Admission_Spec Server_Spec File_Config_Spec Route_Query Config_Poll
    Key_Admin Log_Schema Startup_Spec Telemetry Gateway_Run_Properties
begin

text \<open>
  A verification library for ModelPointer, a gateway that forwards requests for language models to
  upstream providers.  It models the Rust crates \<^verbatim>\<open>core\<close> and
  \<^verbatim>\<open>server\<close>; paths below are relative to \<^verbatim>\<open>src/\<close>.

  \<^bold>\<open>The program.\<close>  A request enters through the application (routes, authentication, request ids,
  metrics), passes admission (quotas and rate limits), and reaches a handler.  The handler asks the
  registry for an upstream: the registry leads from a model and a protocol to a group of bindings,
  the group picks a binding by tier, availability and a routing algorithm, and each binding has a
  circuit breaker.  The retry executor repeats attempts; an answer is returned whole or streamed by
  a task that reads token usage from the events.  Each request ends in a metric, a charge to the
  token windows and an access log record.  Beside the requests, pollers reload routes, keys and
  quotas, and a writer task inserts the log.

  \<^bold>\<open>Theories, from the bottom up.\<close>

  \<^item> \<open>Gateway_Prelude\<close>: word types, results as sums with \<open>rbind\<close> and \<open>collect_results\<close>, the string
    operations of the standard library, and the generic lemmas and collections.

  \<^item> \<open>Circuit_Breaker\<close> (\<^verbatim>\<open>core/src/upstream/circuit_breaker.rs\<close>): the breaker as a record, one function
    per method.  \<open>Circuit_Breaker_Spec\<close> has the abstract three-state automaton and the refinement, the
    invariant, tripping and recovery.  \<open>Breaker_Threads\<close> cuts each call into its atomic accesses and
    interleaves them: a call alone is the sequential one, totals and tripping survive any race, and two
    runs show what does not.

  \<^item> \<open>Node\<close>, \<open>Routing\<close>, \<open>Upstream_Group\<close> (\<^verbatim>\<open>core/src/model.rs\<close>,
    \<^verbatim>\<open>core/src/upstream/node.rs\<close>, \<^verbatim>\<open>core/src/upstream/routing.rs\<close>): bindings, the two selection
    algorithms, selection by tier.  \<open>Routing_Fairness\<close> has fairness and bounds of smooth weighted round
    robin and minimal disruption of weighted rendezvous hashing.

  \<^item> \<open>Registry\<close> (\<^verbatim>\<open>core/src/upstream/registry.rs\<close>): the two indexes over append-only stores (an index
    stands for an \<open>Arc\<close>), registration, reload, selection, and the invariant.  \<open>Registry_Evolution\<close>
    says what requests may change of it; the locale \<open>upstream_picker\<close> is the contract of the two ways a
    handler picks an upstream.

  \<^item> \<open>Rate_Limit\<close>, \<open>Rate_Limit_Memory\<close>, \<open>Rate_Limit_Races\<close>, \<open>Rate_Limit_Redis\<close> (\<^verbatim>\<open>core/src/rate_limit.rs\<close>,
    \<^verbatim>\<open>server/src/rate_limit_memory.rs\<close>, \<^verbatim>\<open>server/src/rate_limit_redis.rs\<close>): bucket names, the locale
    \<open>rate_limiter\<close> that says what a limiter counts, the sliding windows in memory, one call at a time
    and then cut at the locks, so that calls and the cleanup race, and the Lua scripts over a parameter
    that stands for Redis.  \<open>Rate_Limit_Redis_Spec\<close> has what Redis documents of its commands, a server
    that satisfies it, and the token limit from the recording calls to the check.

  \<^item> \<open>Retry\<close> (\<^verbatim>\<open>core/src/upstream/retry.rs\<close>), \<open>Metrics\<close>
    (\<^verbatim>\<open>core/src/observability/metrics.rs\<close>), \<open>Http\<close>, \<open>Sse\<close>, \<open>Sse_Chunking\<close> (parts of
    \<^verbatim>\<open>server/src/router.rs\<close>): the executor, the label interner and the record functions as events,
    headers and error responses, usage extraction over bytes, and independence of how a stream is
    cut (locale \<open>span_parser\<close>, interpreted on each extractor).

  \<^item> \<open>Access_Log\<close>, \<open>Log_Partitions\<close>, \<open>Log_Schema\<close> (\<^verbatim>\<open>server/src/log_sink.rs\<close>,
    \<^verbatim>\<open>server/src/db/access_log_store.rs\<close>, \<^verbatim>\<open>server/src/db/mod.rs\<close>): the bounded channel and the writer
    as a step relation, the insert statement, daily partitions and the cleanup command, and the
    migrations with how the table they leave fits the insert.

  \<^item> \<open>Router_Core\<close>, \<open>Router\<close> (\<^verbatim>\<open>server/src/router.rs\<close>): one attempt, the retried request, the streaming
    task, and the seven handlers, over a \<open>world\<close> that holds registry, limiter, log sink, metrics, sent
    requests and spawned tasks.  \<open>Router_Spec\<close> and \<open>Router_Properties\<close> show accounting, where requests
    go, that an available upstream is tried, and isolation of the proxied operations.

  \<^item> \<open>Gateway_Run\<close>, \<open>Gateway_Run_Spec\<close>, \<open>Gateway_Run_Properties\<close> (\<^verbatim>\<open>server/src/router.rs\<close>,
    \<^verbatim>\<open>server/src/server.rs\<close>): the gateway as a step relation in which requests, stream tasks, the log
    writer, reloads and clean-ups interleave.  \<open>gateway_step\<close> cuts a routed request at its waits;
    \<open>request_alone\<close> shows that an undisturbed run of the steps is \<open>serve\<close>; the rest shows
    accounting, draining, and where outcomes are recorded under any interleaving.

  \<^item> \<open>Env_Expand\<close>, \<open>Auth\<close>, \<open>Key_Admin\<close> (\<^verbatim>\<open>server/src/env_expand.rs\<close>, \<^verbatim>\<open>server/src/auth_config.rs\<close>,
    \<^verbatim>\<open>server/src/auth.rs\<close>, \<^verbatim>\<open>server/src/middleware.rs\<close>, \<^verbatim>\<open>server/src/key_cmd.rs\<close>): placeholders, key files
    and repositories, the middleware, and the key commands.  \<open>Auth_Spec\<close> shows who is admitted.

  \<^item> \<open>Admission\<close>, \<open>Server\<close> (\<^verbatim>\<open>server/src/server.rs\<close>, \<^verbatim>\<open>server/src/quota_config.rs\<close>,
    \<^verbatim>\<open>server/src/db/quota_store.rs\<close>): quota overrides, the ordered limit checks, the route handlers and
    \<open>serve\<close>, the whole path of a request.  \<open>Admission_Spec\<close> counts what a check takes from the windows,
    from the contract \<open>rate_limiter\<close>; \<open>Server_Spec\<close> has the properties of the whole path.

  \<^item> \<open>File_Config\<close>, \<open>Route_Store\<close>, \<open>Route_Query\<close>, \<open>Config_Poll\<close>, \<open>Startup\<close> (\<^verbatim>\<open>server/src/file_config.rs\<close>,
    \<^verbatim>\<open>server/src/db/route_store.rs\<close>, \<^verbatim>\<open>server/src/db/config_version.rs\<close>, \<^verbatim>\<open>server/src/server.rs\<close>,
    \<^verbatim>\<open>server/src/main.rs\<close>, \<^verbatim>\<open>core/src/config.rs\<close>): routes from a file and from a database, with
    the query as a join over its tables, the pollers (locale \<open>reload_target\<close>, interpreted on registry,
    key cache and quota store), and what startup decides.  \<open>File_Config_Spec\<close> and \<open>Startup_Spec\<close> have their guarantees.

  \<^item> \<open>Telemetry\<close> (\<^verbatim>\<open>core/src/observability\<close>, \<^verbatim>\<open>core/src/app_context.rs\<close>): the switch and the set-once
    cells of OpenTelemetry, the log layers and directives, the exporter's descriptions and buckets,
    the settings of the HTTP client, and what a start of the process installs.

  \<^bold>\<open>Conventions.\<close>  A \<open>String\<close> is its UTF-8 bytes; integers of the code keep their width (\<open>u32\<close> and the
  like are words) except clock readings, which are \<open>int\<close> or \<open>nat\<close>, and quantities proved not to wrap.
  A fallible operation returns a sum with the message on the left.  Third-party code is an argument:
  JSON (\<open>lib\<close>), hashing (\<open>hash_ops\<close>), floating point (\<open>f32_ops\<close>), Redis (\<open>redis_ops\<close>), the calendar,
  SHA-256, network replies, clock readings, random draws and the rows a query returns; what the
  proofs use of them is a named hypothesis.  A \<open>HashMap\<close> whose order matters is traversed in an order
  given as an argument.  An operation reads the clock once.

  \<^bold>\<open>Termination and bounds.\<close>  No definition uses fuel: \<open>retry_loop\<close> ends by the number of attempts left,
  \<open>finish_flight\<close> by the steps a request in flight has left, \<open>expand_env\<close> and \<open>trim_left\<close> by the length
  of the text.  The theorems about windows assume a positive window that holds fewer than \<open>2^32\<close>
  entries and tokens (\<open>mem_room\<close>), where \<open>len() as u32\<close> and the \<open>u32\<close> sums would wrap;
  the running weights of round robin stay above minus the total weight and below the total weight
  times the number of candidates, far from the ends of \<open>i64\<close>.  Clock readings are assumed not to go
  back where a property says so (\<open>clock_back_exceeds_limit\<close> shows what happens to a limit otherwise).

  \<^bold>\<open>Concurrency.\<close>  An operation that takes a lock or publishes a snapshot is one step.  A request is cut
  where it waits: before and after each attempt's exchange with the upstream and at the back-off; what
  it does between two waits is one step of \<open>gateway_step\<close>, in which requests, stream tasks, the writer,
  reloads and clean-ups interleave, and a handler may be dropped when its client leaves.  The pollers
  have a step relation of their own against the database and requests.
  In these systems a call of a breaker is one step; its accesses, sequentially consistent, interleave in
  \<open>Breaker_Threads\<close>.  A call of the in-memory limiter is one step too; \<open>Rate_Limit_Races\<close> separates taking a
  window from locking it, and counts what the race that \<open>cleanup_stale\<close> documents lets through.

  \<^bold>\<open>Not modelled.\<close>  The log lines and spans themselves, TLS, the listener, signal handling and argument
  parsing, and the SQL text of queries other than the log insert and the routes: they are calls into
  libraries that keep no state of the program.  CORS and body limits are the framework's layers, and the typed
  request bodies come from another crate, so that only their model, stream flag and JSON value appear.
  \<^verbatim>\<open>core/src/storage/db.rs\<close> and \<^verbatim>\<open>core/src/storage/model_route_store.rs\<close> are not part of the module tree.
\<close>

end
